(* ===== verification/Prelude.thy ===== *)
theory Prelude
  imports Main "HOL-Library.Code_Target_Nat"
begin

text \<open>
  Shared material of the TermCall development: the named collections the component proofs
  draw from, Go's built-in map as an association list together with the interface that its
  clients (room manager, connection counter, TURN quota, mesh) rely on, and generic list and
  option lemmas.
\<close>

named_theorems go_map_simps \<open>what reading a Go map returns after a write or a delete\<close>
named_theorems go_str \<open>facts about Go strings, splitting and decimal text\<close>
named_theorems grid_intros \<open>introduction rules for well-formed cell grids\<close>

section \<open>Results\<close>

text \<open>A Go function that returns a value and an error returns \<open>Inl\<close> of the error or
  \<open>Inr\<close> of the value.\<close>

type_synonym ('e, 'a) res = "'e + 'a"

section \<open>Go maps\<close>

text \<open>
  A Go map is an association list with distinct keys. The order of the list stands for the
  (unspecified) iteration order of one execution; writes put the entry in front.
\<close>

type_synonym ('k, 'v) gomap = "('k \<times> 'v) list"

definition gm_empty :: "('k, 'v) gomap" where
  "gm_empty = []"

definition gm_get :: "('k, 'v) gomap \<Rightarrow> 'k \<Rightarrow> 'v option" where
  "gm_get m k = map_of m k"

definition gm_delete :: "'k \<Rightarrow> ('k, 'v) gomap \<Rightarrow> ('k, 'v) gomap" where
  "gm_delete k m = filter (\<lambda>p. fst p \<noteq> k) m"

definition gm_set :: "'k \<Rightarrow> 'v \<Rightarrow> ('k, 'v) gomap \<Rightarrow> ('k, 'v) gomap" where
  "gm_set k v m = (k, v) # gm_delete k m"

definition gm_len :: "('k, 'v) gomap \<Rightarrow> int" where
  "gm_len m = int (length m)"

definition gm_wf :: "('k, 'v) gomap \<Rightarrow> bool" where
  "gm_wf m \<longleftrightarrow> distinct (map fst m)"

text \<open>Reading a missing key of a map of integers yields the zero value.\<close>

definition gm_get0 :: "('k, int) gomap \<Rightarrow> 'k \<Rightarrow> int" where
  "gm_get0 m k = (case gm_get m k of None \<Rightarrow> 0 | Some v \<Rightarrow> v)"

definition gm_sum :: "('k, int) gomap \<Rightarrow> int" where
  "gm_sum m = sum_list (map snd m)"

lemma gm_get_empty [simp, go_map_simps]: "gm_get gm_empty k = None"
  by (simp add: gm_get_def gm_empty_def)

lemma gm_get_delete [simp, go_map_simps]:
  "gm_get (gm_delete k m) k' = (if k' = k then None else gm_get m k')"
  by (induction m) (auto simp: gm_get_def gm_delete_def)

lemma gm_get_set [simp, go_map_simps]:
  "gm_get (gm_set k v m) k' = (if k' = k then Some v else gm_get m k')"
  using gm_get_delete [of k m k'] by (auto simp: gm_set_def gm_get_def)

lemma gm_wf_empty [simp]: "gm_wf gm_empty"
  by (simp add: gm_wf_def gm_empty_def)

lemma gm_wf_delete [simp]: "gm_wf m \<Longrightarrow> gm_wf (gm_delete k m)"
  by (simp add: gm_wf_def gm_delete_def distinct_map_filter)

lemma gm_wf_set [simp]: "gm_wf m \<Longrightarrow> gm_wf (gm_set k v m)"
  using gm_wf_delete [of m k] by (auto simp: gm_set_def gm_wf_def gm_delete_def)

lemma gm_get_mem: "gm_get m k = Some v \<Longrightarrow> (k, v) \<in> set m"
  by (simp add: gm_get_def map_of_SomeD)

lemma gm_mem_get: "gm_wf m \<Longrightarrow> (k, v) \<in> set m \<Longrightarrow> gm_get m k = Some v"
  by (simp add: gm_get_def gm_wf_def)

lemma gm_get_None: "gm_get m k = None \<longleftrightarrow> k \<notin> fst ` set m"
  by (simp add: gm_get_def map_of_eq_None_iff)

lemma gm_delete_absent: "gm_get m k = None \<Longrightarrow> gm_delete k m = m"
  by (force simp: gm_get_None gm_delete_def filter_id_conv)

lemma gm_len_delete:
  "gm_wf m \<Longrightarrow> gm_len (gm_delete k m) = gm_len m - (if gm_get m k = None then 0 else 1)"
proof (induction m)
  case Nil
  then show ?case by (simp add: gm_len_def gm_delete_def gm_get_def)
next
  case (Cons p m)
  then have wf: "gm_wf m" and fresh: "gm_get m (fst p) = None"
    by (auto simp: gm_wf_def gm_get_None)
  show ?case
  proof (cases "fst p = k")
    case True
    then have "gm_delete k (p # m) = m"
      using gm_delete_absent [OF fresh] by (simp add: gm_delete_def)
    with True show ?thesis by (simp add: gm_len_def gm_get_def)
  next
    case False
    with Cons.IH [OF wf] show ?thesis by (simp add: gm_len_def gm_get_def gm_delete_def)
  qed
qed

lemma gm_len_set:
  "gm_wf m \<Longrightarrow> gm_len (gm_set k v m) = gm_len m + (if gm_get m k = None then 1 else 0)"
  using gm_len_delete [of m k] by (simp add: gm_set_def gm_len_def)

lemma gm_len_zero: "gm_len m = 0 \<longleftrightarrow> m = []"
  by (simp add: gm_len_def)

lemma gm_len_nonneg [simp]: "0 \<le> gm_len m"
  by (simp add: gm_len_def)

lemma gm_len_empty [simp]: "gm_len gm_empty = 0"
  by (simp add: gm_len_def gm_empty_def)

subsection \<open>The interface a client of a Go map relies on\<close>

locale go_map =
  fixes empty :: "'m"
    and get :: "'m \<Rightarrow> 'k \<Rightarrow> 'v option"
    and put :: "'k \<Rightarrow> 'v \<Rightarrow> 'm \<Rightarrow> 'm"
    and del :: "'k \<Rightarrow> 'm \<Rightarrow> 'm"
    and len :: "'m \<Rightarrow> int"
    and ok :: "'m \<Rightarrow> bool"
  assumes get_empty: "get empty k = None"
    and get_put: "get (put k v m) k' = (if k' = k then Some v else get m k')"
    and get_del: "get (del k m) k' = (if k' = k then None else get m k')"
    and len_empty: "len empty = 0"
    and len_put: "ok m \<Longrightarrow> len (put k v m) = len m + (if get m k = None then 1 else 0)"
    and len_del: "ok m \<Longrightarrow> len (del k m) = len m - (if get m k = None then 0 else 1)"
    and ok_empty: "ok empty"
    and ok_put: "ok m \<Longrightarrow> ok (put k v m)"
    and ok_del: "ok m \<Longrightarrow> ok (del k m)"
begin

lemmas laws = get_empty get_put get_del len_empty len_put len_del ok_empty ok_put ok_del

text \<open>Checking the length before an insertion keeps a capacity.\<close>

lemma bounded_put: "ok m \<Longrightarrow> len m < n \<Longrightarrow> len (put k v m) \<le> n"
  by (simp add: len_put)

lemma bounded_del: "ok m \<Longrightarrow> len m \<le> n \<Longrightarrow> len (del k m) \<le> n"
  by (simp add: len_del)

lemma bounded_update: "ok m \<Longrightarrow> len m \<le> n \<Longrightarrow> get m k \<noteq> None \<Longrightarrow> len (put k v m) \<le> n"
  by (auto simp: len_put)

lemma put_del_cancel: "get (del k (put k v m)) k' = get (del k m) k'"
  by (simp add: get_put get_del)

end

interpretation gm: go_map gm_empty gm_get gm_set gm_delete gm_len gm_wf
  by unfold_locales (simp_all add: gm_len_set gm_len_delete)

subsection \<open>Maps of counters\<close>

lemma gm_get0_empty [simp]: "gm_get0 gm_empty k = 0"
  by (simp add: gm_get0_def)

lemma gm_get0_set [simp, go_map_simps]:
  "gm_get0 (gm_set k v m) k' = (if k' = k then v else gm_get0 m k')"
  by (simp add: gm_get0_def)

lemma gm_get0_delete [simp, go_map_simps]:
  "gm_get0 (gm_delete k m) k' = (if k' = k then 0 else gm_get0 m k')"
  by (simp add: gm_get0_def)

lemma gm_sum_empty [simp]: "gm_sum gm_empty = 0"
  by (simp add: gm_sum_def gm_empty_def)

lemma gm_sum_delete: "gm_wf m \<Longrightarrow> gm_sum (gm_delete k m) = gm_sum m - gm_get0 m k"
proof (induction m)
  case Nil
  then show ?case by (simp add: gm_sum_def gm_delete_def gm_get0_def gm_get_def)
next
  case (Cons p m)
  then have wf: "gm_wf m" and fresh: "gm_get m (fst p) = None"
    by (auto simp: gm_wf_def gm_get_None)
  show ?case
  proof (cases "fst p = k")
    case True
    then have "gm_delete k (p # m) = m"
      using gm_delete_absent [OF fresh] by (simp add: gm_delete_def)
    with True show ?thesis by (simp add: gm_sum_def gm_get0_def gm_get_def)
  next
    case False
    with Cons.IH [OF wf] show ?thesis
      by (simp add: gm_sum_def gm_get0_def gm_get_def gm_delete_def)
  qed
qed

lemma gm_sum_set: "gm_wf m \<Longrightarrow> gm_sum (gm_set k v m) = gm_sum m - gm_get0 m k + v"
  using gm_sum_delete [of m k] by (simp add: gm_set_def gm_sum_def)

section \<open>Lists\<close>

lemma list_all_nth: "list_all P xs \<Longrightarrow> i < length xs \<Longrightarrow> P (xs ! i)"
  by (simp add: list_all_length)

lemma list_all_update: "list_all P xs \<Longrightarrow> P x \<Longrightarrow> list_all P (xs[i := x])"
  using set_update_subset_insert [of xs i x] by (auto simp: list_all_iff)

lemma length_filter_update:
  "i < length xs \<Longrightarrow>
   int (length (filter P (xs[i := x]))) =
     int (length (filter P xs)) - (if P (xs ! i) then 1 else 0) + (if P x then 1 else 0)"
proof (induction xs arbitrary: i)
  case (Cons y ys)
  show ?case
  proof (cases i)
    case (Suc j)
    with Cons.prems have "j < length ys" by simp
    from Cons.IH [OF this] Suc show ?thesis by (cases "P x"; cases "P (ys ! j)") simp_all
  qed simp
qed simp

section \<open>Transition systems\<close>

text \<open>What it takes for a predicate to hold in every state that a component can reach. The step
  relations of the signaling server, the mesh and the terminal program are instances.\<close>

locale transition_invariant =
  fixes init :: "'s \<Rightarrow> bool"
    and step :: "'s \<Rightarrow> 's \<Rightarrow> bool"
    and inv :: "'s \<Rightarrow> bool"
  assumes init_inv: "init s \<Longrightarrow> inv s"
    and step_inv: "inv s \<Longrightarrow> step s t \<Longrightarrow> inv t"
begin

lemma run_inv: "step\<^sup>*\<^sup>* s t \<Longrightarrow> inv s \<Longrightarrow> inv t"
  by (induction rule: rtranclp_induct) (auto intro: step_inv)

lemma reach_inv: "init s \<Longrightarrow> step\<^sup>*\<^sup>* s t \<Longrightarrow> inv t"
  by (blast intro: run_inv init_inv)

end

end
