(* ===== verification/Go_Strings.thy ===== *)
theory Go_Strings
  imports Prelude
begin

text \<open>
  The parts of Go's standard library for text that TermCall uses. A Go string is a sequence
  of bytes, so it is a HOL \<open>string\<close> (a \<open>char\<close> is a byte). \<open>runes\<close> is what
  \<^verbatim>\<open>for range\<close> sees: the UTF-8 code points with the bytes that encode each, and
  U+FFFD of width one for an invalid byte. \<open>go_fields\<close>, \<open>go_trim_space\<close>,
  \<open>split_on\<close>, \<open>go_atoi\<close>, \<open>go_itoa\<close> and \<open>go_parse_uint\<close> are
  \<^verbatim>\<open>strings.Fields\<close>, \<^verbatim>\<open>strings.TrimSpace\<close>, \<^verbatim>\<open>strings.Split\<close>
  with a one-byte separator, \<^verbatim>\<open>strconv.Atoi\<close>, \<^verbatim>\<open>strconv.Itoa\<close> and
  \<^verbatim>\<open>strconv.ParseUint\<close>. The lemmas are the round trips the frame codec and the mesh
  rest on: splitting undoes joining and reading undoes printing.
\<close>

section \<open>Bytes and UTF-8\<close>

definition byte_val :: "char \<Rightarrow> nat" where
  "byte_val c = of_char c"

definition in_range :: "nat \<Rightarrow> nat \<Rightarrow> char \<Rightarrow> bool" where
  "in_range lo hi c \<longleftrightarrow> lo \<le> byte_val c \<and> byte_val c \<le> hi"

definition rune_error :: nat where
  "rune_error = 65533"

text \<open>For a leading byte: the length of the sequence and the range its second byte must be in.\<close>

definition lead_info :: "nat \<Rightarrow> (nat \<times> nat \<times> nat) option" where
  "lead_info b =
     (if b < 194 then None
      else if b \<le> 223 then Some (2, 128, 191)
      else if b = 224 then Some (3, 160, 191)
      else if b = 237 then Some (3, 128, 159)
      else if b \<le> 239 then Some (3, 128, 191)
      else if b = 240 then Some (4, 144, 191)
      else if b \<le> 243 then Some (4, 128, 191)
      else if b = 244 then Some (4, 128, 143)
      else None)"

definition decode_rune :: "string \<Rightarrow> nat \<times> nat" where
  "decode_rune s =
     (case s of
        [] \<Rightarrow> (rune_error, 0)
      | c # cs \<Rightarrow>
          if byte_val c < 128 then (byte_val c, 1)
          else (case lead_info (byte_val c) of
              None \<Rightarrow> (rune_error, 1)
            | Some (n, lo, hi) \<Rightarrow>
                (case (n, cs) of
                   (_, []) \<Rightarrow> (rune_error, 1)
                 | (_, c1 # cs1) \<Rightarrow>
                     if \<not> in_range lo hi c1 then (rune_error, 1)
                     else if n = 2 then ((byte_val c mod 32) * 64 + byte_val c1 mod 64, 2)
                     else (case cs1 of
                         [] \<Rightarrow> (rune_error, 1)
                       | c2 # cs2 \<Rightarrow>
                           if \<not> in_range 128 191 c2 then (rune_error, 1)
                           else if n = 3 then
                             ((byte_val c mod 16) * 4096 + (byte_val c1 mod 64) * 64
                                + byte_val c2 mod 64, 3)
                           else (case cs2 of
                               [] \<Rightarrow> (rune_error, 1)
                             | c3 # _ \<Rightarrow>
                                 if \<not> in_range 128 191 c3 then (rune_error, 1)
                                 else ((byte_val c mod 8) * 262144 + (byte_val c1 mod 64) * 4096
                                         + (byte_val c2 mod 64) * 64 + byte_val c3 mod 64, 4))))))"

function runes :: "string \<Rightarrow> (nat \<times> string) list" where
  "runes [] = []"
| "runes (c # cs) =
     (case decode_rune (c # cs) of
        (r, w) \<Rightarrow> (r, c # take (w - 1) cs) # runes (drop (w - 1) cs))"
  by pat_completeness auto
termination
  by (relation "measure length") auto

lemma runes_concat [go_str]: "concat (map snd (runes s)) = s"
  by (induction s rule: runes.induct) (auto split: prod.splits)

declare runes.simps(2) [simp del]

definition ascii :: "string \<Rightarrow> bool" where
  "ascii s \<longleftrightarrow> list_all (\<lambda>c. byte_val c < 128) s"

lemma ascii_simps [simp, go_str]:
  "ascii []" "ascii (c # s) \<longleftrightarrow> byte_val c < 128 \<and> ascii s" "ascii (s @ t) \<longleftrightarrow> ascii s \<and> ascii t"
  by (simp_all add: ascii_def)

lemma runes_ascii_Cons [simp]: "byte_val c < 128 \<Longrightarrow> runes (c # s) = (byte_val c, [c]) # runes s"
  by (simp add: runes.simps(2) decode_rune_def)

lemma runes_ascii_append:
  "ascii s \<Longrightarrow> runes (s @ t) = map (\<lambda>c. (byte_val c, [c])) s @ runes t"
  by (induction s) simp_all

lemma runes_ascii: "ascii s \<Longrightarrow> runes s = map (\<lambda>c. (byte_val c, [c])) s"
  using runes_ascii_append [of s "[]"] by simp

section \<open>White space\<close>

definition is_space :: "nat \<Rightarrow> bool" where
  "is_space r \<longleftrightarrow>
     9 \<le> r \<and> r \<le> 13 \<or> r = 32 \<or> r = 133 \<or> r = 160 \<or> r = 5760 \<or> 8192 \<le> r \<and> r \<le> 8202 \<or>
     r = 8232 \<or> r = 8233 \<or> r = 8239 \<or> r = 8287 \<or> r = 12288"

fun fields_from :: "(nat \<times> string) list \<Rightarrow> string \<Rightarrow> string list" where
  "fields_from [] cur = (if cur = [] then [] else [cur])"
| "fields_from ((r, bs) # rs) cur =
     (if is_space r then (if cur = [] then fields_from rs [] else cur # fields_from rs [])
      else fields_from rs (cur @ bs))"

definition go_fields :: "string \<Rightarrow> string list" where
  "go_fields s = fields_from (runes s) []"

definition drop_while_end :: "('a \<Rightarrow> bool) \<Rightarrow> 'a list \<Rightarrow> 'a list" where
  "drop_while_end P xs = rev (dropWhile P (rev xs))"

definition go_trim_space :: "string \<Rightarrow> string" where
  "go_trim_space s =
     concat (map snd (drop_while_end (\<lambda>p. is_space (fst p))
       (dropWhile (\<lambda>p. is_space (fst p)) (runes s))))"

section \<open>Splitting and joining\<close>

fun split_on :: "char \<Rightarrow> string \<Rightarrow> string list" where
  "split_on c [] = [[]]"
| "split_on c (x # xs) =
     (if x = c then [] # split_on c xs
      else (case split_on c xs of [] \<Rightarrow> [[x]] | w # ws \<Rightarrow> (x # w) # ws))"

fun join_on :: "char \<Rightarrow> string list \<Rightarrow> string" where
  "join_on c [] = []"
| "join_on c [w] = w"
| "join_on c (w # ws) = w @ c # join_on c ws"

fun index_byte :: "char \<Rightarrow> string \<Rightarrow> nat option" where
  "index_byte c [] = None"
| "index_byte c (x # xs) = (if x = c then Some 0 else map_option Suc (index_byte c xs))"

definition trim_suffix_byte :: "char \<Rightarrow> string \<Rightarrow> string" where
  "trim_suffix_byte c s = (if s \<noteq> [] \<and> last s = c then butlast s else s)"

definition has_prefix :: "string \<Rightarrow> string \<Rightarrow> bool" where
  "has_prefix p s \<longleftrightarrow> take (length p) s = p"

lemma split_on_no_sep [go_str]: "c \<notin> set s \<Longrightarrow> split_on c s = [s]"
  by (induction s) auto

lemma split_on_append [go_str]: "c \<notin> set w \<Longrightarrow> split_on c (w @ c # s) = w # split_on c s"
  by (induction w) auto

lemma split_on_join [go_str]:
  "ws \<noteq> [] \<Longrightarrow> \<forall>w \<in> set ws. c \<notin> set w \<Longrightarrow> split_on c (join_on c ws) = ws"
  by (induction c ws rule: join_on.induct) (auto simp: split_on_no_sep split_on_append)

lemma index_byte_append [go_str]: "c \<notin> set s \<Longrightarrow> index_byte c (s @ c # t) = Some (length s)"
  by (induction s) auto

lemma index_byte_Some: "index_byte c s = Some n \<Longrightarrow> n < length s \<and> s ! n = c \<and> c \<notin> set (take n s)"
  by (induction s arbitrary: n) (auto split: if_splits)

lemma trim_suffix_byte_snoc [simp, go_str]: "trim_suffix_byte c (s @ [c]) = s"
  by (simp add: trim_suffix_byte_def)

lemma fields_from_word:
  "list_all (\<lambda>c. \<not> is_space (byte_val c)) w \<Longrightarrow>
   fields_from (map (\<lambda>c. (byte_val c, [c])) w @ rs) cur = fields_from rs (cur @ w)"
  by (induction w arbitrary: cur) auto

text \<open>A word that \<^verbatim>\<open>strings.Fields\<close> returns unchanged.\<close>

definition plain_word :: "string \<Rightarrow> bool" where
  "plain_word w \<longleftrightarrow> w \<noteq> [] \<and> ascii w \<and> list_all (\<lambda>c. \<not> is_space (byte_val c)) w"

lemma byte_val_blank [simp]: "byte_val (CHR '' '') = 32"
  by (simp add: byte_val_def)

lemma go_fields_join [go_str]:
  "\<forall>w \<in> set ws. plain_word w \<Longrightarrow> go_fields (join_on (CHR '' '') ws) = ws"
proof (induction "CHR '' ''" ws rule: join_on.induct)
  case 1
  then show ?case by (simp add: go_fields_def)
next
  case (2 w)
  then show ?case
    using fields_from_word [of w "[]" "[]"] by (simp add: go_fields_def plain_word_def runes_ascii)
next
  case (3 w v ws)
  then have w: "ascii w" "w \<noteq> []" "list_all (\<lambda>c. \<not> is_space (byte_val c)) w"
    and rest: "go_fields (join_on (CHR '' '') (v # ws)) = v # ws"
    by (simp_all add: plain_word_def)
  from w rest show ?case
    by (simp add: go_fields_def runes_ascii_append fields_from_word is_space_def)
qed

section \<open>Decimal text\<close>

definition digit_char :: "nat \<Rightarrow> char" where
  "digit_char d = ''0123456789'' ! d"

definition is_digit :: "char \<Rightarrow> bool" where
  "is_digit c \<longleftrightarrow> in_range 48 57 c"

definition digit_val :: "char \<Rightarrow> nat" where
  "digit_val c = byte_val c - 48"

fun nat_digits :: "nat \<Rightarrow> string" where
  "nat_digits n = (if n < 10 then [digit_char n] else nat_digits (n div 10) @ [digit_char (n mod 10)])"

declare nat_digits.simps [simp del]

definition digits_val :: "string \<Rightarrow> nat" where
  "digits_val s = foldl (\<lambda>a c. 10 * a + digit_val c) 0 s"

definition parse_digits :: "string \<Rightarrow> nat option" where
  "parse_digits s = (if s = [] \<or> \<not> list_all is_digit s then None else Some (digits_val s))"

definition int64_min :: int where
  "int64_min = - 9223372036854775808"

definition int64_max :: int where
  "int64_max = 9223372036854775807"

definition uint64_max :: nat where
  "uint64_max = 18446744073709551615"

definition go_atoi :: "string \<Rightarrow> int option" where
  "go_atoi s =
     (let neg = (s \<noteq> [] \<and> hd s = CHR ''-'');
          signed = (s \<noteq> [] \<and> (hd s = CHR ''-'' \<or> hd s = CHR ''+''))
      in case parse_digits (if signed then tl s else s) of
           None \<Rightarrow> None
         | Some n \<Rightarrow>
             (let v = (if neg then - int n else int n)
              in if int64_min \<le> v \<and> v \<le> int64_max then Some v else None))"

definition go_itoa :: "int \<Rightarrow> string" where
  "go_itoa v = (if v < 0 then CHR ''-'' # nat_digits (nat (- v)) else nat_digits (nat v))"

definition go_parse_uint :: "string \<Rightarrow> nat option" where
  "go_parse_uint s =
     (case parse_digits s of
        None \<Rightarrow> None
      | Some n \<Rightarrow> if n \<le> uint64_max then Some n else None)"

definition go_format_uint :: "nat \<Rightarrow> string" where
  "go_format_uint n = nat_digits n"

lemma digit_char_cases: "d < 10 \<Longrightarrow> digit_char d \<in> set ''0123456789''"
  unfolding digit_char_def by (rule nth_mem) simp

lemma digit_set: "c \<in> set ''0123456789'' \<Longrightarrow> 48 \<le> byte_val c \<and> byte_val c \<le> 57"
  by (auto simp: byte_val_def)

lemma is_digit_digit_char [simp]: "d < 10 \<Longrightarrow> is_digit (digit_char d)"
  using digit_set [OF digit_char_cases] by (simp add: is_digit_def in_range_def)

lemma digit_val_digit_char [simp]: "d < 10 \<Longrightarrow> digit_val (digit_char d) = d"
proof -
  assume "d < 10"
  then consider "d = 0" | "d = 1" | "d = 2" | "d = 3" | "d = 4" | "d = 5" | "d = 6" | "d = 7"
    | "d = 8" | "d = 9"
    by atomize_elim arith
  then show ?thesis
    by cases (simp_all add: digit_val_def digit_char_def byte_val_def)
qed

lemma digits_val_snoc [simp]: "digits_val (s @ [c]) = 10 * digits_val s + digit_val c"
  by (simp add: digits_val_def)

lemma nat_digits_nonempty [simp, go_str]: "nat_digits n \<noteq> []"
  by (subst nat_digits.simps) simp

lemma nat_digits_all [simp, go_str]: "list_all is_digit (nat_digits n)"
proof (induction n rule: nat_digits.induct)
  case (1 n)
  then show ?case by (subst nat_digits.simps) simp
qed

lemma digits_val_nat_digits [simp, go_str]: "digits_val (nat_digits n) = n"
proof (induction n rule: nat_digits.induct)
  case (1 n)
  show ?case
  proof (cases "n < 10")
    case True
    then show ?thesis by (subst nat_digits.simps) (simp add: digits_val_def)
  next
    case False
    with 1 show ?thesis by (subst nat_digits.simps) simp
  qed
qed

lemma parse_nat_digits [simp, go_str]: "parse_digits (nat_digits n) = Some n"
  by (simp add: parse_digits_def)

lemma nat_digits_length: "n < 10 ^ k \<Longrightarrow> 0 < k \<Longrightarrow> length (nat_digits n) \<le> k"
proof (induction n arbitrary: k rule: nat_digits.induct)
  case (1 n)
  show ?case
  proof (cases "n < 10")
    case True
    with "1.prems" show ?thesis by (subst nat_digits.simps) simp
  next
    case False
    with "1.prems" obtain j where k: "k = Suc j" and j: "0 < j"
      by (cases k) (auto, metis One_nat_def gr0I power_one_right power_0 mult.right_neutral)
    from "1.prems" k have "n div 10 < 10 ^ j"
      by (simp add: less_mult_imp_div_less mult.commute)
    with "1.IH" [OF False this j] False k show ?thesis by (subst nat_digits.simps) simp
  qed
qed

lemma parse_uint_format [simp, go_str]:
  "n \<le> uint64_max \<Longrightarrow> go_parse_uint (go_format_uint n) = Some n"
  by (simp add: go_parse_uint_def go_format_uint_def)

text \<open>The characters of a printed number, and why no separator is among them.\<close>

lemma digit_not:
  "is_digit c \<Longrightarrow> c \<noteq> CHR ''-'' \<and> c \<noteq> CHR ''+''"
  by (auto simp: is_digit_def in_range_def byte_val_def)

lemma nat_digits_hd: "hd (nat_digits n) \<noteq> CHR ''-'' \<and> hd (nat_digits n) \<noteq> CHR ''+''"
  using nat_digits_all [of n] nat_digits_nonempty [of n] digit_not
  by (cases "nat_digits n") auto

lemma go_atoi_itoa_eq [go_str]:
  "go_atoi (go_itoa v) = (if int64_min \<le> v \<and> v \<le> int64_max then Some v else None)"
  using nat_digits_hd [of "nat v"] by (simp add: go_atoi_def go_itoa_def Let_def)

definition num_char :: "char \<Rightarrow> bool" where
  "num_char c \<longleftrightarrow> is_digit c \<or> c = CHR ''-''"

lemma go_itoa_chars [simp, go_str]: "list_all num_char (go_itoa v)"
  using nat_digits_all [of "nat v"] nat_digits_all [of "nat (- v)"]
  by (auto simp: go_itoa_def num_char_def list_all_iff)

lemma go_itoa_nonempty [simp, go_str]: "go_itoa v \<noteq> []"
  by (simp add: go_itoa_def)

lemma num_char_byte: "num_char c \<Longrightarrow> 45 \<le> byte_val c \<and> byte_val c \<le> 57"
  by (auto simp: num_char_def is_digit_def in_range_def byte_val_def)

lemma num_char_not_sep:
  "num_char c \<Longrightarrow> c \<noteq> CHR '','' \<and> c \<noteq> CHR '';'' \<and> c \<noteq> CHR 0x0A \<and> c \<noteq> CHR '' ''"
  by (auto dest!: num_char_byte simp: byte_val_def)

lemma go_itoa_no_sep [simp, go_str]:
  "CHR '','' \<notin> set (go_itoa v)" "CHR '';'' \<notin> set (go_itoa v)"
  "CHR 0x0A \<notin> set (go_itoa v)" "CHR '' '' \<notin> set (go_itoa v)"
  using go_itoa_chars [of v] num_char_not_sep unfolding list_all_iff by blast+

lemma plain_word_itoa [simp, go_str]: "plain_word (go_itoa v)"
  using go_itoa_chars [of v] num_char_byte
  by (force simp: plain_word_def list_all_iff ascii_def is_space_def)

lemma go_itoa_length: "0 \<le> v \<Longrightarrow> v < 10 ^ k \<Longrightarrow> 0 < k \<Longrightarrow> length (go_itoa v) \<le> k"
  using nat_digits_length [of "nat v" k] by (simp add: go_itoa_def nat_less_iff)

lemma go_itoa_minus_one [simp]: "go_itoa (- 1) = ''-1''"
  by (simp add: go_itoa_def nat_digits.simps digit_char_def)

end
