(* ===== verification/Frame_Codec.thy ===== *)
theory Frame_Codec
  imports Go_Strings
begin

text \<open>
  The video-frame codec of \<^verbatim>\<open>src/internal/ascii/delta.go\<close>: cells and render modes, the
  stateful \<open>DeltaEncoder\<close> (\<open>Encode\<close>, \<open>encodeKeyframe\<close>, \<open>encodeDelta\<close>),
  the stateful \<open>DeltaDecoder\<close> (\<open>DecodeCells\<close>, \<open>decodeKeyframe\<close>,
  \<open>decodeDelta\<close>), the validators both share and \<open>StatusFrame\<close>. An operation on a
  pointer receiver takes the receiver and returns it with its result, on error returns too, so
  that what a failed call leaves behind is part of the model. \<^verbatim>\<open>fmt.Errorf\<close> wrapping a
  sentinel error is that sentinel. The products \<^verbatim>\<open>w*h\<close> and \<^verbatim>\<open>row*w+col\<close> are
  evaluated only after the bounds checks, so Go's 64-bit arithmetic does not wrap there.
\<close>

section \<open>Data\<close>

type_synonym RenderMode = int

definition ModeASCII :: RenderMode where
  "ModeASCII = 0"

definition ModeColor256 :: RenderMode where
  "ModeColor256 = 1"

definition ModeHalfBlock :: RenderMode where
  "ModeHalfBlock = 2"

record Cell =
  CharB :: char
  Fg :: int
  Bg :: int

type_synonym grid = "Cell list list"

datatype frame_error =
  ErrFrameTooLarge | ErrMalformedFrame | ErrUnsupportedFrame | ErrMissingKeyframe
  | ErrInvalidFrameValue

definition MaxFrameWidth :: int where
  "MaxFrameWidth = 100"

definition MaxFrameHeight :: int where
  "MaxFrameHeight = 30"

definition MaxFrameCells :: int where
  "MaxFrameCells = MaxFrameWidth * MaxFrameHeight"

definition MaxEncodedFrameBytes :: int where
  "MaxEncodedFrameBytes = 128 * 1024"

abbreviation newline :: char where
  "newline \<equiv> CHR 0x0A"

section \<open>Validation\<close>

definition validMode :: "RenderMode \<Rightarrow> bool" where
  "validMode mode \<longleftrightarrow> mode \<ge> ModeASCII \<and> mode \<le> ModeHalfBlock"

definition validateDimensions :: "int \<Rightarrow> int \<Rightarrow> frame_error option" where
  "validateDimensions w h =
     (let isPositive = (w > 0 \<and> h > 0);
          isWithinBounds = (w \<le> MaxFrameWidth \<and> h \<le> MaxFrameHeight)
      in if \<not> isPositive \<or> \<not> isWithinBounds \<or> w * h > MaxFrameCells
         then Some ErrFrameTooLarge else None)"

definition parseInt :: "string \<Rightarrow> (frame_error, int) res" where
  "parseInt value = (case go_atoi value of None \<Rightarrow> Inl ErrMalformedFrame | Some parsed \<Rightarrow> Inr parsed)"

definition parseCellFields ::
  "string \<Rightarrow> string \<Rightarrow> string \<Rightarrow> RenderMode \<Rightarrow> (frame_error, Cell) res" where
  "parseCellFields fgValue bgValue charValue mode =
     (case parseInt fgValue of Inl e \<Rightarrow> Inl e | Inr fg \<Rightarrow>
      (case parseInt bgValue of Inl e \<Rightarrow> Inl e | Inr bg \<Rightarrow>
      (case parseInt charValue of Inl e \<Rightarrow> Inl e | Inr charInt \<Rightarrow>
        if fg < -1 \<or> fg > 255 \<or> bg < -1 \<or> bg > 255 then Inl ErrInvalidFrameValue
        else if charInt < 0 \<or> charInt > 126 then Inl ErrInvalidFrameValue
        else if charInt \<noteq> 0 \<and> charInt < 32 then Inl ErrInvalidFrameValue
        else if charInt = 0 \<and> mode \<noteq> ModeHalfBlock then Inl ErrInvalidFrameValue
        else Inr \<lparr>CharB = char_of (nat charInt), Fg = fg, Bg = bg\<rparr>)))"

definition parseCell :: "string \<Rightarrow> RenderMode \<Rightarrow> (frame_error, Cell) res" where
  "parseCell encoded mode =
     (let fields = split_on (CHR '','') encoded
      in if length fields \<noteq> 3 then Inl ErrMalformedFrame
         else parseCellFields (fields ! 0) (fields ! 1) (fields ! 2) mode)"

fun validateCells :: "RenderMode \<Rightarrow> Cell list \<Rightarrow> frame_error option" where
  "validateCells mode [] = None"
| "validateCells mode (cell # cells) =
     (case parseCellFields (go_itoa (Fg cell)) (go_itoa (Bg cell))
             (go_itoa (int (byte_val (CharB cell)))) mode of
        Inl e \<Rightarrow> Some e
      | Inr _ \<Rightarrow> validateCells mode cells)"

fun validateRows :: "RenderMode \<Rightarrow> int \<Rightarrow> grid \<Rightarrow> frame_error option" where
  "validateRows mode w [] = None"
| "validateRows mode w (row # rows) =
     (if int (length row) \<noteq> w then Some ErrMalformedFrame
      else case validateCells mode row of Some e \<Rightarrow> Some e | None \<Rightarrow> validateRows mode w rows)"

definition validateGrid :: "grid \<Rightarrow> RenderMode \<Rightarrow> (frame_error, int \<times> int) res" where
  "validateGrid cells mode =
     (if \<not> validMode mode then Inl ErrInvalidFrameValue
      else let h = int (length cells)
      in if h = 0 then Inl ErrInvalidFrameValue
      else let w = int (length (hd cells))
      in case validateDimensions w h of
           Some e \<Rightarrow> Inl e
         | None \<Rightarrow> (case validateRows mode w cells of Some e \<Rightarrow> Inl e | None \<Rightarrow> Inr (w, h)))"

section \<open>Encoder\<close>

record DeltaEncoder =
  e_prev :: "grid option"
  e_w :: int
  e_h :: int
  e_mode :: RenderMode
  e_frameCount :: int
  e_keyframeEvery :: int

definition NewDeltaEncoder :: "RenderMode \<Rightarrow> int \<Rightarrow> DeltaEncoder" where
  "NewDeltaEncoder mode keyframeInterval =
     \<lparr>e_prev = None, e_w = 0, e_h = 0, e_mode = mode, e_frameCount = 0,
      e_keyframeEvery = (if keyframeInterval < 1 then 30 else keyframeInterval)\<rparr>"

definition encoder_Reset :: "DeltaEncoder \<Rightarrow> DeltaEncoder" where
  "encoder_Reset e = e\<lparr>e_prev := None, e_w := 0, e_h := 0, e_frameCount := 0\<rparr>"

definition encodeCell :: "Cell \<Rightarrow> string" where
  "encodeCell cell =
     go_itoa (Fg cell) @ '','' @ go_itoa (Bg cell) @ '','' @ go_itoa (int (byte_val (CharB cell)))"

definition encodeKeyframe :: "DeltaEncoder \<Rightarrow> grid \<Rightarrow> string" where
  "encodeKeyframe e cells =
     (let h = int (length cells); w = int (length (hd cells))
      in ''K '' @ go_itoa w @ '' '' @ go_itoa h @ '' '' @ go_itoa (e_mode e) @ [newline] @
         concat (map (\<lambda>row. join_on (CHR '';'') (map encodeCell row) @ [newline]) cells))"

text \<open>The inner and the outer loop of \<^verbatim>\<open>encodeDelta\<close>: the cells that differ from
  \<^verbatim>\<open>e.prev[y][x]\<close>, with their position, in row-major order.\<close>

fun rowChanges :: "grid \<Rightarrow> nat \<Rightarrow> nat \<Rightarrow> Cell list \<Rightarrow> (nat \<times> nat \<times> Cell) list" where
  "rowChanges prev y x [] = []"
| "rowChanges prev y x (cell # row) =
     (if cell = prev ! y ! x then rowChanges prev y (Suc x) row
      else (y, x, cell) # rowChanges prev y (Suc x) row)"

fun gridChanges :: "grid \<Rightarrow> nat \<Rightarrow> grid \<Rightarrow> (nat \<times> nat \<times> Cell) list" where
  "gridChanges prev y [] = []"
| "gridChanges prev y (row # rows) = rowChanges prev y 0 row @ gridChanges prev (Suc y) rows"

definition encodeChange :: "nat \<times> nat \<times> Cell \<Rightarrow> string" where
  "encodeChange change =
     (case change of (y, x, cell) \<Rightarrow>
        go_itoa (int y) @ '' '' @ go_itoa (int x) @ '' '' @ go_itoa (Fg cell) @ '' '' @
        go_itoa (Bg cell) @ '' '' @ go_itoa (int (byte_val (CharB cell))))"

definition encodeDelta :: "DeltaEncoder \<Rightarrow> grid \<Rightarrow> string" where
  "encodeDelta e cells =
     (let h = int (length cells); w = int (length (hd cells)); total = w * h;
          changes = gridChanges (the (e_prev e)) 0 cells;
          count = int (length changes)
      in if count > total div 2 then []
         else ''D '' @ go_itoa w @ '' '' @ go_itoa h @ '' '' @ go_itoa count @ [newline] @
              concat (map (\<lambda>change. encodeChange change @ [newline]) changes))"

definition Encode :: "DeltaEncoder \<Rightarrow> grid \<Rightarrow> string \<times> DeltaEncoder" where
  "Encode e cells =
     (case validateGrid cells (e_mode e) of
        Inl _ \<Rightarrow> ([], e)
      | Inr (w, h) \<Rightarrow>
          let e1 = e\<lparr>e_frameCount := e_frameCount e + 1\<rparr>;
              requiresKeyframe =
                (e_prev e1 = None \<or> e_w e1 \<noteq> w \<or> e_h e1 \<noteq> h \<or>
                 e_frameCount e1 \<ge> e_keyframeEvery e1)
          in if requiresKeyframe then
               let e2 = e1\<lparr>e_frameCount := 0, e_prev := Some cells, e_w := w, e_h := h\<rparr>
               in (encodeKeyframe e2 cells, e2)
             else let encoded = encodeDelta e1 cells
             in if encoded = [] then
                  let e2 = e1\<lparr>e_frameCount := 0, e_prev := Some cells\<rparr>
                  in (encodeKeyframe e2 cells, e2)
                else (encoded, e1\<lparr>e_prev := Some cells\<rparr>))"

section \<open>Decoder\<close>

record DeltaDecoder =
  d_grid :: grid
  d_w :: int
  d_h :: int
  d_mode :: RenderMode
  d_has :: bool

definition NewDeltaDecoder :: DeltaDecoder where
  "NewDeltaDecoder = \<lparr>d_grid = [], d_w = 0, d_h = 0, d_mode = 0, d_has = False\<rparr>"

definition splitFrame :: "string \<Rightarrow> (frame_error, string \<times> string) res" where
  "splitFrame data =
     (case index_byte newline data of
        None \<Rightarrow> Inl ErrMalformedFrame
      | Some n \<Rightarrow> Inr (take n data, drop (n + 1) data))"

definition payloadLines :: "string \<Rightarrow> string list" where
  "payloadLines body = split_on newline (trim_suffix_byte newline body)"

fun decodeRow :: "RenderMode \<Rightarrow> string list \<Rightarrow> (frame_error, Cell list) res" where
  "decodeRow mode [] = Inr []"
| "decodeRow mode (encodedCell # rest) =
     (case parseCell encodedCell mode of
        Inl e \<Rightarrow> Inl e
      | Inr cell \<Rightarrow> (case decodeRow mode rest of Inl e \<Rightarrow> Inl e | Inr row \<Rightarrow> Inr (cell # row)))"

fun decodeRows :: "RenderMode \<Rightarrow> int \<Rightarrow> string list \<Rightarrow> (frame_error, grid) res" where
  "decodeRows mode w [] = Inr []"
| "decodeRows mode w (line # lines) =
     (let encodedCells = split_on (CHR '';'') line
      in if int (length encodedCells) \<noteq> w then Inl ErrMalformedFrame
         else case decodeRow mode encodedCells of
           Inl e \<Rightarrow> Inl e
         | Inr row \<Rightarrow>
             (case decodeRows mode w lines of Inl e \<Rightarrow> Inl e | Inr grid \<Rightarrow> Inr (row # grid)))"

definition decodeKeyframe :: "DeltaDecoder \<Rightarrow> string \<Rightarrow> frame_error option \<times> DeltaDecoder" where
  "decodeKeyframe d data =
     (case splitFrame data of Inl e \<Rightarrow> (Some e, d) | Inr (header, body) \<Rightarrow>
      let fields = go_fields header
      in if length fields \<noteq> 4 \<or> fields ! 0 \<noteq> ''K'' then (Some ErrMalformedFrame, d)
      else (case parseInt (fields ! 1) of Inl e \<Rightarrow> (Some e, d) | Inr w \<Rightarrow>
           (case parseInt (fields ! 2) of Inl e \<Rightarrow> (Some e, d) | Inr h \<Rightarrow>
           (case parseInt (fields ! 3) of Inl e \<Rightarrow> (Some e, d) | Inr mode \<Rightarrow>
           (case validateDimensions w h of Some e \<Rightarrow> (Some e, d) | None \<Rightarrow>
             if \<not> validMode mode then (Some ErrInvalidFrameValue, d)
             else let lines = payloadLines body
             in if int (length lines) \<noteq> h then (Some ErrMalformedFrame, d)
             else (case decodeRows mode w lines of Inl e \<Rightarrow> (Some e, d) | Inr grid \<Rightarrow>
               (None, d\<lparr>d_grid := grid, d_w := w, d_h := h, d_mode := mode, d_has := True\<rparr>)))))))"

text \<open>The loop over the change lines of \<^verbatim>\<open>decodeDelta\<close>: \<open>seen\<close> holds the
  linear indices already written and \<open>grid\<close> is the copy being changed.\<close>

fun applyChanges ::
  "int \<Rightarrow> int \<Rightarrow> RenderMode \<Rightarrow> string list \<Rightarrow> int set \<Rightarrow> grid \<Rightarrow> (frame_error, grid) res" where
  "applyChanges w h mode [] seen grid = Inr grid"
| "applyChanges w h mode (line # lines) seen grid =
     (let change = go_fields line
      in if length change \<noteq> 5 then Inl ErrMalformedFrame
      else (case parseInt (change ! 0) of Inl e \<Rightarrow> Inl e | Inr row \<Rightarrow>
           (case parseInt (change ! 1) of Inl e \<Rightarrow> Inl e | Inr col \<Rightarrow>
             if row < 0 \<or> row \<ge> h \<or> col < 0 \<or> col \<ge> w then Inl ErrInvalidFrameValue
             else let index = row * w + col
             in if index \<in> seen then Inl ErrMalformedFrame
             else (case parseCellFields (change ! 2) (change ! 3) (change ! 4) mode of
                 Inl e \<Rightarrow> Inl e
               | Inr cell \<Rightarrow>
                   applyChanges w h mode lines (insert index seen)
                     (grid[nat row := (grid ! nat row)[nat col := cell]])))))"

definition decodeDelta :: "DeltaDecoder \<Rightarrow> string \<Rightarrow> frame_error option \<times> DeltaDecoder" where
  "decodeDelta d data =
     (case splitFrame data of Inl e \<Rightarrow> (Some e, d) | Inr (header, body) \<Rightarrow>
      let fields = go_fields header
      in if length fields \<noteq> 4 \<or> fields ! 0 \<noteq> ''D'' then (Some ErrMalformedFrame, d)
      else (case parseInt (fields ! 1) of Inl e \<Rightarrow> (Some e, d) | Inr w \<Rightarrow>
           (case parseInt (fields ! 2) of Inl e \<Rightarrow> (Some e, d) | Inr h \<Rightarrow>
           (case parseInt (fields ! 3) of Inl e \<Rightarrow> (Some e, d) | Inr count \<Rightarrow>
           (case validateDimensions w h of Some e \<Rightarrow> (Some e, d) | None \<Rightarrow>
             if count < 0 \<or> count > w * h then (Some ErrInvalidFrameValue, d)
             else if \<not> d_has d \<or> d_w d \<noteq> w \<or> d_h d \<noteq> h \<or> d_grid d = []
             then (Some ErrMissingKeyframe, d)
             else let split = payloadLines body;
                      lines = (if count = 0 \<and> length split = 1 \<and> split ! 0 = [] then [] else split)
             in if int (length lines) \<noteq> count then (Some ErrMalformedFrame, d)
             else (case applyChanges w h (d_mode d) lines {} (d_grid d) of
                 Inl e \<Rightarrow> (Some e, d)
               | Inr grid \<Rightarrow> (None, d\<lparr>d_grid := grid\<rparr>)))))))"

definition DecodeCells ::
  "DeltaDecoder \<Rightarrow> string \<Rightarrow> (frame_error, grid \<times> RenderMode) res \<times> DeltaDecoder" where
  "DecodeCells d data =
     (if data = [] then (Inl ErrMalformedFrame, d)
      else if int (length data) > MaxEncodedFrameBytes then (Inl ErrFrameTooLarge, d)
      else let (err, d') =
             (if hd data = CHR ''K'' then decodeKeyframe d data
              else if hd data = CHR ''D'' then decodeDelta d data
              else (Some ErrUnsupportedFrame, d))
      in case err of
           Some e \<Rightarrow> (Inl e, d')
         | None \<Rightarrow> (Inr (d_grid d', d_mode d'), d'))"

section \<open>Status frames\<close>

fun printableBytes :: "string \<Rightarrow> string \<Rightarrow> string" where
  "printableBytes [] printable = printable"
| "printableBytes (c # message) printable =
     (if length printable < 40 then
        printableBytes message
          (if 32 \<le> byte_val c \<and> byte_val c \<le> 126 then printable @ [c] else printable)
      else printable)"

definition blankCell :: Cell where
  "blankCell = \<lparr>CharB = CHR '' '', Fg = -1, Bg = -1\<rparr>"

definition StatusFrame :: "string \<Rightarrow> string" where
  "StatusFrame message =
     (let collected = printableBytes message [];
          printable = (if collected = [] then ''Unavailable'' else collected);
          width = (if length printable + 4 < 16 then 16 else length printable + 4);
          start = (width - length printable) div 2;
          blankRow = replicate width blankCell;
          textRow = foldl (\<lambda>row (index, char).
              row[start + index := (row ! (start + index))\<lparr>CharB := char\<rparr>])
            blankRow (enumerate 0 printable);
          grid = [blankRow, textRow, blankRow]
      in fst (Encode (NewDeltaEncoder ModeASCII 1) grid))"

section \<open>Well-formed cells, grids and decoders\<close>

definition valid_cell :: "RenderMode \<Rightarrow> Cell \<Rightarrow> bool" where
  "valid_cell mode c \<longleftrightarrow>
     -1 \<le> Fg c \<and> Fg c \<le> 255 \<and> -1 \<le> Bg c \<and> Bg c \<le> 255 \<and>
     byte_val (CharB c) \<le> 126 \<and> (byte_val (CharB c) = 0 \<or> 32 \<le> byte_val (CharB c)) \<and>
     (byte_val (CharB c) = 0 \<longrightarrow> mode = ModeHalfBlock)"

definition wf_grid :: "RenderMode \<Rightarrow> int \<Rightarrow> int \<Rightarrow> grid \<Rightarrow> bool" where
  "wf_grid mode w h g \<longleftrightarrow>
     validMode mode \<and> 0 < w \<and> w \<le> 100 \<and> 0 < h \<and> h \<le> 30 \<and> int (length g) = h \<and>
     list_all (\<lambda>row. int (length row) = w \<and> list_all (valid_cell mode) row) g"

definition wf_decoder :: "DeltaDecoder \<Rightarrow> bool" where
  "wf_decoder d \<longleftrightarrow> (d_has d \<longrightarrow> wf_grid (d_mode d) (d_w d) (d_h d) (d_grid d))"

lemmas frame_limits = MaxFrameWidth_def MaxFrameHeight_def MaxFrameCells_def MaxEncodedFrameBytes_def

lemmas mode_defs = ModeASCII_def ModeColor256_def ModeHalfBlock_def validMode_def

lemma byte_val_char_of [simp]: "n \<le> 126 \<Longrightarrow> byte_val (char_of n) = n"
  by (simp add: byte_val_def)

lemma byte_val_less [simp]: "byte_val c < 256"
  by (simp add: byte_val_def)

lemma char_of_byte_val [simp]: "char_of (byte_val c) = c"
  by (simp add: byte_val_def)

lemma byte_val_int64 [simp]: "int64_min \<le> int (byte_val c)" "int (byte_val c) \<le> int64_max"
  using byte_val_less [of c] unfolding int64_min_def int64_max_def by linarith+

lemma validateDimensions_None:
  "validateDimensions w h = None \<longleftrightarrow> 0 < w \<and> w \<le> 100 \<and> 0 < h \<and> h \<le> 30"
proof -
  have "w * h \<le> 3000" if "0 < w" "w \<le> 100" "0 < h" "h \<le> 30"
    using mult_mono [of w 100 h 30] that by simp
  then show ?thesis
    by (auto simp: validateDimensions_def frame_limits Let_def not_less)
qed

lemma parseCellFields_valid:
  "parseCellFields a b c mode = Inr cell \<Longrightarrow> valid_cell mode cell"
  by (auto simp: parseCellFields_def valid_cell_def parseInt_def
      split: sum.splits option.splits if_splits)

lemma parseInt_itoa:
  "parseInt (go_itoa v) =
     (if int64_min \<le> v \<and> v \<le> int64_max then Inr v else Inl ErrMalformedFrame)"
  by (simp add: parseInt_def go_atoi_itoa_eq)

lemma parseInt_byte [simp]: "parseInt (go_itoa (int (byte_val c))) = Inr (int (byte_val c))"
  by (simp add: parseInt_itoa)

lemma valid_cell_parse:
  assumes "valid_cell mode cell"
  shows "parseCellFields (go_itoa (Fg cell)) (go_itoa (Bg cell))
           (go_itoa (int (byte_val (CharB cell)))) mode = Inr cell"
proof -
  have "int64_min \<le> -1" "255 \<le> int64_max"
    by (simp_all add: int64_min_def int64_max_def)
  with assms have "parseInt (go_itoa (Fg cell)) = Inr (Fg cell)"
    and "parseInt (go_itoa (Bg cell)) = Inr (Bg cell)"
    by (auto simp: valid_cell_def parseInt_itoa)
  moreover have "byte_val (CharB cell) = 0 \<Longrightarrow> char_of (0::nat) = CharB cell"
    by (metis char_of_byte_val)
  ultimately show ?thesis
    using assms by (auto simp: valid_cell_def parseCellFields_def)
qed

lemma parse_valid_cell:
  assumes ok: "parseCellFields (go_itoa (Fg cell)) (go_itoa (Bg cell))
       (go_itoa (int (byte_val (CharB cell)))) mode = Inr cell'"
  shows "valid_cell mode cell"
proof -
  from ok have "cell' = cell"
    by (auto simp: parseCellFields_def parseInt_itoa split: if_splits)
  with parseCellFields_valid [OF ok] show ?thesis by simp
qed

lemma validateCells_None: "validateCells mode cells = None \<longleftrightarrow> list_all (valid_cell mode) cells"
  by (induction cells)
     (auto simp: valid_cell_parse dest: parse_valid_cell split: sum.splits)

lemma validateRows_None:
  "validateRows mode w g = None \<longleftrightarrow>
     list_all (\<lambda>row. int (length row) = w \<and> list_all (valid_cell mode) row) g"
  by (induction g) (auto simp flip: validateCells_None split: option.split)

lemma validateGrid_wf: "validateGrid g mode = Inr (w, h) \<longleftrightarrow> wf_grid mode w h g"
proof
  assume "validateGrid g mode = Inr (w, h)"
  then show "wf_grid mode w h g"
    by (auto simp: validateGrid_def wf_grid_def Let_def validateDimensions_None validateRows_None
        split: if_splits option.splits)
next
  assume wf: "wf_grid mode w h g"
  then have "int (length (hd g)) = w"
    by (cases g) (auto simp: wf_grid_def)
  with wf show "validateGrid g mode = Inr (w, h)"
    by (auto simp: validateGrid_def wf_grid_def Let_def validateDimensions_None validateRows_None
        split: option.split)
qed

section \<open>The decoder: what it accepts, and what a failed call leaves behind\<close>

lemma parseCell_valid: "parseCell s mode = Inr cell \<Longrightarrow> valid_cell mode cell"
  by (auto simp: parseCell_def Let_def dest: parseCellFields_valid split: if_splits)

lemma decodeRow_wf:
  "decodeRow mode ls = Inr row \<Longrightarrow> length row = length ls \<and> list_all (valid_cell mode) row"
  by (induction ls arbitrary: row) (auto dest: parseCell_valid split: sum.splits)

lemma decodeRows_wf:
  "decodeRows mode w ls = Inr g \<Longrightarrow> length g = length ls \<and>
     list_all (\<lambda>row. int (length row) = w \<and> list_all (valid_cell mode) row) g"
  by (induction ls arbitrary: g)
     (auto simp: Let_def dest!: decodeRow_wf split: sum.splits if_splits)

lemma wf_grid_update [grid_intros]:
  assumes wf: "wf_grid mode w h g" and cell: "valid_cell mode cell"
    and r: "0 \<le> r" "r < h"
  shows "wf_grid mode w h (g[nat r := (g ! nat r)[nat c := cell]])"
proof -
  from wf r have "nat r < length g"
    by (auto simp: wf_grid_def)
  with wf have "int (length (g ! nat r)) = w" "list_all (valid_cell mode) (g ! nat r)"
    using list_all_nth by (fastforce simp: wf_grid_def)+
  with wf cell show ?thesis
    unfolding wf_grid_def by (auto intro!: list_all_update)
qed

lemma applyChanges_Cons:
  "applyChanges w h mode (l # ls) seen g = Inr g' \<longleftrightarrow>
     (\<exists>row col cell. length (go_fields l) = 5 \<and>
        parseInt (go_fields l ! 0) = Inr row \<and> parseInt (go_fields l ! 1) = Inr col \<and>
        0 \<le> row \<and> row < h \<and> 0 \<le> col \<and> col < w \<and> row * w + col \<notin> seen \<and>
        parseCellFields (go_fields l ! 2) (go_fields l ! 3) (go_fields l ! 4) mode = Inr cell \<and>
        applyChanges w h mode ls (insert (row * w + col) seen)
          (g[nat row := (g ! nat row)[nat col := cell]]) = Inr g')"
  by (auto simp: Let_def split: sum.splits)

lemma applyChanges_wf:
  "wf_grid mode w h g \<Longrightarrow> applyChanges w h mode ls seen g = Inr g' \<Longrightarrow> wf_grid mode w h g'"
proof (induction ls arbitrary: seen g)
  case Nil
  then show ?case by simp
next
  case (Cons l ls)
  then show ?case
    unfolding applyChanges_Cons by (blast intro: wf_grid_update dest: parseCellFields_valid)
qed

lemma decodeKeyframe_wf:
  "decodeKeyframe d s = (None, d') \<Longrightarrow> wf_decoder d' \<and> d_has d'"
  by (auto simp: decodeKeyframe_def wf_decoder_def wf_grid_def Let_def validateDimensions_None
      dest!: decodeRows_wf split: sum.splits option.splits if_splits prod.splits)

lemma decodeDelta_wf:
  "wf_decoder d \<Longrightarrow> decodeDelta d s = (None, d') \<Longrightarrow> wf_decoder d' \<and> d_has d'"
  by (auto simp: decodeDelta_def wf_decoder_def Let_def intro: applyChanges_wf
      split: sum.splits option.splits if_splits prod.splits)

lemma decodeKeyframe_error: "decodeKeyframe d s = (Some e, d') \<Longrightarrow> d' = d"
  by (auto simp: decodeKeyframe_def Let_def split: sum.splits option.splits if_splits prod.splits)

lemma decodeDelta_error: "decodeDelta d s = (Some e, d') \<Longrightarrow> d' = d"
  by (auto simp: decodeDelta_def Let_def split: sum.splits option.splits if_splits prod.splits)

lemmas decode_cases = decodeKeyframe_error decodeDelta_error

lemma DecodeCells_error: "DecodeCells d s = (Inl e, d') \<Longrightarrow> d' = d"
  by (auto simp: DecodeCells_def dest: decode_cases
      split: sum.splits option.splits if_splits prod.splits)

lemma DecodeCells_success:
  assumes wf: "wf_decoder d" and dec: "DecodeCells d s = (Inr (g, mode), d')"
  shows "d_has d' \<and> d_grid d' = g \<and> d_mode d' = mode \<and> wf_grid mode (d_w d') (d_h d') g"
proof -
  from dec have g: "d_grid d' = g" "d_mode d' = mode"
    and "decodeKeyframe d s = (None, d') \<or> decodeDelta d s = (None, d')"
    by (auto simp: DecodeCells_def split: option.splits if_splits prod.splits)
  with wf have "wf_decoder d' \<and> d_has d'"
    using decodeKeyframe_wf decodeDelta_wf by blast
  with g show ?thesis by (simp add: wf_decoder_def)
qed

lemma DecodeCells_wf: "wf_decoder d \<Longrightarrow> wf_decoder (snd (DecodeCells d s))"
proof (cases "DecodeCells d s")
  case (Pair r d')
  assume wf: "wf_decoder d"
  show ?thesis
  proof (cases r)
    case (Inl e)
    with Pair wf DecodeCells_error show ?thesis by auto
  next
    case (Inr gm)
    with Pair wf show ?thesis
      using DecodeCells_success [of d s "fst gm" "snd gm" d'] by (simp add: wf_decoder_def)
  qed
qed

text \<open>A receiver that is fed an arbitrary sequence of payloads.\<close>

definition decodeAll :: "DeltaDecoder \<Rightarrow> string list \<Rightarrow> DeltaDecoder" where
  "decodeAll d frames = foldl (\<lambda>d s. snd (DecodeCells d s)) d frames"

lemma wf_NewDeltaDecoder [simp]: "wf_decoder NewDeltaDecoder"
  by (simp add: wf_decoder_def NewDeltaDecoder_def)

lemma decodeAll_wf: "wf_decoder d \<Longrightarrow> wf_decoder (decodeAll d frames)"
  by (induction frames arbitrary: d) (simp_all add: decodeAll_def DecodeCells_wf)

end
