(* ===== verification/Frame_Stream.thy ===== *)
theory Frame_Stream
  imports Frame_Codec
begin

text \<open>
  The sender's \<open>DeltaEncoder\<close> against the receiver's \<open>DeltaDecoder\<close>: the keyframe
  and the delta round trip, the simulation \<open>synced\<close> between the two states that
  \<open>Encode\<close> followed by \<open>DecodeCells\<close> keeps, the size of what \<open>Encode\<close>
  emits and how often it emits a keyframe.
\<close>

text \<open>A sender and a receiver joined by a channel that loses nothing: the receiver's result for
  every frame the sender emits (an empty string is not sent).\<close>

fun transmit ::
  "DeltaEncoder \<Rightarrow> DeltaDecoder \<Rightarrow> grid list \<Rightarrow> (frame_error, grid \<times> RenderMode) res list" where
  "transmit e d [] = []"
| "transmit e d (g # gs) =
     (case Encode e g of (s, e') \<Rightarrow>
        if s = [] then transmit e' d gs
        else (case DecodeCells d s of (r, d') \<Rightarrow> r # transmit e' d' gs))"

text \<open>The frames an encoder emits for a sequence of grids.\<close>

fun emitted :: "DeltaEncoder \<Rightarrow> grid list \<Rightarrow> string list" where
  "emitted e [] = []"
| "emitted e (g # gs) = (case Encode e g of (s, e') \<Rightarrow> s # emitted e' gs)"

text \<open>The receiver holds exactly what the sender will compute its next delta against.\<close>

definition synced :: "DeltaEncoder \<Rightarrow> DeltaDecoder \<Rightarrow> bool" where
  "synced e d \<longleftrightarrow>
     (case e_prev e of
        None \<Rightarrow> True
      | Some prev \<Rightarrow>
          wf_grid (e_mode e) (e_w e) (e_h e) prev \<and>
          d = \<lparr>d_grid = prev, d_w = e_w e, d_h = e_h e, d_mode = e_mode e, d_has = True\<rparr>)"

section \<open>Lines and headers\<close>

lemma concat_lines: "ls \<noteq> [] \<Longrightarrow> concat (map (\<lambda>l. l @ [c]) ls) = join_on c ls @ [c]"
  by (induction c ls rule: join_on.induct) simp_all

lemma set_join_on: "set (join_on c ws) \<subseteq> insert c (\<Union>w \<in> set ws. set w)"
  by (induction c ws rule: join_on.induct) auto

lemma payloadLines_concat:
  assumes "ls \<noteq> []" and "\<forall>l \<in> set ls. newline \<notin> set l"
  shows "payloadLines (concat (map (\<lambda>l. l @ [newline]) ls)) = ls"
  using assms by (simp add: payloadLines_def concat_lines split_on_join)

lemma splitFrame_line: "newline \<notin> set hdr \<Longrightarrow> splitFrame (hdr @ newline # body) = Inr (hdr, body)"
  by (simp add: splitFrame_def index_byte_append)

lemma plain_word_tag [simp]: "plain_word ''K''" "plain_word ''D''"
  by (simp_all add: plain_word_def byte_val_def is_space_def)

lemma header_fields:
  assumes "plain_word t"
  shows "go_fields (t @ '' '' @ go_itoa a @ '' '' @ go_itoa b @ '' '' @ go_itoa c) =
           [t, go_itoa a, go_itoa b, go_itoa c]"
  using go_fields_join [of "[t, go_itoa a, go_itoa b, go_itoa c]"] assms by simp

lemma change_fields:
  "go_fields (encodeChange (y, x, cell)) =
     [go_itoa (int y), go_itoa (int x), go_itoa (Fg cell), go_itoa (Bg cell),
      go_itoa (int (byte_val (CharB cell)))]"
  using go_fields_join [of "[go_itoa (int y), go_itoa (int x), go_itoa (Fg cell), go_itoa (Bg cell),
      go_itoa (int (byte_val (CharB cell)))]"]
  by (simp add: encodeChange_def)

lemma encodeCell_chars [simp]: "CHR '';'' \<notin> set (encodeCell c)" "newline \<notin> set (encodeCell c)"
  by (simp_all add: encodeCell_def)

lemma encodeChange_chars [simp]: "newline \<notin> set (encodeChange ch)"
  by (cases ch) (simp add: encodeChange_def)

lemma encodeRow_chars [simp]: "newline \<notin> set (join_on (CHR '';'') (map encodeCell row))"
  using set_join_on [of "CHR '';''" "map encodeCell row"] by auto

lemma small_int [simp]: "0 \<le> v \<Longrightarrow> v \<le> 100000 \<Longrightarrow> parseInt (go_itoa v) = Inr v"
  by (simp add: parseInt_itoa int64_min_def int64_max_def)

section \<open>Keyframes\<close>

lemma parseCell_encodeCell [simp]: "valid_cell mode c \<Longrightarrow> parseCell (encodeCell c) mode = Inr c"
  using split_on_join [of "[go_itoa (Fg c), go_itoa (Bg c), go_itoa (int (byte_val (CharB c)))]"
      "CHR '',''"]
  by (simp add: parseCell_def encodeCell_def valid_cell_parse)

lemma decodeRow_encode:
  "list_all (valid_cell mode) row \<Longrightarrow> decodeRow mode (map encodeCell row) = Inr row"
  by (induction row) simp_all

lemma decodeRows_encode:
  "0 < w \<Longrightarrow> list_all (\<lambda>row. int (length row) = w \<and> list_all (valid_cell mode) row) g \<Longrightarrow>
   decodeRows mode w (map (\<lambda>row. join_on (CHR '';'') (map encodeCell row)) g) = Inr g"
proof (induction g)
  case Nil
  then show ?case by simp
next
  case (Cons row g)
  then have "row \<noteq> []" by auto
  then have "split_on (CHR '';'') (join_on (CHR '';'') (map encodeCell row)) = map encodeCell row"
    by (intro split_on_join) auto
  with Cons show ?case by (simp add: decodeRow_encode)
qed

lemma wf_grid_hd: "wf_grid mode w h g \<Longrightarrow> g \<noteq> [] \<and> int (length (hd g)) = w"
  by (cases g) (auto simp: wf_grid_def)

lemma encodeKeyframe_lines:
  assumes "wf_grid mode w h g" and "e_mode e = mode"
  shows "encodeKeyframe e g =
    (''K'' @ '' '' @ go_itoa w @ '' '' @ go_itoa h @ '' '' @ go_itoa mode) @ newline #
    concat (map (\<lambda>l. l @ [newline]) (map (\<lambda>row. join_on (CHR '';'') (map encodeCell row)) g))"
  using assms wf_grid_hd [OF assms(1)]
  by (auto simp: encodeKeyframe_def Let_def wf_grid_def comp_def)

lemma decodeKeyframe_encode:
  assumes wf: "wf_grid mode w h g" and e: "e_mode e = mode"
  shows "decodeKeyframe d (encodeKeyframe e g) =
    (None, d\<lparr>d_grid := g, d_w := w, d_h := h, d_mode := mode, d_has := True\<rparr>)"
proof -
  let ?rows = "map (\<lambda>row. join_on (CHR '';'') (map encodeCell row)) g"
  let ?hdr = "''K'' @ '' '' @ go_itoa w @ '' '' @ go_itoa h @ '' '' @ go_itoa mode"
  let ?body = "concat (map (\<lambda>l. l @ [newline]) ?rows)"
  from wf have dims: "0 < w" "w \<le> 100" "0 < h" "h \<le> 30" "int (length g) = h" "g \<noteq> []"
    and mode: "0 \<le> mode" "mode \<le> 2" "validMode mode"
    by (auto simp: wf_grid_def mode_defs)
  have "splitFrame (encodeKeyframe e g) = Inr (?hdr, ?body)"
    unfolding encodeKeyframe_lines [OF wf e] by (rule splitFrame_line) simp
  moreover have "go_fields ?hdr = [''K'', go_itoa w, go_itoa h, go_itoa mode]"
    by (rule header_fields) simp
  moreover have "payloadLines ?body = ?rows"
    using dims by (intro payloadLines_concat) auto
  moreover have "decodeRows mode w ?rows = Inr g"
    using wf by (intro decodeRows_encode) (auto simp: wf_grid_def)
  ultimately show ?thesis
    using dims mode
    by (simp add: decodeKeyframe_def validateDimensions_None [THEN iffD2] del: append.simps)
qed

section \<open>Deltas\<close>

abbreviation pos :: "nat \<times> nat \<times> Cell \<Rightarrow> nat \<times> nat" where
  "pos ch \<equiv> (fst ch, fst (snd ch))"

definition setCell :: "grid \<Rightarrow> nat \<times> nat \<times> Cell \<Rightarrow> grid" where
  "setCell g ch = g[fst ch := (g ! fst ch)[fst (snd ch) := snd (snd ch)]]"

lemma rowChanges_set:
  "set (rowChanges prev y x row) =
     {(y, x + i, row ! i) | i. i < length row \<and> row ! i \<noteq> prev ! y ! (x + i)}"
proof (induction row arbitrary: x)
  case Nil
  then show ?case by simp
next
  case (Cons c row)
  have "{(y, x + i, (c # row) ! i) | i. i < length (c # row) \<and> (c # row) ! i \<noteq> prev ! y ! (x + i)} =
    (if c = prev ! y ! x then {} else {(y, x, c)}) \<union>
    {(y, Suc x + i, row ! i) | i. i < length row \<and> row ! i \<noteq> prev ! y ! (Suc x + i)}"
    by (auto simp: less_Suc_eq_0_disj)
  with Cons show ?case by auto
qed

lemma rowChanges_distinct:
  "distinct (map pos (rowChanges prev y x row))"
  by (induction row arbitrary: x) (auto simp: rowChanges_set)

lemma gridChanges_set:
  "set (gridChanges prev y g) =
     {(y + j, i, g ! j ! i) | j i. j < length g \<and> i < length (g ! j) \<and> g ! j ! i \<noteq> prev ! (y + j) ! i}"
proof (induction g arbitrary: y)
  case Nil
  then show ?case by simp
next
  case (Cons row g)
  have "{(y + j, i, (row # g) ! j ! i) | j i. j < length (row # g) \<and> i < length ((row # g) ! j) \<and>
           (row # g) ! j ! i \<noteq> prev ! (y + j) ! i} =
    {(y, i, row ! i) | i. i < length row \<and> row ! i \<noteq> prev ! y ! i} \<union>
    {(Suc y + j, i, g ! j ! i) | j i. j < length g \<and> i < length (g ! j) \<and> g ! j ! i \<noteq> prev ! (Suc y + j) ! i}"
    by (auto simp: less_Suc_eq_0_disj)
  with Cons show ?case by (simp add: rowChanges_set)
qed

lemma gridChanges_distinct: "distinct (map pos (gridChanges prev y g))"
  by (induction g arbitrary: y)
     (auto simp: rowChanges_distinct rowChanges_set gridChanges_set)

text \<open>Writing cells at distinct positions: what each position holds afterwards.\<close>

lemma length_setCell [simp]: "length (setCell g ch) = length g"
  by (simp add: setCell_def)

lemma length_row_setCell [simp]: "length (setCell g ch ! y) = length (g ! y)"
  by (cases "fst ch < length g") (auto simp: setCell_def nth_list_update list_update_beyond)

lemma fold_setCell_shape [simp]:
  "length (foldl setCell g chs) = length g" "length (foldl setCell g chs ! y) = length (g ! y)"
  by (induction chs arbitrary: g) simp_all

lemma nth_setCell_other: "pos ch \<noteq> (y, x) \<Longrightarrow> setCell g ch ! y ! x = g ! y ! x"
  by (cases "fst ch < length g") (auto simp: setCell_def nth_list_update list_update_beyond)

lemma nth_setCell_same:
  "y < length g \<Longrightarrow> x < length (g ! y) \<Longrightarrow> setCell g (y, x, c) ! y ! x = c"
  by (simp add: setCell_def)

lemma fold_setCell_other:
  "(y, x) \<notin> pos ` set chs \<Longrightarrow> foldl setCell g chs ! y ! x = g ! y ! x"
  by (induction chs arbitrary: g) (auto simp: nth_setCell_other)

lemma fold_setCell_same:
  "distinct (map pos chs) \<Longrightarrow> (y, x, c) \<in> set chs \<Longrightarrow> y < length g \<Longrightarrow> x < length (g ! y) \<Longrightarrow>
   foldl setCell g chs ! y ! x = c"
proof (induction chs arbitrary: g)
  case Nil
  then show ?case by simp
next
  case (Cons ch chs)
  show ?case
  proof (cases "ch = (y, x, c)")
    case True
    with Cons.prems have "(y, x) \<notin> pos ` set chs" by auto
    with True Cons.prems show ?thesis by (simp add: fold_setCell_other nth_setCell_same)
  next
    case False
    with Cons show ?thesis by simp
  qed
qed

lemma fold_gridChanges:
  assumes h: "length prev = length g"
    and w: "\<And>y. y < length g \<Longrightarrow> length (prev ! y) = length (g ! y)"
  shows "foldl setCell prev (gridChanges prev 0 g) = g"
proof (intro nth_equalityI)
  let ?chs = "gridChanges prev 0 g"
  show "length (foldl setCell prev ?chs) = length g" using h by simp
  fix y assume "y < length (foldl setCell prev ?chs)"
  then have y: "y < length g" using h by simp
  show "length (foldl setCell prev ?chs ! y) = length (g ! y)" using w [OF y] by simp
  fix x assume "x < length (foldl setCell prev ?chs ! y)"
  then have x: "x < length (g ! y)" using w [OF y] by simp
  show "foldl setCell prev ?chs ! y ! x = g ! y ! x"
  proof (cases "g ! y ! x = prev ! y ! x")
    case True
    then have "(y, x) \<notin> pos ` set ?chs" by (auto simp: gridChanges_set)
    with True show ?thesis by (simp add: fold_setCell_other)
  next
    case False
    with x y have "(y, x, g ! y ! x) \<in> set ?chs" by (auto simp: gridChanges_set)
    with x y h w show ?thesis
      by (intro fold_setCell_same) (auto simp: gridChanges_distinct)
  qed
qed

lemma index_inj:
  assumes "int x < w" "int x' < w" "int y * w + int x = int y' * w + int x'"
  shows "y = y' \<and> x = x'"
proof -
  from assms(1) have "w \<noteq> 0" by linarith
  with assms(1,2) have "(int y * w + int x) div w = int y" "(int y' * w + int x') div w = int y'"
    by (simp_all add: div_pos_pos_trivial)
  with assms(3) show ?thesis by simp
qed

lemma applyChanges_encode:
  assumes "w \<le> 100" "h \<le> 30"
    and "\<forall>(y, x, c) \<in> set chs. int y < h \<and> int x < w \<and> valid_cell mode c \<and> int y * w + int x \<notin> seen"
    and "distinct (map pos chs)"
  shows "applyChanges w h mode (map encodeChange chs) seen g = Inr (foldl setCell g chs)"
  using assms
proof (induction chs arbitrary: seen g)
  case Nil
  then show ?case by simp
next
  case (Cons ch chs)
  obtain y x c where ch: "ch = (y, x, c)" by (cases ch)
  let ?i = "int y * w + int x"
  from Cons.prems ch have in_grid: "int y < h" "int x < w" "valid_cell mode c" "?i \<notin> seen"
    by auto
  have fresh: "int y' * w + int x' \<noteq> ?i" if "(y', x', c') \<in> set chs" for y' x' c'
  proof
    assume "int y' * w + int x' = ?i"
    moreover from Cons.prems(3) that have "int x' < w" by auto
    ultimately have "y' = y \<and> x' = x" using index_inj in_grid(2) by blast
    with Cons.prems(4) ch that show False by force
  qed
  then have "\<forall>(y', x', c') \<in> set chs. int y' < h \<and> int x' < w \<and> valid_cell mode c' \<and>
          int y' * w + int x' \<notin> insert ?i seen"
    using Cons.prems(3) by auto
  then have "applyChanges w h mode (map encodeChange chs) (insert ?i seen) (setCell g ch) =
      Inr (foldl setCell (setCell g ch) chs)"
    using Cons.prems by (intro Cons.IH) auto
  with in_grid Cons.prems(1,2) show ?case
    by (simp del: applyChanges.simps
        add: applyChanges_Cons ch change_fields valid_cell_parse setCell_def [of g])
qed

lemma encodeDelta_lines:
  assumes "wf_grid mode w h g" and "e_prev e = Some prev" and "encodeDelta e g \<noteq> []"
  defines "chs \<equiv> gridChanges prev 0 g"
  shows "int (length chs) \<le> w * h div 2"
    and "encodeDelta e g =
      (''D'' @ '' '' @ go_itoa w @ '' '' @ go_itoa h @ '' '' @ go_itoa (int (length chs))) @ newline #
      concat (map (\<lambda>l. l @ [newline]) (map encodeChange chs))"
  using assms wf_grid_hd [OF assms(1)]
  by (auto simp: encodeDelta_def Let_def wf_grid_def comp_def split: if_splits)

lemma wf_grid_cell:
  assumes "wf_grid mode w h g" "j < length g" "i < length (g ! j)"
  shows "int j < h \<and> int i < w \<and> valid_cell mode (g ! j ! i)"
  using assms by (auto simp: wf_grid_def list_all_length)

lemma wf_grid_area: "wf_grid mode w h g \<Longrightarrow> 0 < w * h \<and> w * h \<le> 3000"
  using mult_mono [of w 100 h 30] by (auto simp: wf_grid_def)

lemma gridChanges_wf:
  assumes "wf_grid mode w h g"
  shows "\<forall>(y, x, c) \<in> set (gridChanges prev 0 g). int y < h \<and> int x < w \<and> valid_cell mode c"
  using wf_grid_cell [OF assms] by (auto simp: gridChanges_set)

lemma decodeDelta_encode:
  assumes wf: "wf_grid mode w h g" and wfp: "wf_grid mode w h prev"
    and e: "e_prev e = Some prev" and nonempty: "encodeDelta e g \<noteq> []"
    and d: "d = \<lparr>d_grid = prev, d_w = w, d_h = h, d_mode = mode, d_has = True\<rparr>"
  shows "decodeDelta d (encodeDelta e g) = (None, d\<lparr>d_grid := g\<rparr>)"
proof -
  define chs where "chs = gridChanges prev 0 g"
  let ?hdr = "''D'' @ '' '' @ go_itoa w @ '' '' @ go_itoa h @ '' '' @ go_itoa (int (length chs))"
  let ?body = "concat (map (\<lambda>l. l @ [newline]) (map encodeChange chs))"
  note lines = encodeDelta_lines [OF wf e nonempty, folded chs_def]
  from wf wfp have dims: "0 < w" "w \<le> 100" "0 < h" "h \<le> 30" "length prev = length g" "prev \<noteq> []"
    by (auto simp: wf_grid_def)
  have "splitFrame (encodeDelta e g) = Inr (?hdr, ?body)"
    unfolding lines(2) by (rule splitFrame_line) simp
  moreover have "go_fields ?hdr = [''D'', go_itoa w, go_itoa h, go_itoa (int (length chs))]"
    by (rule header_fields) simp
  moreover have "payloadLines ?body = (if chs = [] then [[]] else map encodeChange chs)"
    using payloadLines_concat [of "map encodeChange chs"]
    by (auto simp: payloadLines_def trim_suffix_byte_def)
  moreover have "encodeChange ch \<noteq> []" for ch
    by (cases ch) (simp add: encodeChange_def)
  moreover have "applyChanges w h mode (map encodeChange chs) {} prev = Inr g"
  proof -
    have "length (prev ! y) = length (g ! y)" if "y < length g" for y
      using wf wfp that dims(5) by (auto simp: wf_grid_def list_all_length)
    then have "foldl setCell prev chs = g"
      unfolding chs_def using dims(5) by (intro fold_gridChanges)
    then show ?thesis
      using applyChanges_encode [of w h chs mode "{}" prev] gridChanges_wf [OF wf, of prev]
        gridChanges_distinct [of prev 0 g] dims by (auto simp: chs_def)
  qed
  moreover have "int (length chs) \<le> w * h" "int (length chs) \<le> 100000" "0 \<le> w * h"
    using lines(1) wf_grid_area [OF wf] by auto
  ultimately show ?thesis
    using dims d
    by (cases "chs = []")
       (simp_all add: decodeDelta_def Let_def validateDimensions_None [THEN iffD2] not_less
          del: append.simps)
qed

section \<open>The simulation\<close>

lemma encodeKeyframe_hd [simp]: "encodeKeyframe e g \<noteq> []" "hd (encodeKeyframe e g) = CHR ''K''"
  by (simp_all add: encodeKeyframe_def Let_def)

lemma encodeDelta_hd: "encodeDelta e g \<noteq> [] \<Longrightarrow> hd (encodeDelta e g) = CHR ''D''"
  by (auto simp: encodeDelta_def Let_def split: if_splits)

lemma Encode_cases:
  assumes "Encode e g = (s, e')"
  obtains (invalid) "s = []" "e' = e" "\<And>w h. \<not> wf_grid (e_mode e) w h g"
  | (key) w h where "wf_grid (e_mode e) w h g" "s = encodeKeyframe e' g"
      "e' = e\<lparr>e_frameCount := 0, e_prev := Some g, e_w := w, e_h := h\<rparr>"
  | (delta) prev where "wf_grid (e_mode e) (e_w e) (e_h e) g" "e_prev e = Some prev"
      "e_frameCount e + 1 < e_keyframeEvery e"
      "s = encodeDelta (e\<lparr>e_frameCount := e_frameCount e + 1\<rparr>) g" "s \<noteq> []"
      "e' = e\<lparr>e_frameCount := e_frameCount e + 1, e_prev := Some g\<rparr>"
proof (cases "validateGrid g (e_mode e)")
  case (Inl err)
  then have "\<not> wf_grid (e_mode e) w h g" for w h
    using validateGrid_wf [of g "e_mode e" w h] by auto
  with Inl assms show ?thesis by (intro invalid) (auto simp: Encode_def)
next
  case (Inr wh)
  obtain w h where wh: "wh = (w, h)" by (cases wh)
  with Inr have wf: "wf_grid (e_mode e) w h g" by (simp add: validateGrid_wf)
  have "e\<lparr>e_frameCount := 0, e_prev := Some g\<rparr> = e\<lparr>e_frameCount := 0, e_prev := Some g, e_w := w, e_h := h\<rparr>"
    if "e_w e = w" "e_h e = h"
    using that by (cases e) simp
  with Inr wh wf assms show ?thesis
    by (auto simp: Encode_def Let_def split: if_splits intro: key delta)
qed

lemma decode_encodeKeyframe:
  assumes wf: "wf_grid mode w h g" and e: "e_mode e = mode"
    and size: "int (length (encodeKeyframe e g)) \<le> MaxEncodedFrameBytes"
  shows "DecodeCells d (encodeKeyframe e g) =
    (Inr (g, mode), d\<lparr>d_grid := g, d_w := w, d_h := h, d_mode := mode, d_has := True\<rparr>)"
  using size by (simp add: DecodeCells_def decodeKeyframe_encode [OF wf e])

section \<open>Sizes\<close>

lemma length_join_on: "length (join_on c ws) \<le> sum_list (map (\<lambda>w. Suc (length w)) ws)"
  by (induction c ws rule: join_on.induct) auto

lemma go_itoa_colour: "-1 \<le> v \<Longrightarrow> v \<le> 255 \<Longrightarrow> length (go_itoa v) \<le> 3"
  using go_itoa_length [of v 3] by (cases "v = -1") auto

lemma length_encodeCell: "valid_cell mode c \<Longrightarrow> length (encodeCell c) \<le> 11"
  using go_itoa_colour [of "Fg c"] go_itoa_colour [of "Bg c"]
    go_itoa_length [of "int (byte_val (CharB c))" 3]
  by (simp add: encodeCell_def valid_cell_def)

lemma length_encodeRow:
  assumes "list_all (valid_cell mode) row"
  shows "length (join_on (CHR '';'') (map encodeCell row)) \<le> 12 * length row"
proof -
  have "length (join_on (CHR '';'') (map encodeCell row)) \<le> (\<Sum>c\<leftarrow>row. Suc (length (encodeCell c)))"
    using length_join_on [of "CHR '';''" "map encodeCell row"] by (simp add: comp_def)
  also have "\<dots> \<le> (\<Sum>c\<leftarrow>row. 12)"
    using assms length_encodeCell by (intro sum_list_mono) (fastforce simp: list_all_iff)
  finally show ?thesis by (simp add: sum_list_triv mult.commute)
qed

lemma length_concat_le:
  "\<forall>x \<in> set xs. length (f x) \<le> n \<Longrightarrow> length (concat (map f xs)) \<le> n * length xs"
  by (induction xs) auto

lemma length_encodeKeyframe:
  assumes wf: "wf_grid mode w h g" and e: "e_mode e = mode"
  shows "length (encodeKeyframe e g) \<le> 40000"
proof -
  let ?row = "\<lambda>row. join_on (CHR '';'') (map encodeCell row) @ [newline]"
  from wf have row: "length (?row row) \<le> 1201" if "row \<in> set g" for row
    using that length_encodeRow [of mode row] by (auto simp: wf_grid_def list_all_iff)
  then have "length (concat (map ?row g)) \<le> 1201 * length g"
    by (intro length_concat_le) auto
  moreover have "length g \<le> 30" using wf by (auto simp: wf_grid_def)
  moreover have "length (go_itoa w) \<le> 3" "length (go_itoa h) \<le> 3" "length (go_itoa mode) \<le> 3"
    using wf by (auto simp: wf_grid_def mode_defs intro!: go_itoa_colour)
  ultimately show ?thesis
    unfolding encodeKeyframe_lines [OF wf e] by (simp add: comp_def)
qed

lemma length_encodeChange:
  assumes "int y < 30" "int x < 100" "valid_cell mode c"
  shows "length (encodeChange (y, x, c)) \<le> 17"
  using assms go_itoa_length [of "int y" 2] go_itoa_length [of "int x" 2]
    go_itoa_colour [of "Fg c"] go_itoa_colour [of "Bg c"]
    go_itoa_length [of "int (byte_val (CharB c))" 3]
  by (simp add: encodeChange_def valid_cell_def)

lemma length_encodeDelta:
  assumes wf: "wf_grid mode w h g" and e: "e_prev e = Some prev"
  shows "length (encodeDelta e g) \<le> 40000"
proof (cases "encodeDelta e g = []")
  case False
  note lines = encodeDelta_lines [OF wf e False]
  let ?chs = "gridChanges prev 0 g"
  have "length (encodeChange ch @ [newline]) \<le> 18" if "ch \<in> set ?chs" for ch
    using gridChanges_wf [OF wf, of prev] that wf length_encodeChange
    by (cases ch) (fastforce simp: wf_grid_def)
  then have "length (concat (map (\<lambda>ch. encodeChange ch @ [newline]) ?chs)) \<le> 18 * length ?chs"
    by (intro length_concat_le) auto
  moreover have count: "int (length ?chs) \<le> 1500"
    using lines(1) wf_grid_area [OF wf] by linarith
  moreover have "length (go_itoa w) \<le> 3" "length (go_itoa h) \<le> 3"
    using wf go_itoa_length [of w 3] go_itoa_length [of h 3] by (auto simp: wf_grid_def)
  moreover have "length (go_itoa (int (length ?chs))) \<le> 4"
    using count by (intro go_itoa_length) auto
  ultimately show ?thesis
    unfolding lines(2) by (simp add: comp_def)
qed simp

lemma Encode_size: "Encode e g = (s, e') \<Longrightarrow> length s \<le> 40000"
proof (erule Encode_cases)
  fix w h assume "wf_grid (e_mode e) w h g" "s = encodeKeyframe e' g"
    "e' = e\<lparr>e_frameCount := 0, e_prev := Some g, e_w := w, e_h := h\<rparr>"
  then show ?thesis by (auto intro: length_encodeKeyframe)
qed (auto intro: length_encodeDelta)

lemma Encode_synced:
  assumes sync: "synced e d" and enc: "Encode e g = (s, e')" and sent: "s \<noteq> []"
  shows "\<exists>d'. DecodeCells d s = (Inr (g, e_mode e), d') \<and> synced e' d' \<and> e_mode e' = e_mode e"
proof -
  have size: "int (length s) \<le> MaxEncodedFrameBytes"
    using Encode_size [OF enc] by (simp add: MaxEncodedFrameBytes_def)
  from enc show ?thesis
  proof (cases rule: Encode_cases)
    case invalid
    with sent show ?thesis by simp
  next
    case (key w h)
    then have mode: "e_mode e' = e_mode e" by simp
    from decode_encodeKeyframe [OF key(1) mode, of d] size key show ?thesis
      by (simp add: synced_def)
  next
    case (delta prev)
    let ?e1 = "e\<lparr>e_frameCount := e_frameCount e + 1\<rparr>"
    from sync delta(2) have prev: "wf_grid (e_mode e) (e_w e) (e_h e) prev"
      and d: "d = \<lparr>d_grid = prev, d_w = e_w e, d_h = e_h e, d_mode = e_mode e, d_has = True\<rparr>"
      by (simp_all add: synced_def)
    have "decodeDelta d s = (None, d\<lparr>d_grid := g\<rparr>)"
      using delta decodeDelta_encode [OF delta(1) prev _ _ d, of ?e1] by simp
    moreover have "hd s = CHR ''D''" using delta encodeDelta_hd by simp
    ultimately show ?thesis
      using delta size d by (simp add: DecodeCells_def synced_def)
  qed
qed

lemma Encode_empty: "Encode e g = ([], e') \<Longrightarrow> e' = e \<and> (\<forall>w h. \<not> wf_grid (e_mode e) w h g)"
  by (erule Encode_cases) (auto simp: encodeKeyframe_hd(1) [symmetric])

lemma Encode_valid: "Encode e g = (s, e') \<Longrightarrow> s \<noteq> [] \<Longrightarrow> \<exists>w h. wf_grid (e_mode e) w h g"
  by (erule Encode_cases) auto

lemma transmit_synced:
  "synced e d \<Longrightarrow>
   transmit e d gs =
     map (\<lambda>g. Inr (g, e_mode e)) (filter (\<lambda>g. \<exists>w h. wf_grid (e_mode e) w h g) gs)"
proof (induction gs arbitrary: e d)
  case Nil
  then show ?case by simp
next
  case (Cons g gs)
  obtain s e' where enc: "Encode e g = (s, e')" by (cases "Encode e g")
  show ?case
  proof (cases "s = []")
    case True
    with enc Encode_empty have "e' = e" "\<nexists>w h. wf_grid (e_mode e) w h g" by blast+
    with True enc Cons show ?thesis by simp
  next
    case False
    from Encode_synced [OF Cons.prems enc False] obtain d' where
      "DecodeCells d s = (Inr (g, e_mode e), d')" "synced e' d'" "e_mode e' = e_mode e"
      by blast
    with False enc Cons.IH [of e' d'] Encode_valid [OF enc False] show ?thesis by simp
  qed
qed

section \<open>Keyframe interval\<close>

definition counting :: "DeltaEncoder \<Rightarrow> bool" where
  "counting e \<longleftrightarrow> 0 \<le> e_frameCount e \<and> e_frameCount e < e_keyframeEvery e"

lemma Encode_counting:
  assumes "counting e" and "Encode e g = (s, e')"
  shows "counting e' \<and> e_keyframeEvery e' = e_keyframeEvery e \<and> e_mode e' = e_mode e \<and>
    (s = [] \<or> hd s = CHR ''K'' \<or> e_frameCount e' = e_frameCount e + 1)"
  using assms(2) by (cases rule: Encode_cases) (use assms(1) in \<open>auto simp: counting_def\<close>)

lemma keyframe_within:
  assumes "counting e" and "list_all (\<lambda>g. \<exists>w h. wf_grid (e_mode e) w h g) gs"
    and "e_keyframeEvery e - e_frameCount e \<le> int (length gs)"
  shows "\<exists>i. int i < e_keyframeEvery e - e_frameCount e \<and> hd (emitted e gs ! i) = CHR ''K''"
  using assms
proof (induction gs arbitrary: e)
  case Nil
  then show ?case by (simp add: counting_def)
next
  case (Cons g gs)
  obtain s e' where enc: "Encode e g = (s, e')" by (cases "Encode e g")
  have "s \<noteq> []" using Encode_empty [of e g e'] enc Cons.prems(2) by auto
  with Encode_counting [OF Cons.prems(1) enc] have e': "counting e'" "e_mode e' = e_mode e"
    "e_keyframeEvery e' = e_keyframeEvery e"
    and next_frame: "hd s = CHR ''K'' \<or> e_frameCount e' = e_frameCount e + 1"
    by auto
  from next_frame show ?case
  proof
    assume "hd s = CHR ''K''"
    with enc Cons.prems(1) show ?thesis by (intro exI [of _ 0]) (simp add: counting_def)
  next
    assume count: "e_frameCount e' = e_frameCount e + 1"
    with Cons.prems e' obtain i where "int i < e_keyframeEvery e' - e_frameCount e'"
      "hd (emitted e' gs ! i) = CHR ''K''"
      using Cons.IH [OF e'(1)] by auto
    with enc count e' show ?thesis by (intro exI [of _ "Suc i"]) simp
  qed
qed

lemma emitted_counting:
  assumes "counting e"
  shows "\<exists>e'. counting e' \<and> e_mode e' = e_mode e \<and> e_keyframeEvery e' = e_keyframeEvery e \<and>
    emitted e (gs @ hs) = emitted e gs @ emitted e' hs"
  using assms
proof (induction gs arbitrary: e)
  case Nil
  then show ?case by auto
next
  case (Cons g gs)
  obtain s e' where enc: "Encode e g = (s, e')" by (cases "Encode e g")
  with Encode_counting [OF Cons.prems enc] Cons.IH [of e'] show ?case by auto
qed

lemma length_emitted [simp]: "length (emitted e gs) = length gs"
  by (induction gs arbitrary: e) (auto split: prod.split)

lemma counting_New [simp]: "counting (NewDeltaEncoder mode k)"
  by (simp add: counting_def NewDeltaEncoder_def)

section \<open>Status frames\<close>

lemma printableBytes_props:
  "length acc \<le> 40 \<Longrightarrow> list_all (\<lambda>c. 32 \<le> byte_val c \<and> byte_val c \<le> 126) acc \<Longrightarrow>
   length (printableBytes m acc) \<le> 40 \<and>
   list_all (\<lambda>c. 32 \<le> byte_val c \<and> byte_val c \<le> 126) (printableBytes m acc)"
  by (induction m acc rule: printableBytes.induct) auto

abbreviation textCell :: "char \<Rightarrow> Cell" where
  "textCell c \<equiv> blankCell\<lparr>CharB := c\<rparr>"

lemma write_text:
  fixes start :: nat
  assumes "length pre = start + n" and "length cs \<le> k"
  shows "foldl (\<lambda>row (i, c). row[start + i := (row ! (start + i))\<lparr>CharB := c\<rparr>])
      (pre @ replicate k blankCell) (enumerate n cs) =
    pre @ map textCell cs @ replicate (k - length cs) blankCell"
  using assms
proof (induction cs arbitrary: pre n k)
  case Nil
  then show ?case by simp
next
  case (Cons c cs)
  then obtain k' where k: "k = Suc k'" by (cases k) auto
  have "(pre @ replicate k blankCell)[start + n := textCell c] = (pre @ [textCell c]) @ replicate k' blankCell"
    using Cons.prems k by (simp add: list_update_append)
  moreover have "(pre @ replicate k blankCell) ! (start + n) = blankCell"
    using Cons.prems k by (simp add: nth_append)
  ultimately show ?case
    using Cons.IH [of "pre @ [textCell c]" "Suc n" k'] Cons.prems k by simp
qed

definition statusText :: "string \<Rightarrow> string" where
  "statusText message =
     (if printableBytes message [] = [] then ''Unavailable'' else printableBytes message [])"

definition statusGrid :: "string \<Rightarrow> grid" where
  "statusGrid t =
     (let width = max 16 (length t + 4); start = (width - length t) div 2
      in [replicate width blankCell,
          replicate start blankCell @ map textCell t @ replicate (width - start - length t) blankCell,
          replicate width blankCell])"

lemma StatusFrame_eq:
  "StatusFrame m = fst (Encode (NewDeltaEncoder ModeASCII 1) (statusGrid (statusText m)))"
proof -
  let ?t = "statusText m"
  let ?width = "if length ?t + 4 < 16 then 16 else length ?t + 4"
  let ?start = "(?width - length ?t) div 2"
  have "replicate ?width blankCell = replicate ?start blankCell @ replicate (?width - ?start) blankCell"
    by (simp flip: replicate_add)
  then have "foldl (\<lambda>row (i, c). row[?start + i := (row ! (?start + i))\<lparr>CharB := c\<rparr>])
      (replicate ?width blankCell) (enumerate 0 ?t) =
    replicate ?start blankCell @ map textCell ?t @ replicate (?width - ?start - length ?t) blankCell"
    using write_text [of "replicate ?start blankCell" ?start 0 ?t "?width - ?start"] by auto
  then show ?thesis
    unfolding StatusFrame_def statusGrid_def Let_def statusText_def [symmetric]
    by (simp add: max_def not_less)
qed

lemma valid_textCell: "32 \<le> byte_val c \<Longrightarrow> byte_val c \<le> 126 \<Longrightarrow> valid_cell mode (textCell c)"
  by (simp add: valid_cell_def blankCell_def)

lemma valid_blankCell [simp]: "valid_cell mode blankCell"
  by (simp add: valid_cell_def blankCell_def)

lemma statusText_props:
  "0 < length (statusText m)" "length (statusText m) \<le> 40"
  "list_all (\<lambda>c. 32 \<le> byte_val c \<and> byte_val c \<le> 126) (statusText m)"
  using printableBytes_props [of "[]" m] by (auto simp: statusText_def byte_val_def)

lemma statusGrid_wf:
  assumes "length t \<le> 40" "list_all (\<lambda>c. 32 \<le> byte_val c \<and> byte_val c \<le> 126) t"
  shows "wf_grid ModeASCII (int (max 16 (length t + 4))) 3 (statusGrid t)"
  using assms by (auto simp: wf_grid_def statusGrid_def Let_def mode_defs list_all_iff valid_textCell)

section \<open>Properties\<close>

text \<open>C1: Round trip of the whole stream. Whatever state the receiver's decoder is in, feeding
  it the frames a fresh encoder emits for any sequence of grids yields, in order, exactly the
  grids that satisfy the frame limits, each with the encoder's render mode and none rejected;
  the other grids are not sent. Keyframes, deltas, the fallback above half the cells and
  dimension changes are all covered.\<close>

theorem stream_roundtrip:
  "transmit (NewDeltaEncoder mode k) d gs =
     map (\<lambda>g. Inr (g, mode)) (filter (\<lambda>g. \<exists>w h. wf_grid mode w h g) gs)"
  using transmit_synced [of "NewDeltaEncoder mode k" d gs]
  by (simp add: synced_def NewDeltaEncoder_def)

text \<open>C8: A hostile peer cannot get a malformed grid into the receiver. After any sequence of
  payloads, a successful decode returns a rectangular grid of at most 100 by 30 cells in a valid
  mode, with colours in -1..255 and characters that are printable ASCII or, in half-block mode
  only, NUL.\<close>

theorem decoder_accepts_only_wf:
  assumes "DecodeCells (decodeAll NewDeltaDecoder payloads) data = (Inr (g, mode), d')"
  shows "wf_grid mode (d_w d') (d_h d') g"
  using DecodeCells_success [OF decodeAll_wf [OF wf_NewDeltaDecoder] assms] by blast

abbreviation cellA :: Cell where
  "cellA \<equiv> \<lparr>CharB = CHR ''A'', Fg = -1, Bg = -1\<rparr>"

theorem decoder_accepts_only_wf_witness: "wf_grid 0 1 1 [[cellA]]"
proof -
  have "DecodeCells (decodeAll NewDeltaDecoder [''D 1 1 0'' @ [newline]])
      (''K 1 1 0'' @ [newline] @ ''-1,-1,65'' @ [newline]) =
    (Inr ([[cellA]], 0), \<lparr>d_grid = [[cellA]], d_w = 1, d_h = 1, d_mode = 0, d_has = True\<rparr>)"
    by code_simp
  from decoder_accepts_only_wf [OF this] show ?thesis by simp
qed

text \<open>C33: A rejected frame does not change the decoder, whichever check rejects it and however
  far the payload was parsed.\<close>

theorem decoder_failure_atomic:
  assumes "DecodeCells d data = (Inl err, d')"
  shows "d' = d"
  using assms by (rule DecodeCells_error)

theorem decoder_failure_atomic_witness:
  "snd (DecodeCells \<lparr>d_grid = [[cellA, cellA]], d_w = 2, d_h = 1, d_mode = 0, d_has = True\<rparr>
      (''D 2 1 2'' @ [newline] @ ''0 0 -1 -1 88'' @ [newline] @ ''0 0 -1 -1 89'' @ [newline])) =
    \<lparr>d_grid = [[cellA, cellA]], d_w = 2, d_h = 1, d_mode = 0, d_has = True\<rparr>"
proof -
  let ?d = "\<lparr>d_grid = [[cellA, cellA]], d_w = 2, d_h = 1, d_mode = 0, d_has = True\<rparr>"
  let ?s = "''D 2 1 2'' @ [newline] @ ''0 0 -1 -1 88'' @ [newline] @ ''0 0 -1 -1 89'' @ [newline]"
  have "fst (DecodeCells ?d ?s) = Inl ErrMalformedFrame" by code_simp
  then have "DecodeCells ?d ?s = (Inl ErrMalformedFrame, snd (DecodeCells ?d ?s))"
    by (metis prod.collapse)
  then show ?thesis by (rule decoder_failure_atomic)
qed

text \<open>Every frame the encoder emits fits the decoder's payload limit with a wide margin:
  at most 40000 bytes, against a limit of 128 KiB.\<close>

lemma Encode_fits_limit:
  "length (fst (Encode e g)) \<le> 40000 \<and> 40000 < MaxEncodedFrameBytes"
  using Encode_size [of e g "fst (Encode e g)" "snd (Encode e g)"]
  by (simp add: MaxEncodedFrameBytes_def)

text \<open>C34: A receiver that lost frames resynchronises soon: in every window of as many
  consecutive valid grids as the keyframe interval, the encoder emits a keyframe.\<close>

theorem keyframe_interval:
  assumes "list_all (\<lambda>g. \<exists>w h. wf_grid mode w h g) gs"
    and "1 \<le> k" and "n + nat k \<le> length gs"
  shows "\<exists>i. n \<le> i \<and> i < n + nat k \<and> hd (emitted (NewDeltaEncoder mode k) gs ! i) = CHR ''K''"
proof -
  let ?e = "NewDeltaEncoder mode k"
  obtain e' where e': "counting e'" "e_mode e' = mode" "e_keyframeEvery e' = k"
    and app: "emitted ?e gs = emitted ?e (take n gs) @ emitted e' (drop n gs)"
    using emitted_counting [OF counting_New, of mode k "take n gs" "drop n gs"] assms(2)
    by (auto simp: NewDeltaEncoder_def)
  have "list_all (\<lambda>g. \<exists>w h. wf_grid (e_mode e') w h g) (drop n gs)"
    using assms(1) e'(2) by (auto simp: list_all_iff dest: in_set_dropD)
  moreover have "e_keyframeEvery e' - e_frameCount e' \<le> int (length (drop n gs))"
    using e'(1,3) assms(3) by (auto simp: counting_def)
  ultimately obtain i where "int i < k" "hd (emitted e' (drop n gs) ! i) = CHR ''K''"
    using keyframe_within [OF e'(1)] e'(1,3) by (force simp: counting_def)
  then show ?thesis
    using app assms(3) by (intro exI [of _ "n + i"]) (auto simp: nth_append)
qed

theorem keyframe_interval_witness:
  "\<exists>i. 1 \<le> i \<and> i < 3 \<and>
     hd (emitted (NewDeltaEncoder 0 2) (replicate 3 [[cellA]]) ! i) = CHR ''K''"
proof -
  have "wf_grid 0 1 1 [[cellA]]"
    by (simp add: wf_grid_def mode_defs valid_cell_def byte_val_def)
  then have "list_all (\<lambda>g. \<exists>w h. wf_grid 0 w h g) (replicate 3 [[cellA]])"
    by (auto simp: list_all_iff)
  from keyframe_interval [OF this, of 2 1] show ?thesis by (simp add: eval_nat_numeral)
qed

text \<open>A status frame made of any message decodes on any receiver, to three rows in ASCII
  mode with the message's printable characters (at most 40 of them, or the word Unavailable)
  centred in the middle row.\<close>

theorem StatusFrame_decodes:
  "(\<exists>d'. DecodeCells d (StatusFrame m) = (Inr (statusGrid (statusText m), ModeASCII), d')) \<and>
   length (statusText m) \<le> 40"
proof -
  let ?e = "NewDeltaEncoder ModeASCII 1"
  let ?g = "statusGrid (statusText m)"
  obtain s e' where enc: "Encode ?e ?g = (s, e')" by (cases "Encode ?e ?g")
  have wf: "wf_grid (e_mode ?e) (int (max 16 (length (statusText m) + 4))) 3 ?g"
    using statusGrid_wf statusText_props by (simp add: NewDeltaEncoder_def)
  then have "s \<noteq> []" using enc Encode_empty by blast
  moreover have "synced ?e d" by (simp add: synced_def NewDeltaEncoder_def)
  ultimately show ?thesis
    using Encode_synced [OF _ enc] enc statusText_props(2) [of m]
    by (auto simp: StatusFrame_eq NewDeltaEncoder_def)
qed

end
