(* ===== verification/Terminal_Output.thy ===== *)
theory Terminal_Output
  imports Frame_Codec
begin

text \<open>
  From cell grids to terminal text: \<^verbatim>\<open>serialiseASCII\<close> (\<^verbatim>\<open>ascii.go\<close>),
  \<^verbatim>\<open>serialiseColor256\<close> (\<^verbatim>\<open>color256.go\<close>), \<^verbatim>\<open>serialiseHalfBlock\<close>
  (\<^verbatim>\<open>halfblock.go\<close>), \<^verbatim>\<open>SerialiseMode\<close> (\<^verbatim>\<open>renderer.go\<close>) and
  \<^verbatim>\<open>DeltaDecoder.Decode\<close>. A string builder is the list of its writes: a \<open>token\<close>
  is one write, \<open>token_bytes\<close> its bytes. The serialisers carry the last colours written
  and skip redundant escapes; \<open>paint\<close> is the terminal they write to (SGR 0, 38;5;n and
  48;5;n), against which the skipping is shown to be invisible.
\<close>

section \<open>Writes\<close>

datatype token = TChar char | TNewline | THalf | TReset | TFg int | TBg int

abbreviation esc :: char where
  "esc \<equiv> CHR 0x1B"

fun token_bytes :: "token \<Rightarrow> string" where
  "token_bytes (TChar c) = [c]"
| "token_bytes TNewline = [newline]"
| "token_bytes THalf = [CHR 0xE2, CHR 0x96, CHR 0x84]"
| "token_bytes TReset = esc # ''[0m''"
| "token_bytes (TFg n) = esc # ''[38;5;'' @ go_itoa n @ ''m''"
| "token_bytes (TBg n) = esc # ''[48;5;'' @ go_itoa n @ ''m''"

definition built :: "token list \<Rightarrow> string" where
  "built ts = concat (map token_bytes ts)"

section \<open>Serialisers\<close>

text \<open>The cells \<^verbatim>\<open>cells[y][0] .. cells[y][w-1]\<close> the inner loops visit.\<close>

definition rowCells :: "nat \<Rightarrow> Cell list \<Rightarrow> Cell list" where
  "rowCells w row = map (\<lambda>x. row ! x) [0..<w]"

fun asciiRows :: "nat \<Rightarrow> grid \<Rightarrow> token list" where
  "asciiRows w [] = []"
| "asciiRows w [row] = map (\<lambda>c. TChar (CharB c)) (rowCells w row)"
| "asciiRows w (row # rows) = map (\<lambda>c. TChar (CharB c)) (rowCells w row) @ TNewline # asciiRows w rows"

definition serialiseASCII :: "grid \<Rightarrow> token list" where
  "serialiseASCII cells = (if cells = [] then [] else asciiRows (length (hd cells)) cells)"

fun color256Row :: "Cell list \<Rightarrow> int \<Rightarrow> token list" where
  "color256Row [] lastFg = []"
| "color256Row (c # cs) lastFg =
     (if CharB c = CHR '' '' then
        (if lastFg \<noteq> -1 then [TReset] else []) @ TChar (CHR '' '') # color256Row cs (-1)
      else
        (if Fg c \<noteq> lastFg then [TFg (Fg c)] else []) @ TChar (CharB c) # color256Row cs (Fg c))"

fun color256Rows :: "nat \<Rightarrow> grid \<Rightarrow> token list" where
  "color256Rows w [] = []"
| "color256Rows w [row] = color256Row (rowCells w row) (-1)"
| "color256Rows w (row # rows) =
     color256Row (rowCells w row) (-1) @ [TReset, TNewline] @ color256Rows w rows"

definition serialiseColor256 :: "grid \<Rightarrow> token list" where
  "serialiseColor256 cells =
     (if cells = [] then [] else color256Rows (length (hd cells)) cells @ [TReset])"

fun halfBlockRow :: "Cell list \<Rightarrow> int \<Rightarrow> int \<Rightarrow> token list" where
  "halfBlockRow [] lastBg lastFg = []"
| "halfBlockRow (c # cs) lastBg lastFg =
     (if CharB c = CHR '' '' then
        (if lastBg \<noteq> -1 \<or> lastFg \<noteq> -1 then [TReset] else []) @ TChar (CHR '' '') #
        halfBlockRow cs (-1) (-1)
      else
        (if Bg c \<noteq> lastBg then [TBg (Bg c)] else []) @
        (if Fg c \<noteq> lastFg then [TFg (Fg c)] else []) @ THalf #
        halfBlockRow cs (Bg c) (Fg c))"

fun halfBlockRows :: "nat \<Rightarrow> grid \<Rightarrow> token list" where
  "halfBlockRows w [] = []"
| "halfBlockRows w [row] = halfBlockRow (rowCells w row) (-1) (-1)"
| "halfBlockRows w (row # rows) =
     halfBlockRow (rowCells w row) (-1) (-1) @ [TReset, TNewline] @ halfBlockRows w rows"

definition serialiseHalfBlock :: "grid \<Rightarrow> token list" where
  "serialiseHalfBlock cells =
     (if cells = [] then [] else halfBlockRows (length (hd cells)) cells @ [TReset])"

definition SerialiseMode :: "grid \<Rightarrow> RenderMode \<Rightarrow> token list" where
  "SerialiseMode cells mode =
     (if mode = ModeASCII then serialiseASCII cells
      else if mode = ModeColor256 then serialiseColor256 cells
      else if mode = ModeHalfBlock then serialiseHalfBlock cells
      else [])"

definition Decode :: "DeltaDecoder \<Rightarrow> string \<Rightarrow> (frame_error, token list) res \<times> DeltaDecoder" where
  "Decode d data =
     (case DecodeCells d data of
        (Inl e, d') \<Rightarrow> (Inl e, d')
      | (Inr (cells, mode), d') \<Rightarrow> (Inr (SerialiseMode cells mode), d'))"

section \<open>The terminal\<close>

text \<open>A terminal that starts with default colours (-1): SGR tokens change the current colours,
  the other tokens are shown in them. A colour escape with a negative number is malformed and
  ignored.\<close>

datatype shown = Glyph char int int | Half int int | LineBreak

fun paint :: "int \<Rightarrow> int \<Rightarrow> token list \<Rightarrow> shown list" where
  "paint fg bg [] = []"
| "paint fg bg (TChar c # ts) = Glyph c fg bg # paint fg bg ts"
| "paint fg bg (TNewline # ts) = LineBreak # paint fg bg ts"
| "paint fg bg (THalf # ts) = Half fg bg # paint fg bg ts"
| "paint fg bg (TReset # ts) = paint (-1) (-1) ts"
| "paint fg bg (TFg n # ts) = paint (if n < 0 then fg else n) bg ts"
| "paint fg bg (TBg n # ts) = paint fg (if n < 0 then bg else n) ts"

text \<open>What a cell is meant to look like, per mode.\<close>

definition cell256 :: "Cell \<Rightarrow> shown" where
  "cell256 c = Glyph (CharB c) (if CharB c = CHR '' '' then -1 else Fg c) (-1)"

definition cellHalf :: "Cell \<Rightarrow> shown" where
  "cellHalf c = (if CharB c = CHR '' '' then Glyph (CHR '' '') (-1) (-1) else Half (Fg c) (Bg c))"

definition cellASCII :: "Cell \<Rightarrow> shown" where
  "cellASCII c = Glyph (CharB c) (-1) (-1)"

fun picture :: "(Cell \<Rightarrow> shown) \<Rightarrow> grid \<Rightarrow> shown list" where
  "picture look [] = []"
| "picture look [row] = map look row"
| "picture look (row # rows) = map look row @ LineBreak # picture look rows"

definition look :: "RenderMode \<Rightarrow> Cell \<Rightarrow> shown" where
  "look mode = (if mode = ModeASCII then cellASCII else if mode = ModeColor256 then cell256 else cellHalf)"

text \<open>The colours a mode shows are colour numbers, not the -1 of an unused colour.\<close>

definition coloured :: "RenderMode \<Rightarrow> Cell \<Rightarrow> bool" where
  "coloured mode c \<longleftrightarrow>
     CharB c = CHR '' '' \<or> mode = ModeASCII \<or> 0 \<le> Fg c \<and> (mode = ModeHalfBlock \<longrightarrow> 0 \<le> Bg c)"

text \<open>Writes that cannot move the cursor, change the terminal's state beyond colours, or print a
  control character.\<close>

fun safe_token :: "token \<Rightarrow> bool" where
  "safe_token (TChar c) \<longleftrightarrow> 32 \<le> byte_val c \<and> byte_val c \<le> 126"
| "safe_token (TFg n) \<longleftrightarrow> -1 \<le> n \<and> n \<le> 255"
| "safe_token (TBg n) \<longleftrightarrow> -1 \<le> n \<and> n \<le> 255"
| "safe_token _ \<longleftrightarrow> True"

section \<open>Lemmas\<close>

lemma mode_distinct:
  "ModeColor256 \<noteq> ModeASCII" "ModeHalfBlock \<noteq> ModeASCII" "ModeHalfBlock \<noteq> ModeColor256"
  by (simp_all add: mode_defs)

lemma rowCells_eq [simp]: "length row = w \<Longrightarrow> rowCells w row = row"
  by (auto simp: rowCells_def intro: map_nth)

lemma paint_ascii_row:
  "paint (-1) (-1) (map (\<lambda>c. TChar (CharB c)) cs @ ts) = map cellASCII cs @ paint (-1) (-1) ts"
  by (induction cs) (simp_all add: cellASCII_def)

lemmas paint_ascii_last = paint_ascii_row [of _ "[]", simplified]

lemma paint_asciiRows:
  "list_all (\<lambda>row. length row = w) g \<Longrightarrow> paint (-1) (-1) (asciiRows w g) = picture cellASCII g"
  by (induction w g rule: asciiRows.induct) (simp_all add: paint_ascii_row paint_ascii_last)

lemma paint_color256Row:
  "list_all (coloured ModeColor256) cs \<Longrightarrow>
   \<exists>fg. paint lastFg (-1) (color256Row cs lastFg @ rest) = map cell256 cs @ paint fg (-1) rest"
  by (induction cs arbitrary: lastFg) (auto simp: cell256_def coloured_def mode_defs)

lemma paint_color256Rows:
  "list_all (\<lambda>row. length row = w) g \<Longrightarrow> list_all (list_all (coloured ModeColor256)) g \<Longrightarrow>
   paint (-1) (-1) (color256Rows w g @ [TReset]) = picture cell256 g"
proof (induction w g rule: color256Rows.induct)
  case (2 w row)
  then show ?case using paint_color256Row [of row "-1" "[TReset]"] by auto
next
  case (3 w row r rows)
  then show ?case
    using paint_color256Row [of row "-1" "[TReset, TNewline] @ color256Rows w (r # rows) @ [TReset]"]
    by auto
qed simp

lemma paint_halfBlockRow:
  "list_all (coloured ModeHalfBlock) cs \<Longrightarrow>
   \<exists>fg bg. paint lastFg lastBg (halfBlockRow cs lastBg lastFg @ rest) =
     map cellHalf cs @ paint fg bg rest"
  by (induction cs arbitrary: lastFg lastBg) (auto simp: cellHalf_def coloured_def mode_defs)

lemma paint_halfBlockRows:
  "list_all (\<lambda>row. length row = w) g \<Longrightarrow> list_all (list_all (coloured ModeHalfBlock)) g \<Longrightarrow>
   paint (-1) (-1) (halfBlockRows w g @ [TReset]) = picture cellHalf g"
proof (induction w g rule: halfBlockRows.induct)
  case (2 w row)
  then show ?case
    using paint_halfBlockRow [of row "-1" "-1" "[TReset]"] by auto
next
  case (3 w row r rows)
  then show ?case
    using paint_halfBlockRow [of row "-1" "-1" "[TReset, TNewline] @ halfBlockRows w (r # rows) @ [TReset]"]
    by auto
qed simp

lemma wf_grid_lengths: "wf_grid mode w h g \<Longrightarrow> list_all (\<lambda>row. length row = length (hd g)) g"
  by (cases g) (auto simp: wf_grid_def list_all_iff)

lemma safe_ascii_row:
  "list_all (valid_cell mode) cs \<Longrightarrow> mode \<noteq> ModeHalfBlock \<Longrightarrow>
   list_all safe_token (map (\<lambda>c. TChar (CharB c)) cs)"
  by (induction cs) (auto simp: valid_cell_def)

lemma safe_asciiRows:
  "list_all (\<lambda>row. length row = w \<and> list_all (valid_cell mode) row) g \<Longrightarrow> mode \<noteq> ModeHalfBlock \<Longrightarrow>
   list_all safe_token (asciiRows w g)"
  by (induction w g rule: asciiRows.induct) (auto intro: safe_ascii_row)

lemma safe_color256Row:
  "list_all (valid_cell mode) cs \<Longrightarrow> mode \<noteq> ModeHalfBlock \<Longrightarrow>
   list_all safe_token (color256Row cs lastFg)"
  by (induction cs arbitrary: lastFg) (auto simp: valid_cell_def)

lemma safe_color256Rows:
  "list_all (\<lambda>row. length row = w \<and> list_all (valid_cell mode) row) g \<Longrightarrow> mode \<noteq> ModeHalfBlock \<Longrightarrow>
   list_all safe_token (color256Rows w g)"
  by (induction w g rule: color256Rows.induct) (auto intro: safe_color256Row)

lemma safe_halfBlockRow:
  "list_all (valid_cell mode) cs \<Longrightarrow> list_all safe_token (halfBlockRow cs lastBg lastFg)"
  by (induction cs arbitrary: lastBg lastFg) (auto simp: valid_cell_def)

lemma safe_halfBlockRows:
  "list_all (\<lambda>row. length row = w \<and> list_all (valid_cell mode) row) g \<Longrightarrow>
   list_all safe_token (halfBlockRows w g)"
  by (induction w g rule: halfBlockRows.induct) (auto intro: safe_halfBlockRow)

lemma SerialiseMode_safe:
  assumes "wf_grid mode w h g"
  shows "list_all safe_token (SerialiseMode g mode)"
proof -
  from assms have "list_all (\<lambda>row. length row = length (hd g) \<and> list_all (valid_cell mode) row) g"
    using wf_grid_lengths [OF assms] by (auto simp: wf_grid_def list_all_iff)
  then show ?thesis
    by (auto simp: SerialiseMode_def serialiseASCII_def serialiseColor256_def serialiseHalfBlock_def
        mode_defs intro: safe_asciiRows safe_color256Rows safe_halfBlockRows)
qed

section \<open>Properties\<close>

text \<open>C9: Terminal safety. Whatever bytes peers send, the text a successful decode produces is
  made only of printable ASCII, the half-block character, line breaks, SGR resets and SGR
  256-colour escapes whose number is between -1 and 255: no cursor movement, no other escape
  sequence, no control character reaches the terminal.\<close>

theorem decoded_output_safe:
  assumes "Decode (decodeAll NewDeltaDecoder payloads) data = (Inr ts, d')"
  shows "list_all safe_token ts"
proof -
  from assms obtain cells mode
    where dec: "DecodeCells (decodeAll NewDeltaDecoder payloads) data = (Inr (cells, mode), d')"
      and ts: "ts = SerialiseMode cells mode"
    by (auto simp: Decode_def split: sum.splits prod.splits)
  from DecodeCells_success [OF decodeAll_wf [OF wf_NewDeltaDecoder] dec] SerialiseMode_safe
  show ?thesis unfolding ts by blast
qed

theorem decoded_output_safe_witness:
  "list_all safe_token [TFg 5, TChar (CHR ''A''), TFg 7, TChar (CHR ''~''), TReset]"
proof -
  let ?d = "decodeAll NewDeltaDecoder []"
  let ?s = "''K 2 1 1'' @ [newline] @ ''5,-1,65;7,-1,126'' @ [newline]"
  have "fst (Decode ?d ?s) = Inr [TFg 5, TChar (CHR ''A''), TFg 7, TChar (CHR ''~''), TReset]"
    by code_simp
  then have "Decode ?d ?s = (Inr [TFg 5, TChar (CHR ''A''), TFg 7, TChar (CHR ''~''), TReset],
      snd (Decode ?d ?s))"
    by (simp add: prod_eq_iff)
  then show ?thesis by (rule decoded_output_safe)
qed

text \<open>C35: Skipping redundant escapes is invisible. On a terminal with default colours, the text
  a serialiser writes for a well-formed grid whose shown cells have colours shows every cell with
  its own character and colours, row by row, in each of the three modes.\<close>

theorem SerialiseMode_paints:
  assumes "wf_grid mode w h g" and "list_all (list_all (coloured mode)) g"
  shows "paint (-1) (-1) (SerialiseMode g mode) = picture (look mode) g"
proof -
  note len = wf_grid_lengths [OF assms(1)]
  from assms(1) have g: "g \<noteq> []" by (auto simp: wf_grid_def)
  from assms(1) consider "mode = ModeASCII" | "mode = ModeColor256" | "mode = ModeHalfBlock"
    by atomize_elim (auto simp: wf_grid_def mode_defs)
  then show ?thesis
  proof cases
    case 1
    with len g show ?thesis
      by (simp add: SerialiseMode_def serialiseASCII_def look_def paint_asciiRows)
  next
    case 2
    with len g assms(2) show ?thesis
      by (simp add: SerialiseMode_def serialiseColor256_def look_def paint_color256Rows mode_distinct)
  next
    case 3
    with len g assms(2) show ?thesis
      by (simp add: SerialiseMode_def serialiseHalfBlock_def look_def paint_halfBlockRows mode_distinct)
  qed
qed

theorem SerialiseMode_paints_witness:
  "paint (-1) (-1) (SerialiseMode [[\<lparr>CharB = char_of (0::nat), Fg = 1, Bg = 2\<rparr>]] ModeHalfBlock) =
     [Half 1 2]"
proof -
  let ?g = "[[\<lparr>CharB = char_of (0::nat), Fg = 1, Bg = 2\<rparr>]]"
  have "wf_grid ModeHalfBlock 1 1 ?g" "list_all (list_all (coloured ModeHalfBlock)) ?g"
    by (simp_all add: wf_grid_def mode_defs valid_cell_def coloured_def)
  from SerialiseMode_paints [OF this] show ?thesis
    by (simp add: look_def mode_defs cellHalf_def char_of_def)
qed

text \<open>The hypothesis on colours is needed: the decoder accepts the unused colour -1 on a
  visible cell, for which the serialiser writes the malformed escape 38;5;-1, and the cell
  keeps the colour of its left neighbour.\<close>

theorem unused_colour_leaks:
  "\<exists>d' g. DecodeCells NewDeltaDecoder (''K 2 1 1'' @ [newline] @ ''5,-1,65;-1,-1,66'' @ [newline]) =
      (Inr (g, ModeColor256), d') \<and>
    SerialiseMode g ModeColor256 = [TFg 5, TChar (CHR ''A''), TFg (-1), TChar (CHR ''B''), TReset] \<and>
    paint (-1) (-1) (SerialiseMode g ModeColor256) = [Glyph (CHR ''A'') 5 (-1), Glyph (CHR ''B'') 5 (-1)]"
proof -
  let ?g = "[[\<lparr>CharB = CHR ''A'', Fg = 5, Bg = -1\<rparr>, \<lparr>CharB = CHR ''B'', Fg = -1, Bg = -1\<rparr>]]"
  have "fst (DecodeCells NewDeltaDecoder (''K 2 1 1'' @ [newline] @ ''5,-1,65;-1,-1,66'' @ [newline])) =
      Inr (?g, ModeColor256)"
    by code_simp
  moreover have "SerialiseMode ?g ModeColor256 =
      [TFg 5, TChar (CHR ''A''), TFg (-1), TChar (CHR ''B''), TReset]"
    by code_simp
  ultimately show ?thesis by (auto simp: prod_eq_iff)
qed

end
