(* ===== verification/Noise_Filter.thy ===== *)
theory Noise_Filter
  imports Frame_Codec
begin

text \<open>
  The camera-noise filter of \<^verbatim>\<open>src/internal/ascii/stabiliser.go\<close>: \<open>Stabilise\<close>
  compares each cell with the baseline of the previous frame and keeps the old value when the
  change is within the threshold. The lemmas show that the filter never shows a value further
  from the camera's than the threshold, however long it runs, and keeps grids well-formed. Colours are
  Go's 64-bit \<^verbatim>\<open>int\<close>, whose subtraction and negation wrap around.
\<close>

record Stabiliser =
  st_prev :: "grid option"
  st_threshold :: int
  st_w :: int
  st_h :: int

definition NewStabiliser :: "int \<Rightarrow> Stabiliser" where
  "NewStabiliser threshold = \<lparr>st_prev = None, st_threshold = threshold, st_w = 0, st_h = 0\<rparr>"

definition stabiliser_Reset :: "Stabiliser \<Rightarrow> Stabiliser" where
  "stabiliser_Reset s = s\<lparr>st_prev := None, st_w := 0, st_h := 0\<rparr>"

definition wrap64 :: "int \<Rightarrow> int" where
  "wrap64 x = (x + 2 ^ 63) mod 2 ^ 64 - 2 ^ 63"

lemma wrap64_id: "- (2 ^ 63) \<le> x \<Longrightarrow> x < 2 ^ 63 \<Longrightarrow> wrap64 x = x"
  by (simp add: wrap64_def)

definition go_abs :: "int \<Rightarrow> int" where
  "go_abs x = (if x < 0 then wrap64 (- x) else x)"

definition stabiliseCell :: "int \<Rightarrow> Cell \<Rightarrow> Cell \<Rightarrow> Cell" where
  "stabiliseCell threshold n o' =
     (if go_abs (wrap64 (Fg n - Fg o')) \<le> threshold \<and> go_abs (wrap64 (Bg n - Bg o')) \<le> threshold \<and> CharB n = CharB o'
      then o' else n)"

definition Stabilise :: "Stabiliser \<Rightarrow> grid \<Rightarrow> grid \<times> Stabiliser" where
  "Stabilise s cells =
     (let h = int (length cells);
          w = (if h > 0 then int (length (hd cells)) else 0)
      in case st_prev s of
           None \<Rightarrow> (cells, s\<lparr>st_prev := Some cells, st_w := w, st_h := h\<rparr>)
         | Some prev \<Rightarrow>
             if st_w s \<noteq> w \<or> st_h s \<noteq> h
             then (cells, s\<lparr>st_prev := Some cells, st_w := w, st_h := h\<rparr>)
             else let out = map (\<lambda>y. map (\<lambda>x. stabiliseCell (st_threshold s) (cells ! y ! x) (prev ! y ! x))
                              [0..<nat w]) [0..<nat h]
             in (out, s\<lparr>st_prev := Some out\<rparr>))"

fun stabiliseAll :: "Stabiliser \<Rightarrow> grid list \<Rightarrow> grid list" where
  "stabiliseAll s [] = []"
| "stabiliseAll s (g # gs) = (case Stabilise s g of (out, s') \<Rightarrow> out # stabiliseAll s' gs)"

section \<open>Invariant and closeness\<close>

definition rect :: "nat \<Rightarrow> nat \<Rightarrow> grid \<Rightarrow> bool" where
  "rect w h g \<longleftrightarrow> length g = h \<and> list_all (\<lambda>row. length row = w) g"

definition cell_close :: "int \<Rightarrow> Cell \<Rightarrow> Cell \<Rightarrow> bool" where
  "cell_close t a b \<longleftrightarrow> \<bar>Fg a - Fg b\<bar> \<le> t \<and> \<bar>Bg a - Bg b\<bar> \<le> t \<and> CharB a = CharB b"

definition grid_close :: "int \<Rightarrow> grid \<Rightarrow> grid \<Rightarrow> bool" where
  "grid_close t = list_all2 (list_all2 (cell_close t))"

text \<open>Colours whose differences do not wrap around: far more than the palette, which is -1 to 255.\<close>

definition colours_fit :: "Cell \<Rightarrow> bool" where
  "colours_fit c \<longleftrightarrow> \<bar>Fg c\<bar> < 2 ^ 62 \<and> \<bar>Bg c\<bar> < 2 ^ 62"

abbreviation grid_fits :: "grid \<Rightarrow> bool" where
  "grid_fits g \<equiv> list_all (list_all colours_fit) g"

definition st_inv :: "Stabiliser \<Rightarrow> bool" where
  "st_inv s \<longleftrightarrow>
     (case st_prev s of
        None \<Rightarrow> True
      | Some prev \<Rightarrow> grid_fits prev \<and> (\<exists>w h. st_w s = int w \<and> st_h s = int h \<and> rect w h prev \<and> 0 < h))"

lemma go_abs_wrap: "\<bar>a\<bar> < 2 ^ 62 \<Longrightarrow> \<bar>b\<bar> < 2 ^ 62 \<Longrightarrow> go_abs (wrap64 (a - b)) = \<bar>a - b\<bar>"
  using wrap64_id [of "a - b"] wrap64_id [of "b - a"] by (auto simp: go_abs_def abs_if split: if_splits)

lemma stabiliseCell_fit:
  "colours_fit n \<Longrightarrow> colours_fit o' \<Longrightarrow>
   stabiliseCell t n o' = (if cell_close t n o' then o' else n)"
  by (simp add: stabiliseCell_def cell_close_def colours_fit_def go_abs_wrap)

lemma grid_fits_nth: "grid_fits g \<Longrightarrow> rect w h g \<Longrightarrow> y < h \<Longrightarrow> x < w \<Longrightarrow> colours_fit (g ! y ! x)"
  by (auto simp: rect_def list_all_length)

text \<open>Every grid within the limits of a frame qualifies.\<close>

lemma wf_grid_fits: "wf_grid mode w h g \<Longrightarrow> grid_fits g"
  by (fastforce simp: wf_grid_def valid_cell_def colours_fit_def list_all_iff)

lemma cell_close_refl: "0 \<le> t \<Longrightarrow> cell_close t a a"
  by (simp add: cell_close_def)

lemma grid_close_refl: "0 \<le> t \<Longrightarrow> grid_close t g g"
  by (simp add: grid_close_def list_all2_same cell_close_refl)

lemma stabiliseCell_close:
  "0 \<le> t \<Longrightarrow> colours_fit n \<Longrightarrow> colours_fit o' \<Longrightarrow> cell_close t (stabiliseCell t n o') n \<and> colours_fit (stabiliseCell t n o')"
  by (auto simp: stabiliseCell_fit cell_close_def)

lemma rect_nth: "rect w h g \<Longrightarrow> y < h \<Longrightarrow> length (g ! y) = w"
  by (simp add: rect_def list_all_length)

lemma Stabilise_first:
  "st_prev s = None \<Longrightarrow> rect w h g \<Longrightarrow> 0 < h \<Longrightarrow>
   Stabilise s g = (g, s\<lparr>st_prev := Some g, st_w := int w, st_h := int h\<rparr>)"
  by (cases g) (auto simp: Stabilise_def rect_def)

lemma Stabilise_resized:
  "st_prev s = Some prev \<Longrightarrow> st_w s \<noteq> int w \<or> st_h s \<noteq> int h \<Longrightarrow> rect w h g \<Longrightarrow> 0 < h \<Longrightarrow>
   Stabilise s g = (g, s\<lparr>st_prev := Some g, st_w := int w, st_h := int h\<rparr>)"
  by (cases g) (auto simp: Stabilise_def rect_def)

lemma Stabilise_next:
  "st_prev s = Some prev \<Longrightarrow> st_w s = int w \<Longrightarrow> st_h s = int h \<Longrightarrow> rect w h g \<Longrightarrow> 0 < h \<Longrightarrow>
   Stabilise s g =
     (let out = map (\<lambda>y. map (\<lambda>x. stabiliseCell (st_threshold s) (g ! y ! x) (prev ! y ! x)) [0..<w]) [0..<h]
      in (out, s\<lparr>st_prev := Some out\<rparr>))"
  by (cases g) (auto simp: Stabilise_def rect_def)

lemma Stabilise_step:
  assumes inv: "st_inv s" and t: "0 \<le> st_threshold s" and g: "rect w h g" "0 < h" and fits: "grid_fits g"
    and step: "Stabilise s g = (out, s')"
  shows "st_inv s' \<and> st_threshold s' = st_threshold s \<and> rect w h out \<and> grid_close (st_threshold s) out g"
proof (cases "st_prev s = None \<or> st_w s \<noteq> int w \<or> st_h s \<noteq> int h")
  case True
  then have "out = g" "s' = s\<lparr>st_prev := Some g, st_w := int w, st_h := int h\<rparr>"
    using Stabilise_first [OF _ g] Stabilise_resized [OF _ _ g] step by (cases "st_prev s"; auto)+
  with g t fits show ?thesis by (simp add: st_inv_def grid_close_refl)
next
  case False
  then obtain prev where prev: "st_prev s = Some prev" "st_w s = int w" "st_h s = int h" by auto
  let ?out = "map (\<lambda>y. map (\<lambda>x. stabiliseCell (st_threshold s) (g ! y ! x) (prev ! y ! x)) [0..<w]) [0..<h]"
  from Stabilise_next [OF prev g] step have out: "out = ?out" "s' = s\<lparr>st_prev := Some ?out\<rparr>"
    by (auto simp: Let_def)
  have rect: "rect w h ?out" by (simp add: rect_def list_all_iff)
  have baseline: "grid_fits prev" "rect w h prev" using inv prev by (auto simp: st_inv_def)
  have cell: "cell_close (st_threshold s) (stabiliseCell (st_threshold s) (g ! y ! x) (prev ! y ! x)) (g ! y ! x) \<and>
      colours_fit (stabiliseCell (st_threshold s) (g ! y ! x) (prev ! y ! x))" if "y < h" "x < w" for x y
    using stabiliseCell_close [OF t] grid_fits_nth [OF fits g(1) that] grid_fits_nth [OF baseline that] by blast
  have "grid_fits ?out" using cell by (simp add: list_all_iff)
  moreover have "list_all2 (cell_close (st_threshold s)) (?out ! y) (g ! y)" if "y < h" for y
    using that rect_nth [OF g(1) that] cell by (intro list_all2_all_nthI) auto
  then have "grid_close (st_threshold s) ?out g"
    unfolding grid_close_def using g(1) by (intro list_all2_all_nthI [of _ _ "list_all2 _"]) (auto simp: rect_def)
  ultimately show ?thesis using out rect prev g(2) by (auto simp: st_inv_def)
qed

section \<open>Properties\<close>

text \<open>C36: However long the filter runs, every frame it returns has the input frame's shape and
  characters and is nowhere further from the input than the threshold: suppressed changes do not
  accumulate into drift. The colours are those whose differences fit 64 bits (\<open>colours_fit\<close>), as all
  colours of the palette do.\<close>

theorem stabiliser_no_drift:
  assumes "0 \<le> threshold" and "list_all (\<lambda>g. grid_fits g \<and> (\<exists>w h. rect w h g \<and> 0 < h)) gs"
  shows "list_all2 (grid_close threshold) (stabiliseAll (NewStabiliser threshold) gs) gs"
proof -
  have "list_all2 (grid_close (st_threshold s)) (stabiliseAll s gs) gs"
    if "st_inv s" "0 \<le> st_threshold s" for s
    using that assms(2)
  proof (induction gs arbitrary: s)
    case Nil
    then show ?case by simp
  next
    case (Cons g gs)
    then obtain w h where g: "rect w h g" "0 < h" "grid_fits g" by auto
    obtain out s' where step: "Stabilise s g = (out, s')" by (cases "Stabilise s g")
    from Stabilise_step [OF Cons.prems(1,2) g step] Cons.IH [of s'] Cons.prems(2,3) step
    show ?case by auto
  qed
  from this [of "NewStabiliser threshold"] assms(1) show ?thesis
    by (simp add: NewStabiliser_def st_inv_def)
qed

theorem stabiliser_no_drift_witness:
  "list_all2 (grid_close 1)
     (stabiliseAll (NewStabiliser 1) (map (\<lambda>n. [[\<lparr>CharB = CHR ''x'', Fg = n, Bg = 0\<rparr>]]) [10, 11, 12]))
     (map (\<lambda>n. [[\<lparr>CharB = CHR ''x'', Fg = n, Bg = 0\<rparr>]]) [10, 11, 12])"
  by (rule stabiliser_no_drift) (auto simp: rect_def colours_fit_def)

text \<open>Noise is suppressed: a frame that stays within the threshold of the baseline
  leaves the baseline and the output exactly as they were, so that the encoder sees no change.\<close>

theorem stabiliser_suppresses:
  assumes "st_prev s = Some prev" and "st_w s = int w" and "st_h s = int h" and "0 < h"
    and "rect w h prev" and "rect w h g" and "grid_fits prev" and "grid_fits g" and "grid_close (st_threshold s) g prev"
  shows "Stabilise s g = (prev, s)"
proof -
  have "stabiliseCell (st_threshold s) (g ! y ! x) (prev ! y ! x) = prev ! y ! x"
    if "y < h" "x < w" for x y
  proof -
    from assms(5,6,9) that have "cell_close (st_threshold s) (g ! y ! x) (prev ! y ! x)"
      using rect_nth [OF assms(6)] by (auto simp: grid_close_def rect_def dest!: list_all2_nthD)
    then show ?thesis
      using grid_fits_nth [OF assms(8,6) that] grid_fits_nth [OF assms(7,5) that] by (simp add: stabiliseCell_fit)
  qed
  then have "map (\<lambda>y. map (\<lambda>x. stabiliseCell (st_threshold s) (g ! y ! x) (prev ! y ! x)) [0..<w]) [0..<h]
      = map (\<lambda>y. map (\<lambda>x. prev ! y ! x) [0..<w]) [0..<h]"
    by simp
  also have "\<dots> = prev"
    using assms(5) by (intro nth_equalityI) (auto simp: rect_def rect_nth [OF assms(5)])
  finally show ?thesis
    using Stabilise_next [OF assms(1-3,6,4)] assms(1) by (simp add: Let_def)
qed

theorem stabiliser_suppresses_witness:
  "Stabilise \<lparr>st_prev = Some [[\<lparr>CharB = CHR ''x'', Fg = 60, Bg = 9\<rparr>]], st_threshold = 1, st_w = 1, st_h = 1\<rparr>
     [[\<lparr>CharB = CHR ''x'', Fg = 61, Bg = 8\<rparr>]] =
   ([[\<lparr>CharB = CHR ''x'', Fg = 60, Bg = 9\<rparr>]],
    \<lparr>st_prev = Some [[\<lparr>CharB = CHR ''x'', Fg = 60, Bg = 9\<rparr>]], st_threshold = 1, st_w = 1, st_h = 1\<rparr>)"
  by (rule stabiliser_suppresses [where w = 1 and h = 1])
     (simp_all add: rect_def grid_close_def cell_close_def colours_fit_def)

end
