(* ===== verification/Go_Float.thy ===== *)
theory Go_Float
  imports Complex_Main
begin

text \<open>
  Values of a Go \<^verbatim>\<open>float64\<close> as far as the program compares them: a finite value is the
  rational it denotes, and there are the infinities and NaN. Every ordered comparison with NaN is
  false.
\<close>

datatype go_float = NaN | NegInf | PosInf | Fin rat

fun float_less :: "go_float \<Rightarrow> go_float \<Rightarrow> bool" where
  "float_less (Fin a) (Fin b) = (a < b)"
| "float_less NegInf (Fin b) = True"
| "float_less (Fin a) PosInf = True"
| "float_less NegInf PosInf = True"
| "float_less _ _ = False"

definition float_le :: "go_float \<Rightarrow> go_float \<Rightarrow> bool" where
  "float_le x y \<longleftrightarrow> float_less x y \<or> x = y \<and> x \<noteq> NaN"

lemma float_less_NaN [simp]: "\<not> float_less NaN x" "\<not> float_less x NaN"
  by (cases x; simp)+

lemma float_le_NaN [simp]: "\<not> float_le NaN x" "\<not> float_le x NaN"
  by (simp_all add: float_le_def)

end
