(* ===== verification/Float64.thy ===== *)
theory Float64
  imports Go_Float "HOL-Library.Log_Nat"
begin

text \<open>
  The \<^verbatim>\<open>float64\<close> arithmetic of the program on the rationals that finite values denote: every
  operation is the exact one followed by \<open>fl\<close>, rounding to the nearest value with a 53-bit
  significand, ties to even. The program's values stay far from subnormal
  numbers, so exponents are not bounded below; \<open>to_float\<close> overflows to the infinities. A conversion to an
  integer truncates, \<^verbatim>\<open>math.Round\<close> rounds halves away from zero, and \<^verbatim>\<open>math.Sqrt\<close> is correctly rounded:
  \<open>go_sqrt\<close> takes the integer root of the operand scaled to some 120 bits, with one more bit that says
  whether the root is exact, and rounds that.
\<close>

definition two_pow :: "int \<Rightarrow> rat" where
  "two_pow n = (if 0 \<le> n then 2 ^ nat n else 1 / 2 ^ nat (- n))"

definition round_even :: "rat \<Rightarrow> int" where
  "round_even q =
     (let f = \<lfloor>q\<rfloor>; d = q - of_int f
      in if d < 1 / 2 then f else if 1 / 2 < d then f + 1 else if even f then f else f + 1)"

definition fl_exponent :: "rat \<Rightarrow> int" where
  "fl_exponent q =
     (case quotient_of \<bar>q\<bar> of (a, b) \<Rightarrow>
        let e = int (floorlog 2 (nat a)) - int (floorlog 2 (nat b)) - 53
        in if \<bar>q\<bar> < two_pow (e + 53) then e else e + 1)"

definition fl :: "rat \<Rightarrow> rat" where
  "fl q = (if q = 0 then 0 else of_int (round_even (q / two_pow (fl_exponent q))) * two_pow (fl_exponent q))"

definition float64 :: "int \<Rightarrow> rat" where
  "float64 n = fl (of_int n)"

definition go_trunc :: "rat \<Rightarrow> int" where
  "go_trunc q = (if 0 \<le> q then \<lfloor>q\<rfloor> else \<lceil>q\<rceil>)"

definition math_Round :: "rat \<Rightarrow> int" where
  "math_Round q = (if 0 \<le> q then \<lfloor>q + 1 / 2\<rfloor> else \<lceil>q - 1 / 2\<rceil>)"

definition to_float :: "rat \<Rightarrow> go_float" where
  "to_float q = (let r = fl q in if 2 ^ 1024 \<le> r then PosInf else if r \<le> - (2 ^ 1024) then NegInf else Fin r)"

fun float_add :: "go_float \<Rightarrow> go_float \<Rightarrow> go_float" where
  "float_add (Fin a) (Fin b) = to_float (a + b)"
| "float_add NaN y = NaN"
| "float_add x NaN = NaN"
| "float_add PosInf NegInf = NaN"
| "float_add NegInf PosInf = NaN"
| "float_add PosInf y = PosInf"
| "float_add NegInf y = NegInf"
| "float_add x y = y"

text \<open>Multiplication and division of any value by a positive finite one, and division of a finite
  non-negative one by a positive one.\<close>

fun float_times_pos :: "go_float \<Rightarrow> rat \<Rightarrow> go_float" where
  "float_times_pos (Fin a) b = to_float (a * b)"
| "float_times_pos x b = x"

fun float_quot_pos :: "rat \<Rightarrow> go_float \<Rightarrow> go_float" where
  "float_quot_pos a (Fin b) = to_float (a / b)"
| "float_quot_pos a NaN = NaN"
| "float_quot_pos a _ = Fin 0"

function isqrt :: "int \<Rightarrow> int" where
  "isqrt n = (if n \<le> 0 then 0 else let r = 2 * isqrt (n div 4) in if (r + 1) * (r + 1) \<le> n then r + 1 else r)"
  by pat_completeness auto
termination
  by (relation "measure nat") auto

declare isqrt.simps [simp del]

definition sqrt_scale :: "rat \<Rightarrow> int" where
  "sqrt_scale q =
     (case quotient_of q of (a, b) \<Rightarrow> 60 - (int (floorlog 2 (nat a)) - int (floorlog 2 (nat b))) div 2)"

definition go_sqrt :: "rat \<Rightarrow> rat" where
  "go_sqrt q =
     (if q \<le> 0 then 0
      else
        let k = sqrt_scale q; s = q * two_pow (2 * k); t = isqrt \<lfloor>s\<rfloor>
        in fl (of_int (2 * t + (if of_int (t * t) = s then 0 else 1)) * two_pow (- k - 1)))"

text \<open>The number of bits, computed on binary integers.\<close>

function bit_len :: "int \<Rightarrow> int" where
  "bit_len n = (if n \<le> 0 then 0 else 1 + bit_len (n div 2))"
  by pat_completeness auto
termination
  by (relation "measure nat") auto

declare bit_len.simps [simp del]

lemma bit_len_floorlog: "int (floorlog 2 (nat n)) = bit_len n"
proof (induction n rule: bit_len.induct)
  case (1 n)
  show ?case
  proof (cases "n \<le> 0")
    case False
    have "floorlog 2 (nat n) = Suc (floorlog 2 (nat n div 2))" using False by (subst compute_floorlog) simp
    with 1 False show ?thesis by (subst bit_len.simps) (simp add: nat_div_distrib)
  qed (simp add: bit_len.simps floorlog_def)
qed

lemma fl_exponent_code [code]:
  "fl_exponent q =
     (case quotient_of \<bar>q\<bar> of (a, b) \<Rightarrow>
        let e = bit_len a - bit_len b - 53 in if \<bar>q\<bar> < two_pow (e + 53) then e else e + 1)"
  by (simp add: fl_exponent_def bit_len_floorlog)

lemma sqrt_scale_code [code]:
  "sqrt_scale q = (case quotient_of q of (a, b) \<Rightarrow> 60 - (bit_len a - bit_len b) div 2)"
  by (simp add: sqrt_scale_def bit_len_floorlog)

section \<open>The rounding error\<close>

lemma two_pow_pos: "0 < two_pow n"
  by (simp add: two_pow_def)

lemma two_pow_add: "two_pow (m + n) = two_pow m * two_pow n"
proof -
  have powi: "two_pow n = 2 powi n" for n by (simp add: two_pow_def power_int_def inverse_eq_divide power_one_over)
  show ?thesis unfolding powi by (simp add: power_int_add)
qed

lemma two_pow_nat: "two_pow (int n) = 2 ^ n"
  by (simp add: two_pow_def)

lemma round_even_error: "\<bar>of_int (round_even q) - q\<bar> \<le> 1 / 2"
  unfolding round_even_def Let_def using floor_correct [of q] by (simp add: abs_if) linarith

lemma floorlog_bounds: "0 < n \<Longrightarrow> two_pow (int (floorlog 2 n)) \<le> 2 * of_nat n \<and> of_nat n < two_pow (int (floorlog 2 n))"
proof -
  assume n: "0 < n"
  from floorlog_bounds [of n 2] n have "2 ^ (floorlog 2 n - 1) \<le> n" "n < 2 ^ floorlog 2 n" by auto
  moreover have "0 < floorlog 2 n" using n by (simp add: floorlog_def)
  then have "(2::nat) ^ floorlog 2 n = 2 * 2 ^ (floorlog 2 n - 1)" by (cases "floorlog 2 n") simp_all
  ultimately have "2 ^ floorlog 2 n \<le> 2 * n" "n < 2 ^ floorlog 2 n" by linarith+
  then have "of_nat (2 ^ floorlog 2 n) \<le> (of_nat (2 * n) :: rat)" "(of_nat n :: rat) < of_nat (2 ^ floorlog 2 n)"
    by (simp_all only: of_nat_le_iff of_nat_less_iff)
  then show ?thesis by (simp add: two_pow_nat)
qed

text \<open>The significand has 53 bits.\<close>

lemma fl_exponent_bound:
  assumes "q \<noteq> 0"
  shows "2 ^ 52 * two_pow (fl_exponent q) \<le> \<bar>q\<bar>"
proof -
  obtain a b where ab: "quotient_of \<bar>q\<bar> = (a, b)" by (cases "quotient_of \<bar>q\<bar>")
  then have b: "0 < b" and q: "\<bar>q\<bar> = of_int a / of_int b" using quotient_of_denom_pos quotient_of_div by blast+
  with assms have a: "0 < a" by (metis abs_ge_zero divide_nonneg_pos divide_nonpos_pos dual_order.antisym not_less of_int_0_less_iff of_int_le_0_iff order_less_imp_le zero_less_abs_iff)
  define la lb where "la = int (floorlog 2 (nat a))" "lb = int (floorlog 2 (nat b))"
  have A: "two_pow la \<le> 2 * of_int a" and B: "of_int b < two_pow lb"
    using floorlog_bounds [of "nat a"] floorlog_bounds [of "nat b"] a b by (simp_all add: la_lb_def)
  let ?e = "la - lb - 53"
  have "two_pow (?e + 52) * 2 * two_pow lb = two_pow la"
  proof -
    have "two_pow (?e + 52) * 2 * two_pow lb = two_pow (?e + 52) * two_pow 1 * two_pow lb" by (simp add: two_pow_def)
    then show ?thesis by (simp add: two_pow_add [symmetric])
  qed
  with A have "two_pow (?e + 52) * two_pow lb \<le> of_int a" by linarith
  moreover have "two_pow (?e + 52) * of_int b \<le> two_pow (?e + 52) * two_pow lb"
    using B two_pow_pos [of "?e + 52"] by simp
  ultimately have "two_pow (?e + 52) * of_int b \<le> of_int a" by linarith
  then have low: "two_pow (?e + 52) \<le> \<bar>q\<bar>" using b by (simp add: q pos_le_divide_eq)
  have e: "fl_exponent q = (if \<bar>q\<bar> < two_pow (?e + 53) then ?e else ?e + 1)"
    by (simp add: fl_exponent_def ab la_lb_def Let_def)
  have p52: "2 ^ 52 * two_pow n = two_pow (n + 52)" for n using two_pow_add [of n 52] by (simp add: two_pow_def mult.commute)
  show ?thesis unfolding p52 e using low by (auto simp: add.commute)
qed

lemma fl_error: "\<bar>fl q - q\<bar> \<le> \<bar>q\<bar> / 2 ^ 53"
proof (cases "q = 0")
  case False
  let ?u = "two_pow (fl_exponent q)"
  have u: "0 < ?u" by (rule two_pow_pos)
  have "fl q - q = (of_int (round_even (q / ?u)) - q / ?u) * ?u" using False u by (simp add: fl_def left_diff_distrib)
  then have "\<bar>fl q - q\<bar> = \<bar>of_int (round_even (q / ?u)) - q / ?u\<bar> * ?u" using u by (simp add: abs_mult)
  also have "\<dots> \<le> 1 / 2 * ?u" using round_even_error [of "q / ?u"] u by (intro mult_right_mono) simp_all
  also have "\<dots> \<le> \<bar>q\<bar> / 2 ^ 53" using fl_exponent_bound [OF False] by simp
  finally show ?thesis .
qed (simp add: fl_def)

lemma fl_bounds: "0 \<le> q \<Longrightarrow> q * (1 - 1 / 2 ^ 53) \<le> fl q \<and> fl q \<le> q * (1 + 1 / 2 ^ 53)"
  using fl_error [of q] by (simp add: abs_if algebra_simps split: if_splits)

lemma fl_nonneg: "0 \<le> q \<Longrightarrow> 0 \<le> fl q"
proof -
  assume q: "0 \<le> q"
  have "0 \<le> q * (1 - 1 / 2 ^ 53)" by (rule mult_nonneg_nonneg [OF q]) simp
  with fl_bounds [OF q] show ?thesis by linarith
qed

section \<open>Square roots and powers of two\<close>

lemma isqrt_bounds: "0 \<le> n \<Longrightarrow> 0 \<le> isqrt n \<and> isqrt n * isqrt n \<le> n \<and> n < (isqrt n + 1) * (isqrt n + 1)"
proof (induction n rule: isqrt.induct)
  case (1 n)
  show ?case
  proof (cases "n \<le> 0")
    case False
    define r where "r = isqrt (n div 4)"
    from 1 False have "0 \<le> r" "r * r \<le> n div 4" "n div 4 < (r + 1) * (r + 1)" by (simp_all add: r_def)
    then have "0 \<le> r" "4 * (r * r) \<le> n" "n < 4 * ((r + 1) * (r + 1))" by linarith+
    then have "2 * r * (2 * r) \<le> n" "n < (2 * r + 1 + 1) * (2 * r + 1 + 1)" by (simp_all add: algebra_simps)
    with False \<open>0 \<le> r\<close> show ?thesis by (subst (1 2 3 4 5) isqrt.simps) (simp add: Let_def r_def [symmetric])
  qed (use 1 in \<open>simp add: isqrt.simps\<close>)
qed

lemma round_even_le: "q \<le> of_int n \<Longrightarrow> round_even q \<le> n"
proof -
  assume q: "q \<le> of_int n"
  show ?thesis
  proof (cases "q = of_int n")
    case False
    with q have "q < of_int n" by simp
    then have "\<lfloor>q\<rfloor> < n" by (simp add: floor_less_iff)
    then show ?thesis by (auto simp: round_even_def Let_def)
  qed (simp add: round_even_def)
qed

text \<open>Rounding never passes a power of two.\<close>

lemma two_pow_le_imp: "two_pow m \<le> two_pow n \<Longrightarrow> m \<le> n"
proof (rule ccontr)
  assume le: "two_pow m \<le> two_pow n" and "\<not> m \<le> n"
  then have "two_pow m = two_pow n * 2 ^ nat (m - n)" and pos: "1 \<le> nat (m - n)"
    using two_pow_add [of n "m - n"] by (simp add: two_pow_def, linarith)
  moreover have "(2::rat) ^ 1 \<le> 2 ^ nat (m - n)" using pos by (intro power_increasing) simp_all
  moreover have "0 < two_pow n" by (rule two_pow_pos)
  ultimately have "two_pow n * 2 \<le> two_pow m" by simp
  with le two_pow_pos [of n] show False by linarith
qed

lemma fl_le_two_pow:
  assumes "q \<le> two_pow n"
  shows "fl q \<le> two_pow n"
proof (cases "0 < q")
  case True
  let ?e = "fl_exponent q"
  have "2 ^ 52 * two_pow ?e \<le> q" using fl_exponent_bound [of q] True by simp
  moreover have "two_pow ?e \<le> 2 ^ 52 * two_pow ?e" using two_pow_pos [of ?e] by simp
  ultimately have "two_pow ?e \<le> two_pow n" using assms by linarith
  then have e: "?e \<le> n" by (rule two_pow_le_imp)
  then have N: "two_pow n = of_int (2 ^ nat (n - ?e)) * two_pow ?e"
    using two_pow_add [of "n - ?e" ?e] by (simp add: two_pow_def)
  with assms have "q / two_pow ?e \<le> of_int (2 ^ nat (n - ?e))" using two_pow_pos [of ?e] by (simp add: pos_divide_le_eq)
  then have "round_even (q / two_pow ?e) \<le> 2 ^ nat (n - ?e)" by (rule round_even_le)
  then have "(of_int (round_even (q / two_pow ?e)) :: rat) \<le> of_int (2 ^ nat (n - ?e))" by (simp only: of_int_le_iff)
  then show ?thesis using True N two_pow_pos [of ?e] by (simp add: fl_def)
next
  case False
  have "\<bar>q\<bar> / 2 ^ 53 \<le> \<bar>q\<bar>" using divide_left_mono [of 1 "2 ^ 53 :: rat" "\<bar>q\<bar>"] by simp
  then have "\<bar>fl q - q\<bar> \<le> \<bar>q\<bar>" using fl_error [of q] by linarith
  with False have "fl q \<le> 0" by linarith
  with two_pow_pos [of n] show ?thesis by linarith
qed

lemma go_sqrt_nonneg: "0 \<le> go_sqrt q"
proof (cases "q \<le> 0")
  case False
  then have "0 \<le> isqrt \<lfloor>q * two_pow (2 * sqrt_scale q)\<rfloor>"
    using isqrt_bounds [of "\<lfloor>q * two_pow (2 * sqrt_scale q)\<rfloor>"] two_pow_pos [of "2 * sqrt_scale q"] by simp
  then show ?thesis
    by (auto simp: go_sqrt_def Let_def intro!: fl_nonneg mult_nonneg_nonneg order_less_imp_le [OF two_pow_pos])
qed (simp add: go_sqrt_def)

lemma sqrt_scale_ge:
  assumes "0 < q" "q \<le> two_pow m"
  shows "60 - (m + 1) div 2 \<le> sqrt_scale q"
proof -
  obtain a b where ab: "quotient_of q = (a, b)" by (cases "quotient_of q")
  then have b: "0 < b" and q: "q = of_int a / of_int b" using quotient_of_denom_pos quotient_of_div by blast+
  with assms(1) have a: "0 < a" by (simp add: zero_less_divide_iff)
  define la lb where "la = int (floorlog 2 (nat a))" "lb = int (floorlog 2 (nat b))"
  have A: "two_pow la \<le> 2 * of_int a" and B: "of_int b < two_pow lb"
    using floorlog_bounds [of "nat a"] floorlog_bounds [of "nat b"] a b by (simp_all add: la_lb_def)
  have "of_int a \<le> two_pow m * of_int b" using assms(2) b by (simp add: q pos_divide_le_eq)
  also have "\<dots> \<le> two_pow m * two_pow lb" using B two_pow_pos [of m] by (intro mult_left_mono) simp_all
  finally have "two_pow la \<le> two_pow 1 * (two_pow m * two_pow lb)" using A by (simp add: two_pow_def [of 1])
  then have "la \<le> 1 + (m + lb)" by (simp only: two_pow_add [symmetric] two_pow_le_imp)
  then have "(la - lb) div 2 \<le> (m + 1) div 2" by (intro zdiv_mono1) simp_all
  then show ?thesis by (simp add: sqrt_scale_def ab la_lb_def)
qed

lemma go_sqrt_le_two_pow:
  assumes q: "q \<le> two_pow (2 * n)"
  shows "go_sqrt q \<le> two_pow n"
proof (cases "q \<le> 0")
  case False
  have n: "0 \<le> n + sqrt_scale q" using sqrt_scale_ge [OF _ q] False by simp
  define k s where "k = sqrt_scale q" and "s = q * two_pow (2 * k)"
  define t where "t = isqrt \<lfloor>s\<rfloor>"
  define m where "m = (2 :: int) ^ nat (n + k)"
  have N: "two_pow (n + k) = of_int m" using n by (simp add: m_def k_def two_pow_def)
  have s0: "0 < s" using False two_pow_pos by (simp add: s_def)
  have "s \<le> two_pow (2 * n) * two_pow (2 * k)" unfolding s_def using q two_pow_pos [of "2 * k"] by (intro mult_right_mono) simp_all
  also have "\<dots> = two_pow (n + k) * two_pow (n + k)" by (simp add: two_pow_add [symmetric] algebra_simps)
  also have "\<dots> = of_int (m * m)" by (simp add: N)
  finally have sm: "s \<le> of_int (m * m)" .
  have t: "0 \<le> t" "t * t \<le> \<lfloor>s\<rfloor>" using isqrt_bounds [of "\<lfloor>s\<rfloor>"] s0 by (simp_all add: t_def)
  then have ts: "of_int (t * t) \<le> s" by (simp only: le_floor_iff)
  with sm have "t * t \<le> m * m" using order_trans of_int_le_iff by blast
  moreover have "0 \<le> t" "0 \<le> m" using t by (simp_all add: m_def)
  ultimately have tm: "t \<le> m" by (metis mult_strict_mono' not_le)
  let ?st = "if of_int (t * t) = s then 0 else 1 :: int"
  have "2 * t + ?st \<le> 2 * m"
  proof (cases "t = m")
    case True
    with ts sm have "of_int (t * t) = s" by simp
    with tm show ?thesis by simp
  qed (use tm in auto)
  then have "(of_int (2 * t + ?st) :: rat) \<le> of_int (2 * m)" by (simp only: of_int_le_iff)
  then have "of_int (2 * t + ?st) * two_pow (- k - 1) \<le> of_int (2 * m) * two_pow (- k - 1)"
    by (rule mult_right_mono) (simp add: two_pow_pos less_imp_le)
  also have "\<dots> = two_pow 1 * two_pow (n + k) * two_pow (- k - 1)" by (simp add: N two_pow_def [of 1])
  also have "\<dots> = two_pow n" by (simp only: two_pow_add [symmetric]) simp
  finally show ?thesis using fl_le_two_pow False
    by (simp add: go_sqrt_def Let_def k_def [symmetric] s_def [symmetric] t_def [symmetric] del: of_int_mult of_int_add)
qed (simp add: go_sqrt_def two_pow_pos less_imp_le)

section \<open>Exact integers\<close>

lemma round_even_int: "round_even (of_int n) = n"
  by (simp add: round_even_def)

lemma two_pow_small: "two_pow n < 2 \<Longrightarrow> n \<le> 0"
proof (rule ccontr)
  assume less: "two_pow n < 2" and "\<not> n \<le> 0"
  then have "two_pow n = 2 ^ nat n" "1 \<le> nat n" by (simp_all add: two_pow_def)
  moreover have "(2::rat) ^ 1 \<le> 2 ^ nat n" using calculation(2) by (intro power_increasing) simp_all
  ultimately show False using less by simp
qed

lemma float64_exact_abs:
  assumes "\<bar>n\<bar> < 2 ^ 53"
  shows "float64 n = of_int n"
proof (cases "n = 0")
  case False
  let ?q = "of_int n :: rat"
  let ?e = "fl_exponent ?q"
  have "(of_int \<bar>n\<bar> :: rat) < of_int (2 ^ 53)" using assms by (simp only: of_int_less_iff)
  then have "\<bar>?q\<bar> < 2 ^ 53" by simp
  with fl_exponent_bound [of ?q] False have "2 ^ 52 * two_pow ?e < 2 ^ 53" by simp
  then have "two_pow ?e < 2" by simp
  then have e: "?e \<le> 0" by (rule two_pow_small)
  then have u: "?q / two_pow ?e = of_int (n * 2 ^ nat (- ?e))" by (simp add: two_pow_def)
  have "fl ?q = of_int (n * 2 ^ nat (- ?e)) * two_pow ?e" using False by (simp only: fl_def u round_even_int) simp
  also have "\<dots> = ?q" using u two_pow_pos [of ?e] by (metis less_irrefl nonzero_eq_divide_eq)
  finally show ?thesis by (simp add: float64_def)
qed (simp add: float64_def fl_def)

lemma float64_exact: "0 \<le> n \<Longrightarrow> n < 2 ^ 53 \<Longrightarrow> float64 n = of_int n"
  by (simp add: float64_exact_abs)

lemma go_trunc_range: "0 \<le> q \<Longrightarrow> q < of_int n \<Longrightarrow> 0 \<le> go_trunc q \<and> go_trunc q < n"
  by (simp add: go_trunc_def floor_less_iff)

text \<open>Scaling an index below \<open>t\<close> by \<open>w / t\<close> in floating point stays below \<open>w\<close>.\<close>

lemma scale_in_range:
  assumes w: "0 < w" "w < 2 ^ 53" and t: "0 < t" "t \<le> 2 ^ 50" and x: "0 \<le> x" "x < t"
  shows "0 \<le> go_trunc (fl (float64 x * fl (float64 w / float64 t))) \<and> go_trunc (fl (float64 x * fl (float64 w / float64 t))) < w"
proof -
  let ?u = "1 / 2 ^ 53 :: rat"
  have ints: "float64 x = of_int x" "float64 w = of_int w" "float64 t = of_int t" using assms by (simp_all add: float64_exact)
  define s where "s = fl (of_int w / of_int t)"
  define p where "p = fl (of_int x * s)"
  have s: "0 \<le> s" "s \<le> of_int w / of_int t * (1 + ?u)"
    using fl_bounds [of "of_int w / of_int t"] fl_nonneg [of "of_int w / of_int t"] w t by (simp_all add: s_def)
  have p0: "0 \<le> p" unfolding p_def using x s by (intro fl_nonneg) simp
  have xs: "0 \<le> of_int x * s" using x s by simp
  have "p \<le> of_int x * s * (1 + ?u)" using fl_bounds [OF xs] by (simp add: p_def)
  also have "\<dots> \<le> of_int x * (of_int w / of_int t * (1 + ?u)) * (1 + ?u)" using s(2) x by (intro mult_right_mono mult_left_mono) simp_all
  also have "\<dots> = of_int w * (of_int x / of_int t * ((1 + ?u) * (1 + ?u)))" by (simp only: divide_inverse ac_simps)
  also have "\<dots> < of_int w"
  proof -
    have "of_int x \<le> (of_int t - 1 :: rat)" using x by (metis of_int_1 of_int_diff of_int_le_iff zle_diff1_eq)
    then have "of_int x / of_int t \<le> (1 - 1 / of_int t :: rat)" using t by (simp add: field_simps)
    also have "\<dots> \<le> 1 - 1 / 2 ^ 50"
    proof -
      have "(of_int t :: rat) \<le> of_int (2 ^ 50)" using t(2) by (simp only: of_int_le_iff)
      then show ?thesis using t(1) by (simp add: frac_le)
    qed
    finally have "of_int x / of_int t * ((1 + ?u) * (1 + ?u)) \<le> (1 - 1 / 2 ^ 50) * ((1 + ?u) * (1 + ?u))" by (intro mult_right_mono) simp_all
    also have "\<dots> < 1" by simp
    finally show ?thesis using w(1) mult_strict_left_mono [of "of_int x / of_int t * ((1 + ?u) * (1 + ?u))" 1 "of_int w"] by simp
  qed
  finally have "p < of_int w" .
  with go_trunc_range [OF p0] show ?thesis by (simp add: ints s_def p_def)
qed

text \<open>A fraction of a small integer, scaled and rounded.\<close>

lemma scaled_round_range:
  assumes "0 \<le> n" "n \<le> m" "m < 2 ^ 53" "0 < d" "0 \<le> k" "of_int m / of_int d * of_int k * (1 + 3 / 2 ^ 53) < (of_int hi + 1 / 2 :: rat)"
  shows "0 \<le> math_Round (fl (fl (float64 n / of_int d) * of_int k)) \<and> math_Round (fl (fl (float64 n / of_int d) * of_int k)) \<le> hi"
proof -
  let ?u = "1 / 2 ^ 53 :: rat" and ?q = "of_int n / of_int d :: rat"
  have n: "float64 n = of_int n" using assms by (simp add: float64_exact)
  have q: "0 \<le> ?q" using assms by simp
  define s where "s = fl ?q * of_int k"
  have "s \<le> ?q * (1 + ?u) * of_int k"
    unfolding s_def using assms(5) by (intro mult_right_mono conjunct2 [OF fl_bounds [OF q]]) simp
  moreover have "0 \<le> s" using fl_nonneg [OF q] assms(5) by (simp add: s_def)
  ultimately have s: "0 \<le> s" "s \<le> ?q * (1 + ?u) * of_int k" by blast+
  have "fl s \<le> s * (1 + ?u)" using fl_bounds [OF s(1)] by simp
  also have "\<dots> \<le> ?q * (1 + ?u) * of_int k * (1 + ?u)" using s(2) by (intro mult_right_mono) simp_all
  also have "\<dots> = ?q * of_int k * ((1 + ?u) * (1 + ?u))" by (simp only: ac_simps)
  also have "\<dots> \<le> ?q * of_int k * (1 + 3 / 2 ^ 53)" using q assms(5) by (intro mult_left_mono mult_nonneg_nonneg) simp_all
  also have "\<dots> \<le> of_int m / of_int d * of_int k * (1 + 3 / 2 ^ 53)"
    using assms by (intro mult_right_mono divide_right_mono) simp_all
  also have "\<dots> < of_int hi + 1 / 2" by (rule assms(6))
  finally have "fl s < of_int hi + 1 / 2" .
  moreover have "0 \<le> fl s" by (rule fl_nonneg [OF s(1)])
  ultimately have "0 \<le> math_Round (fl s)" "math_Round (fl s) \<le> hi"
    by (simp_all add: math_Round_def floor_le_iff)
  then show ?thesis by (simp add: n s_def)
qed

end
