(* ===== verification/Renderer.thy ===== *)
theory Renderer
  imports Frame_Stream Terminal_Output Noise_Filter Float64 "HOL-Library.Word"
begin

text \<open>
  The renderer of \<^verbatim>\<open>src/internal/ascii/renderer.go\<close> with the three samplers of
  \<^verbatim>\<open>ascii.go\<close>, \<^verbatim>\<open>color256.go\<close> and \<^verbatim>\<open>halfblock.go\<close>: an image is sampled into cells, the noise
  filter runs over them and the delta encoder makes the frame to send. An image is its bounds and
  the colour of every point; \<^verbatim>\<open>image.Color.RGBA\<close> is documented to return channels of at most
  65535. Floating-point expressions are evaluated operation by operation.
\<close>

section \<open>Images and colours\<close>

type_synonym u32 = "32 word"

record Image =
  im_MinX :: int
  im_MinY :: int
  im_MaxX :: int
  im_MaxY :: int
  im_At :: "int \<Rightarrow> int \<Rightarrow> u32 \<times> u32 \<times> u32"

definition DefaultGradient :: string where
  "DefaultGradient = '' .:-=+*#%@''"

definition rgbToANSI256 :: "u32 \<times> u32 \<times> u32 \<Rightarrow> int" where
  "rgbToANSI256 c =
     (case c of (r, g, b) \<Rightarrow>
        let r8 = uint (drop_bit 8 r); g8 = uint (drop_bit 8 g); b8 = uint (drop_bit 8 b)
        in if r8 = g8 \<and> g8 = b8 then
             (if r8 < 8 then 16
              else if 248 < r8 then 231
              else math_Round (fl (fl (float64 (r8 - 8) / 247) * 24)) + 232)
           else 16 + 36 * math_Round (fl (fl (float64 r8 / 255) * 5)) + 6 * math_Round (fl (fl (float64 g8 / 255) * 5)) +
                math_Round (fl (fl (float64 b8 / 255) * 5)))"

definition gradientIndex :: "string \<Rightarrow> u32 \<times> u32 \<times> u32 \<Rightarrow> nat" where
  "gradientIndex gradient c =
     (case c of (r, g, b) \<Rightarrow>
        let lum = fl (fl (fl (fl (fl (299 / 1000) * float64 (uint r)) + fl (fl (587 / 1000) * float64 (uint g))) +
                          fl (fl (114 / 1000) * float64 (uint b))) / 256);
            idx = go_trunc (fl (fl (lum / 255) * float64 (int (length gradient) - 1)))
        in if idx < 0 then 0 else if int (length gradient) \<le> idx then length gradient - 1 else nat idx)"

section \<open>Samplers\<close>

definition defaultWidth :: "int \<Rightarrow> int" where
  "defaultWidth targetWidth = (if targetWidth \<le> 0 then 80 else targetWidth)"

definition defaultHeight :: "int \<Rightarrow> int" where
  "defaultHeight targetHeight = (if targetHeight \<le> 0 then 24 else targetHeight)"

definition scale :: "int \<Rightarrow> int \<Rightarrow> rat" where
  "scale extent target = fl (float64 extent / float64 target)"

definition sampled :: "int \<Rightarrow> rat \<Rightarrow> int \<Rightarrow> int" where
  "sampled minimum factor i = minimum + go_trunc (fl (float64 i * factor))"

definition im_width :: "Image \<Rightarrow> int" where
  "im_width img = im_MaxX img - im_MinX img"

definition im_height :: "Image \<Rightarrow> int" where
  "im_height img = im_MaxY img - im_MinY img"

definition makeGrid :: "int \<Rightarrow> int \<Rightarrow> (int \<Rightarrow> int \<Rightarrow> Cell) \<Rightarrow> grid" where
  "makeGrid w h cell = map (\<lambda>y. map (\<lambda>x. cell (int x) (int y)) [0..<nat w]) [0..<nat h]"

definition renderASCIICells :: "string \<Rightarrow> Image \<Rightarrow> int \<Rightarrow> int \<Rightarrow> grid" where
  "renderASCIICells gradient img targetWidth targetHeight =
     (let w = defaultWidth targetWidth; h = defaultHeight targetHeight;
          xScale = scale (im_width img) w; yScale = scale (im_height img) h
      in makeGrid w h (\<lambda>x y.
           let c = im_At img (sampled (im_MinX img) xScale x) (sampled (im_MinY img) yScale y)
           in \<lparr>CharB = gradient ! gradientIndex gradient c, Fg = -1, Bg = -1\<rparr>))"

definition renderColor256Cells :: "string \<Rightarrow> Image \<Rightarrow> int \<Rightarrow> int \<Rightarrow> grid" where
  "renderColor256Cells gradient img targetWidth targetHeight =
     (let w = defaultWidth targetWidth; h = defaultHeight targetHeight;
          xScale = scale (im_width img) w; yScale = scale (im_height img) h
      in makeGrid w h (\<lambda>x y.
           let c = im_At img (sampled (im_MinX img) xScale x) (sampled (im_MinY img) yScale y)
           in \<lparr>CharB = gradient ! gradientIndex gradient c, Fg = rgbToANSI256 c, Bg = -1\<rparr>))"

definition renderHalfBlockCells :: "Image \<Rightarrow> int \<Rightarrow> int \<Rightarrow> grid" where
  "renderHalfBlockCells img targetWidth targetHeight =
     (let w = defaultWidth targetWidth; h = defaultHeight targetHeight; virtualHeight = h * 2;
          xScale = scale (im_width img) w; yScale = scale (im_height img) virtualHeight
      in makeGrid w h (\<lambda>x y.
           let srcX = sampled (im_MinX img) xScale x;
               top = im_At img srcX (sampled (im_MinY img) yScale (y * 2));
               bottom = im_At img srcX (sampled (im_MinY img) yScale (y * 2 + 1))
           in \<lparr>CharB = CHR 0x00, Fg = rgbToANSI256 bottom, Bg = rgbToANSI256 top\<rparr>))"

section \<open>The renderer\<close>

record ColorRenderer =
  cr_mode :: RenderMode
  cr_gradient :: string
  cr_stabiliser :: "Stabiliser option"
  cr_delta :: "DeltaEncoder option"

definition NewColorRenderer :: "RenderMode \<Rightarrow> ColorRenderer" where
  "NewColorRenderer mode =
     \<lparr>cr_mode = mode, cr_gradient = DefaultGradient, cr_stabiliser = Some (NewStabiliser 1),
      cr_delta = Some (NewDeltaEncoder mode 30)\<rparr>"

definition SetMode :: "RenderMode \<Rightarrow> ColorRenderer \<Rightarrow> ColorRenderer" where
  "SetMode mode r =
     r\<lparr>cr_mode := mode,
       cr_delta := map_option (\<lambda>e. encoder_Reset (e\<lparr>e_mode := mode\<rparr>)) (cr_delta r),
       cr_stabiliser := map_option stabiliser_Reset (cr_stabiliser r)\<rparr>"

definition renderer_Reset :: "ColorRenderer \<Rightarrow> ColorRenderer" where
  "renderer_Reset r =
     r\<lparr>cr_delta := map_option encoder_Reset (cr_delta r), cr_stabiliser := map_option stabiliser_Reset (cr_stabiliser r)\<rparr>"

definition renderCells :: "ColorRenderer \<Rightarrow> Image \<Rightarrow> int \<Rightarrow> int \<Rightarrow> grid" where
  "renderCells r img w h =
     (if cr_mode r = ModeASCII then renderASCIICells (cr_gradient r) img w h
      else if cr_mode r = ModeColor256 then renderColor256Cells (cr_gradient r) img w h
      else if cr_mode r = ModeHalfBlock then renderHalfBlockCells img w h
      else [])"

definition serialise :: "ColorRenderer \<Rightarrow> grid \<Rightarrow> string" where
  "serialise r cells =
     (if cr_mode r = ModeASCII then built (serialiseASCII cells)
      else if cr_mode r = ModeColor256 then built (serialiseColor256 cells)
      else if cr_mode r = ModeHalfBlock then built (serialiseHalfBlock cells)
      else [])"

definition stabilised :: "ColorRenderer \<Rightarrow> grid \<Rightarrow> grid \<times> ColorRenderer" where
  "stabilised r cells =
     (case cr_stabiliser r of
        None \<Rightarrow> (cells, r)
      | Some s \<Rightarrow> (case Stabilise s cells of (cells', s') \<Rightarrow> (cells', r\<lparr>cr_stabiliser := Some s'\<rparr>)))"

definition Convert :: "Image \<Rightarrow> int \<Rightarrow> int \<Rightarrow> ColorRenderer \<Rightarrow> string \<times> ColorRenderer" where
  "Convert img w h r = (case stabilised r (renderCells r img w h) of (cells, r1) \<Rightarrow> (serialise r1 cells, r1))"

definition ConvertForSend :: "Image \<Rightarrow> int \<Rightarrow> int \<Rightarrow> ColorRenderer \<Rightarrow> (string \<times> string) \<times> ColorRenderer" where
  "ConvertForSend img w h r =
     (case stabilised r (renderCells r img w h) of (cells, r1) \<Rightarrow>
        (case cr_delta r1 of
           None \<Rightarrow> ((serialise r1 cells, serialise r1 cells), r1)
         | Some e \<Rightarrow> (case Encode e cells of (s, e') \<Rightarrow> ((serialise r1 cells, s), r1\<lparr>cr_delta := Some e'\<rparr>))))"

definition ConvertCells :: "Image \<Rightarrow> int \<Rightarrow> int \<Rightarrow> ColorRenderer \<Rightarrow> (grid \<times> string) \<times> ColorRenderer" where
  "ConvertCells img w h r =
     (case stabilised r (renderCells r img w h) of (cells, r1) \<Rightarrow>
        (case cr_delta r1 of
           None \<Rightarrow> ((cells, serialise r1 cells), r1)
         | Some e \<Rightarrow> (case Encode e cells of (s, e') \<Rightarrow> ((cells, s), r1\<lparr>cr_delta := Some e'\<rparr>))))"

section \<open>Colours and characters are in range\<close>

definition channels_ok :: "u32 \<times> u32 \<times> u32 \<Rightarrow> bool" where
  "channels_ok c \<longleftrightarrow> (case c of (r, g, b) \<Rightarrow> r \<le> 65535 \<and> g \<le> 65535 \<and> b \<le> 65535)"

lemma high_byte: "(r::u32) \<le> 65535 \<Longrightarrow> 0 \<le> uint (drop_bit 8 r) \<and> uint (drop_bit 8 r) \<le> 255"
proof -
  assume "r \<le> 65535"
  then have "uint r \<le> 65535" by (simp add: word_le_def)
  then have "0 \<le> uint r div 256" "uint r div 256 \<le> 255" by (simp_all add: pos_imp_zdiv_nonneg_iff)
  then show ?thesis by (simp add: drop_bit_eq_div uint_div)
qed

lemma rgbToANSI256_range:
  assumes "channels_ok c"
  shows "16 \<le> rgbToANSI256 c \<and> rgbToANSI256 c \<le> 255"
proof -
  obtain r g b where c: "c = (r, g, b)" by (cases c)
  let ?q = "\<lambda>v. math_Round (fl (fl (float64 v / 255) * 5))"
  have q: "0 \<le> ?q v \<and> ?q v \<le> 5" if "0 \<le> v" "v \<le> 255" for v
    using scaled_round_range [of v 255 255 5 5] that by simp
  have grey: "0 \<le> math_Round (fl (fl (float64 (v - 8) / 247) * 24)) \<and> math_Round (fl (fl (float64 (v - 8) / 247) * 24)) \<le> 23"
    if "8 \<le> v" "v \<le> 248" for v
    using scaled_round_range [of "v - 8" 240 247 24 23] that by simp
  note bytes = high_byte [of r] high_byte [of g] high_byte [of b]
  show ?thesis
    using assms bytes q [of "uint (drop_bit 8 r)"] q [of "uint (drop_bit 8 g)"] q [of "uint (drop_bit 8 b)"] grey [of "uint (drop_bit 8 r)"]
      grey [of "uint (drop_bit 8 b)"]
    by (simp add: c rgbToANSI256_def channels_ok_def Let_def)
qed

lemma gradientIndex_less: "gradient \<noteq> [] \<Longrightarrow> gradientIndex gradient c < length gradient"
  by (cases c) (auto simp: gradientIndex_def Let_def)

lemma default_gradient: "c \<in> set DefaultGradient \<Longrightarrow> 32 \<le> byte_val c \<and> byte_val c \<le> 126"
  by (auto simp: DefaultGradient_def byte_val_def)

section \<open>Grids are well-formed\<close>

definition image_ok :: "Image \<Rightarrow> bool" where
  "image_ok img \<longleftrightarrow> (\<forall>x y. channels_ok (im_At img x y))"

lemma makeGrid_wf:
  assumes "validMode mode" "0 < w" "w \<le> 100" "0 < h" "h \<le> 30" "\<And>x y. valid_cell mode (cell x y)"
  shows "wf_grid mode w h (makeGrid w h cell)"
  using assms by (auto simp: wf_grid_def makeGrid_def list_all_iff)

lemma valid_gradient_cell:
  assumes "-1 \<le> fg" "fg \<le> 255"
  shows "valid_cell mode \<lparr>CharB = DefaultGradient ! gradientIndex DefaultGradient c, Fg = fg, Bg = -1\<rparr>"
proof -
  have "DefaultGradient \<noteq> []" by (simp add: DefaultGradient_def)
  then have "DefaultGradient ! gradientIndex DefaultGradient c \<in> set DefaultGradient" by (simp add: gradientIndex_less)
  from default_gradient [OF this] assms show ?thesis by (simp add: valid_cell_def)
qed

lemma renderCells_wf:
  assumes img: "image_ok img" and mode: "validMode (cr_mode r)" and grad: "cr_gradient r = DefaultGradient"
    and dim: "0 < w" "w \<le> 100" "0 < h" "h \<le> 30"
  shows "wf_grid (cr_mode r) w h (renderCells r img w h)"
proof -
  have col: "-1 \<le> rgbToANSI256 (im_At img x y) \<and> rgbToANSI256 (im_At img x y) \<le> 255" for x y
    using rgbToANSI256_range [of "im_At img x y"] img by (simp add: image_ok_def)
  have size: "defaultWidth w = w" "defaultHeight h = h" using dim by (simp_all add: defaultWidth_def defaultHeight_def)
  consider "cr_mode r = ModeASCII" | "cr_mode r = ModeColor256" | "cr_mode r = ModeHalfBlock"
    using mode by (simp add: mode_defs) arith
  then show ?thesis
  proof cases
    case 1
    show ?thesis unfolding renderCells_def renderASCIICells_def Let_def size grad if_P [OF 1]
      by (rule makeGrid_wf [OF mode dim]) (simp add: valid_gradient_cell)
  next
    case 2
    then have "\<not> cr_mode r = ModeASCII" by (simp add: mode_defs)
    with 2 show ?thesis unfolding renderCells_def renderColor256Cells_def Let_def size grad
      by (simp, intro makeGrid_wf valid_gradient_cell) (use mode dim col in auto)
  next
    case 3
    then have "\<not> cr_mode r = ModeASCII" "\<not> cr_mode r = ModeColor256" by (simp_all add: mode_defs)
    with 3 show ?thesis unfolding renderCells_def renderHalfBlockCells_def Let_def size
      by (simp, intro makeGrid_wf) (use mode dim col in \<open>auto simp: valid_cell_def byte_val_def\<close>)
  qed
qed

text \<open>The noise filter keeps a well-formed grid well-formed when its baseline is.\<close>

definition st_ok :: "RenderMode \<Rightarrow> Stabiliser \<Rightarrow> bool" where
  "st_ok mode s \<longleftrightarrow> (case st_prev s of None \<Rightarrow> True | Some prev \<Rightarrow> wf_grid mode (st_w s) (st_h s) prev)"

lemma Stabilise_wf:
  assumes s: "st_ok mode s" and g: "wf_grid mode w h g" and step: "Stabilise s g = (out, s')"
  shows "wf_grid mode w h out \<and> st_ok mode s'"
proof -
  have dim: "int (length g) = h" "0 < h" "int (length (hd g)) = w" using g by (cases g; auto simp: wf_grid_def)+
  show ?thesis
  proof (cases "st_prev s = None \<or> st_w s \<noteq> w \<or> st_h s \<noteq> h")
    case True
    then have "out = g" "s' = s\<lparr>st_prev := Some g, st_w := w, st_h := h\<rparr>"
      using step dim by (auto simp: Stabilise_def split: option.splits)
    with g show ?thesis by (simp add: st_ok_def)
  next
    case False
    then obtain prev where prev: "st_prev s = Some prev" "st_w s = w" "st_h s = h" by auto
    let ?out = "map (\<lambda>y. map (\<lambda>x. stabiliseCell (st_threshold s) (g ! y ! x) (prev ! y ! x)) [0..<nat w]) [0..<nat h]"
    have out: "out = ?out" "s' = s\<lparr>st_prev := Some ?out\<rparr>" using step dim prev by (auto simp: Stabilise_def Let_def)
    have wf: "wf_grid mode w h prev" using s prev by (simp add: st_ok_def)
    have cell: "valid_cell mode (k ! y ! x)" if "wf_grid mode w h k" "y < nat h" "x < nat w" for k x y
      using that by (auto simp: wf_grid_def list_all_length)
    have "valid_cell mode (stabiliseCell (st_threshold s) (g ! y ! x) (prev ! y ! x))" if "y < nat h" "x < nat w" for x y
      using cell [OF g that] cell [OF wf that] by (simp add: stabiliseCell_def)
    then have "wf_grid mode w h ?out" using g by (auto simp: wf_grid_def list_all_iff)
    with out prev show ?thesis by (simp add: st_ok_def)
  qed
qed

section \<open>From the camera to the other end\<close>

datatype renderer_op = CameraFrame Image | ChangeMode RenderMode | Restart

definition op_ok :: "renderer_op \<Rightarrow> bool" where
  "op_ok x \<longleftrightarrow> (case x of CameraFrame img \<Rightarrow> image_ok img | ChangeMode mode \<Rightarrow> validMode mode | Restart \<Rightarrow> True)"

text \<open>What the sender shows of itself for every camera frame, with the render mode, and what it sends.\<close>

fun render_all :: "int \<Rightarrow> int \<Rightarrow> renderer_op list \<Rightarrow> ColorRenderer \<Rightarrow> ((grid \<times> RenderMode) \<times> string) list" where
  "render_all w h [] r = []"
| "render_all w h (CameraFrame img # xs) r =
     (case ConvertCells img w h r of ((cells, sent), r') \<Rightarrow> ((cells, cr_mode r), sent) # render_all w h xs r')"
| "render_all w h (ChangeMode mode # xs) r = render_all w h xs (SetMode mode r)"
| "render_all w h (Restart # xs) r = render_all w h xs (renderer_Reset r)"

fun decode_each :: "string list \<Rightarrow> DeltaDecoder \<Rightarrow> (frame_error, grid \<times> RenderMode) res list" where
  "decode_each [] d = []"
| "decode_each (s # ss) d = (case DecodeCells d s of (x, d') \<Rightarrow> x # decode_each ss d')"

definition renderer_ok :: "ColorRenderer \<Rightarrow> DeltaDecoder \<Rightarrow> bool" where
  "renderer_ok r d \<longleftrightarrow>
     validMode (cr_mode r) \<and> cr_gradient r = DefaultGradient \<and>
     (\<exists>s e. cr_stabiliser r = Some s \<and> cr_delta r = Some e \<and> st_ok (cr_mode r) s \<and> e_mode e = cr_mode r \<and> synced e d)"

lemma renderer_ok_reset:
  "renderer_ok r d \<Longrightarrow> renderer_ok (renderer_Reset r) d"
  "renderer_ok r d \<Longrightarrow> validMode mode \<Longrightarrow> renderer_ok (SetMode mode r) d"
  by (auto simp: renderer_ok_def renderer_Reset_def SetMode_def st_ok_def stabiliser_Reset_def encoder_Reset_def synced_def)

lemma ConvertCells_ok:
  assumes r: "renderer_ok r d" and img: "image_ok img" and dim: "0 < w" "w \<le> 100" "0 < h" "h \<le> 30"
    and c: "ConvertCells img w h r = ((cells, sent), r')"
  shows "\<exists>d'. DecodeCells d sent = (Inr (cells, cr_mode r), d') \<and> renderer_ok r' d'"
proof -
  let ?m = "cr_mode r"
  obtain s e where se: "cr_stabiliser r = Some s" "cr_delta r = Some e" "st_ok ?m s" "e_mode e = ?m" "synced e d"
    and mode: "validMode ?m" and grad: "cr_gradient r = DefaultGradient" using r by (auto simp: renderer_ok_def)
  obtain out s' where st: "Stabilise s (renderCells r img w h) = (out, s')" by fastforce
  from Stabilise_wf [OF se(3) renderCells_wf [OF img mode grad dim] st]
  have wf: "wf_grid ?m w h out" "st_ok ?m s'" by blast+
  obtain enc e' where en: "Encode e out = (enc, e')" by fastforce
  have sent: "cells = out" "sent = enc" "r' = r\<lparr>cr_stabiliser := Some s', cr_delta := Some e'\<rparr>"
    using c se(1,2) st en by (auto simp: ConvertCells_def stabilised_def)
  have "enc \<noteq> []" using Encode_empty [of e out e'] en wf(1) se(4) by auto
  from Encode_synced [OF se(5) en this] wf(2) mode grad se(4) show ?thesis by (auto simp: sent renderer_ok_def)
qed

lemma render_all_decoded:
  assumes dim: "0 < w" "w \<le> 100" "0 < h" "h \<le> 30"
  shows "renderer_ok r d \<Longrightarrow> list_all op_ok xs \<Longrightarrow>
    decode_each (map snd (render_all w h xs r)) d = map (Inr \<circ> fst) (render_all w h xs r)"
proof (induction xs arbitrary: r d)
  case (Cons x xs)
  show ?case
  proof (cases x)
    case (CameraFrame img)
    obtain cells sent r' where c: "ConvertCells img w h r = ((cells, sent), r')" by (metis prod.collapse)
    have "image_ok img" using Cons.prems CameraFrame by (simp add: op_ok_def)
    from ConvertCells_ok [OF Cons.prems(1) this dim c] obtain d' where
      "DecodeCells d sent = (Inr (cells, cr_mode r), d')" "renderer_ok r' d'" by blast
    with Cons.IH [of r' d'] Cons.prems(2) CameraFrame c show ?thesis by simp
  qed (use Cons in \<open>simp_all add: op_ok_def renderer_ok_reset\<close>)
qed simp

section \<open>Properties\<close>

text \<open>C5: The other participants see what the sender sees of itself. For any sequence of camera
  images, render-mode changes and restarts, and whatever state the receiver's decoder is in, every
  image makes a frame that is sent, and decoding the frames in order gives exactly the
  filtered cells that the sender shows locally, in the mode it shows them in.\<close>

theorem camera_to_viewer:
  assumes "validMode mode" and "list_all op_ok xs"
  shows "decode_each (map snd (render_all MaxFrameWidth MaxFrameHeight xs (NewColorRenderer mode))) d =
    map (Inr \<circ> fst) (render_all MaxFrameWidth MaxFrameHeight xs (NewColorRenderer mode))"
proof -
  have "renderer_ok (NewColorRenderer mode) d"
    using assms(1) by (simp add: renderer_ok_def NewColorRenderer_def st_ok_def NewStabiliser_def NewDeltaEncoder_def synced_def)
  from render_all_decoded [OF _ _ _ _ this assms(2)] show ?thesis by (simp add: frame_limits)
qed

definition black_white :: Image where
  "black_white = \<lparr>im_MinX = 0, im_MinY = 0, im_MaxX = 2, im_MaxY = 1, im_At = (\<lambda>x y. if x < 1 then (0, 0, 0) else (65535, 65535, 65535))\<rparr>"

theorem camera_to_viewer_witness:
  "decode_each (map snd (render_all MaxFrameWidth MaxFrameHeight [CameraFrame black_white, ChangeMode ModeASCII, CameraFrame black_white]
      (NewColorRenderer ModeHalfBlock))) NewDeltaDecoder =
   map (Inr \<circ> fst) (render_all MaxFrameWidth MaxFrameHeight [CameraFrame black_white, ChangeMode ModeASCII, CameraFrame black_white]
      (NewColorRenderer ModeHalfBlock))"
  by (rule camera_to_viewer) (simp_all add: mode_defs op_ok_def image_ok_def channels_ok_def black_white_def)

lemma sampled_in_bounds:
  assumes "0 < extent" and "extent < 2 ^ 53" and "0 < target" and "target \<le> 2 ^ 50" and "0 \<le> i" and "i < target"
  shows "minimum \<le> sampled minimum (scale extent target) i \<and> sampled minimum (scale extent target) i < minimum + extent"
  using scale_in_range [OF assms] by (simp add: sampled_def scale_def)

lemma makeGrid_cong:
  "(\<And>x y. 0 \<le> x \<Longrightarrow> x < w \<Longrightarrow> 0 \<le> y \<Longrightarrow> y < h \<Longrightarrow> cell x y = cell' x y) \<Longrightarrow> makeGrid w h cell = makeGrid w h cell'"
  by (simp add: makeGrid_def)

text \<open>Two images that agree within their common bounds.\<close>

definition same_pixels :: "Image \<Rightarrow> Image \<Rightarrow> bool" where
  "same_pixels img img' \<longleftrightarrow>
     im_MinX img' = im_MinX img \<and> im_MinY img' = im_MinY img \<and> im_MaxX img' = im_MaxX img \<and> im_MaxY img' = im_MaxY img \<and>
     (\<forall>x y. im_MinX img \<le> x \<and> x < im_MaxX img \<and> im_MinY img \<le> y \<and> y < im_MaxY img \<longrightarrow> im_At img' x y = im_At img x y)"

lemma same_pixels_at:
  assumes "same_pixels img img'" and "0 < im_width img" and "im_width img < 2 ^ 53" and "0 < im_height img" and "im_height img < 2 ^ 53"
    and "w \<le> 2 ^ 50" and "h \<le> 2 ^ 50" and "0 \<le> x" and "x < w" and "0 \<le> y" and "y < h"
  shows "im_At img' (sampled (im_MinX img) (scale (im_width img) w) x) (sampled (im_MinY img) (scale (im_height img) h) y) =
    im_At img (sampled (im_MinX img) (scale (im_width img) w) x) (sampled (im_MinY img) (scale (im_height img) h) y)"
  using assms(1) sampled_in_bounds [of "im_width img" w x "im_MinX img"] sampled_in_bounds [of "im_height img" h y "im_MinY img"] assms(2-)
  by (simp add: same_pixels_def im_width_def im_height_def)

text \<open>C39: Rendering never reads outside the image. In every render mode, with 64-bit floating-point
  rounding and the default target sizes, the cells depend only on the pixels within the image's
  bounds: whatever is outside, the rendered grid is the same, for every image of at least one pixel
  and every target size in use.\<close>

theorem render_within_image:
  assumes "same_pixels img img'" and "0 < im_width img" and "im_width img < 2 ^ 53" and "0 < im_height img" and "im_height img < 2 ^ 53"
    and "w \<le> 2 ^ 49" and "h \<le> 2 ^ 49"
  shows "renderCells r img' w h = renderCells r img w h"
proof -
  have size: "defaultWidth w \<le> 2 ^ 50" "defaultHeight h \<le> 2 ^ 50" "defaultHeight h * 2 \<le> 2 ^ 50"
    using assms(6,7) by (simp_all add: defaultWidth_def defaultHeight_def)
  have b: "im_MinX img' = im_MinX img" "im_MinY img' = im_MinY img" "im_width img' = im_width img" "im_height img' = im_height img"
    using assms(1) by (simp_all add: same_pixels_def im_width_def im_height_def)
  note at = same_pixels_at [OF assms(1-5) size(1)]
  have "renderASCIICells g img' w h = renderASCIICells g img w h" for g
    unfolding renderASCIICells_def Let_def b by (rule makeGrid_cong) (simp add: at [OF size(2)])
  moreover have "renderColor256Cells g img' w h = renderColor256Cells g img w h" for g
    unfolding renderColor256Cells_def Let_def b by (rule makeGrid_cong) (simp add: at [OF size(2)])
  moreover have "renderHalfBlockCells img' w h = renderHalfBlockCells img w h"
    unfolding renderHalfBlockCells_def Let_def b by (rule makeGrid_cong) (simp add: at [OF size(3)])
  ultimately show ?thesis by (simp add: renderCells_def)
qed

theorem render_within_image_witness:
  "renderCells (NewColorRenderer ModeHalfBlock) (black_white\<lparr>im_At := \<lambda>x y. if 0 \<le> x \<and> x < 2 \<and> y = 0 then im_At black_white x y else (1, 2, 3)\<rparr>) 100 30 =
   renderCells (NewColorRenderer ModeHalfBlock) black_white 100 30"
  by (rule render_within_image) (auto simp: same_pixels_def black_white_def im_width_def im_height_def)

end
