(* ===== verification/Go_Unicode.thy ===== *)
theory Go_Unicode
  imports Go_Strings
begin

text \<open>
  Go's \<^verbatim>\<open>unicode\<close> predicates, UTF-8 encoding and \<^verbatim>\<open>strconv.Quote\<close>. Below
  U+0100 the predicates are the Latin-1 property table; above it they are the Unicode character
  database, which is data of the Go release and therefore a parameter (\<open>unicode_tables\<close>).
  The main lemmas: decoding undoes encoding, and trimming a text of valid code points is
  trimming the list of code points.
\<close>

section \<open>Predicates\<close>

record unicode_tables =
  ut_print :: "nat \<Rightarrow> bool"
  ut_letter :: "nat \<Rightarrow> bool"
  ut_digit :: "nat \<Rightarrow> bool"
  ut_mark :: "nat \<Rightarrow> bool"

definition is_control :: "nat \<Rightarrow> bool" where
  "is_control r \<longleftrightarrow> r < 32 \<or> 127 \<le> r \<and> r < 160"

definition is_print :: "unicode_tables \<Rightarrow> nat \<Rightarrow> bool" where
  "is_print U r \<longleftrightarrow>
     (if r \<le> 255 then 32 \<le> r \<and> r \<le> 126 \<or> 161 \<le> r \<and> r \<noteq> 173 else ut_print U r)"

definition is_letter :: "unicode_tables \<Rightarrow> nat \<Rightarrow> bool" where
  "is_letter U r \<longleftrightarrow>
     (if r \<le> 255 then
        65 \<le> r \<and> r \<le> 90 \<or> 97 \<le> r \<and> r \<le> 122 \<or> r = 170 \<or> r = 181 \<or> r = 186 \<or>
        192 \<le> r \<and> r \<noteq> 215 \<and> r \<noteq> 247
      else ut_letter U r)"

definition is_unicode_digit :: "unicode_tables \<Rightarrow> nat \<Rightarrow> bool" where
  "is_unicode_digit U r \<longleftrightarrow> (if r \<le> 255 then 48 \<le> r \<and> r \<le> 57 else ut_digit U r)"

definition is_mark :: "unicode_tables \<Rightarrow> nat \<Rightarrow> bool" where
  "is_mark U r \<longleftrightarrow> 255 < r \<and> ut_mark U r"

section \<open>Encoding\<close>

definition valid_rune :: "nat \<Rightarrow> bool" where
  "valid_rune r \<longleftrightarrow> r < 55296 \<or> 57344 \<le> r \<and> r \<le> 1114111"

definition encode_rune :: "nat \<Rightarrow> string" where
  "encode_rune r0 =
     (let r = (if valid_rune r0 then r0 else rune_error)
      in if r < 128 then [char_of r]
         else if r < 2048 then [char_of (192 + r div 64), char_of (128 + r mod 64)]
         else if r < 65536 then
           [char_of (224 + r div 4096), char_of (128 + r div 64 mod 64), char_of (128 + r mod 64)]
         else
           [char_of (240 + r div 262144), char_of (128 + r div 4096 mod 64),
            char_of (128 + r div 64 mod 64), char_of (128 + r mod 64)])"

definition rune_values :: "string \<Rightarrow> nat list" where
  "rune_values s = map fst (runes s)"

section \<open>Quoting\<close>

definition hex_digit :: "nat \<Rightarrow> char" where
  "hex_digit n = ''0123456789abcdef'' ! (n mod 16)"

definition hex_digits :: "nat \<Rightarrow> nat \<Rightarrow> string" where
  "hex_digits width n = map (\<lambda>i. hex_digit (n div 16 ^ i)) (rev [0..<width])"

definition quote_rune :: "unicode_tables \<Rightarrow> nat \<times> string \<Rightarrow> string" where
  "quote_rune U p =
     (case p of (r, bs) \<Rightarrow>
        if r = rune_error \<and> length bs = 1 then CHR 92 # CHR ''x'' # hex_digits 2 (byte_val (hd bs))
        else if r = 34 \<or> r = 92 then [CHR 92, char_of r]
        else if is_print U r then encode_rune r
        else if r = 7 then [CHR 92, CHR ''a''] else if r = 8 then [CHR 92, CHR ''b'']
        else if r = 12 then [CHR 92, CHR ''f''] else if r = 10 then [CHR 92, CHR ''n'']
        else if r = 13 then [CHR 92, CHR ''r''] else if r = 9 then [CHR 92, CHR ''t'']
        else if r = 11 then [CHR 92, CHR ''v'']
        else if r < 32 \<or> r = 127 then CHR 92 # CHR ''x'' # hex_digits 2 r
        else if r < 65536 then CHR 92 # CHR ''u'' # hex_digits 4 r
        else CHR 92 # CHR ''U'' # hex_digits 8 r)"

definition go_quote :: "unicode_tables \<Rightarrow> string \<Rightarrow> string" where
  "go_quote U s = CHR 34 # concat (map (quote_rune U) (runes s)) @ [CHR 34]"

section \<open>Decoding undoes encoding\<close>

lemma byte_val_of [simp]: "n < 256 \<Longrightarrow> byte_val (char_of n) = n"
  by (simp add: byte_val_def)

lemma decode_encode_1: "r < 128 \<Longrightarrow> decode_rune (encode_rune r @ s) = (r, 1)"
  by (simp add: encode_rune_def valid_rune_def decode_rune_def Let_def)

lemma decode_encode_2:
  assumes "128 \<le> r" "r < 2048"
  shows "decode_rune (encode_rune r @ s) = (r, 2)"
proof -
  from assms have "2 \<le> r div 64" "r div 64 < 32" by (auto simp: div_less_iff_less_mult)
  then have "lead_info (192 + r div 64) = Some (2, 128, 191)" "(192 + r div 64) mod 32 = r div 64"
    "(128 + r mod 64) mod 64 = r mod 64"
    by (auto simp: lead_info_def mod_add_left_eq [of 192, symmetric] mod_add_left_eq [of 128, symmetric])
  with assms \<open>r div 64 < 32\<close> show ?thesis
    by (simp add: encode_rune_def valid_rune_def decode_rune_def Let_def in_range_def)
qed

lemma cont_byte [simp]: "(128 + n mod 64) mod 64 = n mod (64::nat)"
  by (simp add: mod_add_left_eq [of 128, symmetric])

lemma cont_range [simp]: "in_range 128 191 (char_of (128 + n mod (64::nat)))"
proof -
  have "n mod 64 < (64::nat)" by simp
  then show ?thesis by (simp add: in_range_def)
qed

lemma byte_val_cont [simp]: "byte_val (char_of (128 + n mod (64::nat))) = 128 + n mod 64"
proof -
  have "n mod 64 < (64::nat)" by simp
  then show ?thesis by simp
qed

lemma split3: "(n::nat) div 4096 * 4096 + n div 64 mod 64 * 64 + n mod 64 = n"
proof -
  have "n div 64 div 64 * 64 + n div 64 mod 64 = n div 64" by simp
  then have "(n div 4096 * 64 + n div 64 mod 64) * 64 + n mod 64 = n"
    by (simp add: div_mult2_eq [of n 64 64, simplified, symmetric])
  then show ?thesis by (simp add: algebra_simps)
qed

lemma split4: "(n::nat) div 262144 * 262144 + n div 4096 mod 64 * 4096 + n div 64 mod 64 * 64 + n mod 64 = n"
proof -
  have "n div 4096 div 64 * 64 + n div 4096 mod 64 = n div 4096" by simp
  then have "n div 262144 * 64 + n div 4096 mod 64 = n div 4096"
    by (simp add: div_mult2_eq [of n 4096 64, simplified, symmetric])
  then have "n div 262144 * 262144 + n div 4096 mod 64 * 4096 = n div 4096 * 4096"
    by (simp add: algebra_simps)
  with split3 [of n] show ?thesis by simp
qed

lemma decode_encode_3:
  assumes "2048 \<le> r" "r < 65536" "valid_rune r"
  shows "decode_rune (encode_rune r @ s) = (r, 3)"
proof -
  define hi where "hi = r div 4096"
  define mid where "mid = r div 64 mod 64"
  have mid: "mid < 64" by (simp add: mid_def)
  have hi: "hi < 16" using assms by (simp add: hi_def div_less_iff_less_mult)
  have val: "hi * 4096 + mid * 64 + r mod 64 = r" using split3 [of r] by (simp add: hi_def mid_def)
  have low: "r mod 64 < 64" by simp
  obtain lo up where info: "lead_info (224 + hi) = Some (3, lo, up)" and rng: "lo \<le> 128 + mid" "128 + mid \<le> up"
  proof (cases "hi = 0")
    case True
    with val assms(1) low have "32 \<le> mid" by linarith
    with True mid that show ?thesis by (simp add: lead_info_def)
  next
    case False
    show ?thesis
    proof (cases "hi = 13")
      case True
      with val assms low mid have "mid < 32" by (auto simp: valid_rune_def)
      with True that show ?thesis by (simp add: lead_info_def)
    next
      case False
      with \<open>hi \<noteq> 0\<close> hi mid that show ?thesis by (simp add: lead_info_def)
    qed
  qed
  have "(224 + hi) mod 16 = hi" using hi by (simp add: mod_add_left_eq [of 224, symmetric])
  moreover have "(128 + mid) mod 64 = mid" using mid by (simp add: mod_add_left_eq [of 128, symmetric])
  ultimately show ?thesis
    using assms info rng hi mid val
    by (simp add: encode_rune_def decode_rune_def Let_def in_range_def [of lo up]
        hi_def [symmetric] mid_def [symmetric])
qed

lemma decode_encode_4:
  assumes "65536 \<le> r" "valid_rune r"
  shows "decode_rune (encode_rune r @ s) = (r, 4)"
proof -
  define hi where "hi = r div 262144"
  define mid where "mid = r div 4096 mod 64"
  have mid: "mid < 64" by (simp add: mid_def)
  have hi: "hi < 5" using assms by (simp add: hi_def div_less_iff_less_mult valid_rune_def)
  have val: "hi * 262144 + mid * 4096 + r div 64 mod 64 * 64 + r mod 64 = r"
    using split4 [of r] by (simp add: hi_def mid_def)
  have low: "r div 64 mod 64 < 64" "r mod 64 < 64" by simp_all
  obtain lo up where info: "lead_info (240 + hi) = Some (4, lo, up)" and rng: "lo \<le> 128 + mid" "128 + mid \<le> up"
  proof (cases "hi = 0")
    case True
    with val assms(1) low have "16 \<le> mid" by linarith
    with True mid that show ?thesis by (simp add: lead_info_def)
  next
    case False
    show ?thesis
    proof (cases "hi = 4")
      case True
      with val assms low mid have "mid < 16" by (auto simp: valid_rune_def)
      with True that show ?thesis by (simp add: lead_info_def)
    next
      case False
      with \<open>hi \<noteq> 0\<close> hi mid that show ?thesis by (simp add: lead_info_def)
    qed
  qed
  have "(240 + hi) mod 8 = hi" using hi by (simp add: mod_add_left_eq [of 240, symmetric])
  moreover have "(128 + mid) mod 64 = mid" using mid by (simp add: mod_add_left_eq [of 128, symmetric])
  ultimately show ?thesis
    using assms info rng hi mid val
    by (simp add: encode_rune_def decode_rune_def Let_def in_range_def [of lo up]
        hi_def [symmetric] mid_def [symmetric])
qed

lemma length_encode_rune:
  "valid_rune r \<Longrightarrow> length (encode_rune r) =
     (if r < 128 then 1 else if r < 2048 then 2 else if r < 65536 then 3 else 4)"
  by (simp add: encode_rune_def Let_def)

lemma encode_rune_nonempty [simp]: "encode_rune r \<noteq> []"
  by (simp add: encode_rune_def Let_def)

lemma decode_encode:
  assumes "valid_rune r"
  shows "decode_rune (encode_rune r @ s) = (r, length (encode_rune r))"
  using assms decode_encode_1 [of r s] decode_encode_2 [of r s] decode_encode_3 [of r s]
    decode_encode_4 [of r s]
  by (simp add: length_encode_rune not_less)

lemma runes_encode [simp]: "valid_rune r \<Longrightarrow> runes (encode_rune r @ s) = (r, encode_rune r) # runes s"
proof -
  assume r: "valid_rune r"
  obtain c cs where e: "encode_rune r = c # cs" by (cases "encode_rune r") simp_all
  with decode_encode [OF r, of s] show ?thesis by (simp add: runes.simps(2))
qed

lemma runes_encode_list:
  "list_all valid_rune rs \<Longrightarrow>
   runes (concat (map encode_rune rs) @ s) = map (\<lambda>r. (r, encode_rune r)) rs @ runes s"
  by (induction rs) simp_all

lemma rune_error_valid [simp]: "valid_rune rune_error"
  by (simp add: valid_rune_def rune_error_def)

lemma two_byte_valid: "valid_rune ((a mod 32) * 64 + b mod 64)"
proof -
  have "a mod 32 < 32" "b mod 64 < 64" by simp_all
  then show ?thesis unfolding valid_rune_def by linarith
qed

lemma cont_mod: "128 \<le> b \<Longrightarrow> b \<le> 191 \<Longrightarrow> b mod 64 = b - (128::nat)"
proof -
  assume b: "128 \<le> b" "b \<le> 191"
  define k where "k = b - 128"
  have "b = k + 2 * 64" "k < 64" using b by (simp_all add: k_def)
  then show ?thesis using mod_mult_self1 [of k 2 64] by simp
qed

lemma three_byte_valid:
  assumes info: "lead_info a = Some (3, lo, hi)" and b: "lo \<le> b" "b \<le> hi"
  shows "valid_rune ((a mod 16) * 4096 + (b mod 64) * 64 + c mod 64)"
proof (cases "a = 237")
  case True
  with info b have "128 \<le> b" "b \<le> 159" by (simp_all add: lead_info_def)
  then have "b mod 64 < 32" by (simp add: cont_mod)
  moreover have "c mod 64 < 64" by simp
  moreover have "a mod 16 = 13" using True by simp
  ultimately show ?thesis unfolding valid_rune_def by linarith
next
  case False
  with info have "a mod 16 \<noteq> 13"
    by (auto simp: lead_info_def split: if_splits) presburger
  then have "a mod 16 < 13 \<or> 14 \<le> a mod 16 \<and> a mod 16 < 16" by auto
  moreover have "c mod 64 < 64" "b mod 64 < 64" by simp_all
  ultimately show ?thesis unfolding valid_rune_def by linarith
qed

lemma four_byte_valid:
  assumes info: "lead_info a = Some (4, lo, hi)" and b: "lo \<le> b" "b \<le> hi"
  shows "valid_rune ((a mod 8) * 262144 + (b mod 64) * 4096 + (c mod 64) * 64 + d mod 64)"
proof (cases "a mod 8")
  case 0
  with info have "a = 240" by (auto simp: lead_info_def split: if_splits)
  with info b have "144 \<le> b" "b \<le> 191" by (simp_all add: lead_info_def)
  then have "16 \<le> b mod 64" "b mod 64 < 64" by (simp_all add: cont_mod)
  moreover have "c mod 64 < 64" "d mod 64 < 64" by simp_all
  ultimately show ?thesis unfolding valid_rune_def 0 by linarith
next
  case (Suc n)
  have "a mod 8 < 4 \<or> a = 244 \<and> b \<le> 143 \<and> 128 \<le> b"
    using info b by (auto simp: lead_info_def split: if_splits) presburger
  moreover have "c mod 64 < 64" "d mod 64 < 64" "b mod 64 < 64" by simp_all
  ultimately show ?thesis
  proof (elim disjE conjE)
    assume "a mod 8 < 4"
    with Suc \<open>c mod 64 < 64\<close> \<open>d mod 64 < 64\<close> \<open>b mod 64 < 64\<close> show ?thesis
      unfolding valid_rune_def by linarith
  next
    assume "a = 244" "b \<le> 143" "128 \<le> b"
    then have "b mod 64 < 16" "a mod 8 = 4" by (simp_all add: cont_mod)
    with \<open>c mod 64 < 64\<close> \<open>d mod 64 < 64\<close> show ?thesis unfolding valid_rune_def by linarith
  qed
qed

lemma lead_info_size: "lead_info a = Some (n, lo, hi) \<Longrightarrow> n = 2 \<or> n = 3 \<or> n = 4"
  by (auto simp: lead_info_def split: if_splits)

lemma decode_rune_valid: "valid_rune (fst (decode_rune s))"
proof -
  have small: "k < 128 \<Longrightarrow> valid_rune k" for k by (simp add: valid_rune_def)
  show ?thesis
    by (auto simp: decode_rune_def in_range_def small two_byte_valid dest: lead_info_size
        intro: three_byte_valid four_byte_valid split: list.splits option.splits)
qed

lemma runes_valid: "p \<in> set (runes s) \<Longrightarrow> valid_rune (fst p)"
proof (induction s rule: runes.induct)
  case (2 c cs)
  then show ?case
    using decode_rune_valid [of "c # cs"]
    by (cases "decode_rune (c # cs)") (auto simp: runes.simps(2))
qed simp

lemma lead_two: "lead_info a = Some (2, lo, hi) \<Longrightarrow> 2 \<le> a mod 32"
proof -
  assume "lead_info a = Some (2, lo, hi)"
  then have a: "194 \<le> a" "a \<le> 223" by (auto simp: lead_info_def split: if_splits)
  define k where "k = a - 192"
  have "a = k + 6 * 32" "k < 32" "2 \<le> k" using a by (simp_all add: k_def)
  then show ?thesis using mod_mult_self1 [of k 6 32] by simp
qed

lemma lead_three: "lead_info a = Some (3, lo, hi) \<Longrightarrow> lo \<le> b \<Longrightarrow> b \<le> hi \<Longrightarrow> 1 \<le> a mod 16 \<or> 32 \<le> b mod 64"
proof -
  assume info: "lead_info a = Some (3, lo, hi)" and b: "lo \<le> b" "b \<le> hi"
  then have a: "224 \<le> a" "a \<le> 239" by (auto simp: lead_info_def split: if_splits)
  show ?thesis
  proof (cases "a = 224")
    case True
    with info b have "160 \<le> b" "b \<le> 191" by (simp_all add: lead_info_def)
    then show ?thesis using cont_mod [of b] by linarith
  next
    case False
    define k where "k = a - 224"
    have "a = k + 14 * 16" "k < 16" "1 \<le> k" using a False by (simp_all add: k_def)
    then show ?thesis using mod_mult_self1 [of k 14 16] by simp
  qed
qed

lemma lead_four: "lead_info a = Some (4, lo, hi) \<Longrightarrow> lo \<le> b \<Longrightarrow> b \<le> hi \<Longrightarrow> 1 \<le> a mod 8 \<or> 16 \<le> b mod 64"
proof -
  assume info: "lead_info a = Some (4, lo, hi)" and b: "lo \<le> b" "b \<le> hi"
  then have a: "240 \<le> a" "a \<le> 244" by (auto simp: lead_info_def split: if_splits)
  show ?thesis
  proof (cases "a = 240")
    case True
    with info b have "144 \<le> b" "b \<le> 191" by (simp_all add: lead_info_def)
    then show ?thesis using cont_mod [of b] by linarith
  next
    case False
    define k where "k = a - 240"
    have "a = k + 30 * 8" "k < 8" "1 \<le> k" using a False by (simp_all add: k_def)
    then show ?thesis using mod_mult_self1 [of k 30 8] by simp
  qed
qed

lemma decode_rune_low:
  assumes "fst (decode_rune (c # cs)) < 128"
  shows "byte_val c < 128"
proof (rule ccontr)
  assume high: "\<not> byte_val c < 128"
  show False
  proof (cases "lead_info (byte_val c)")
    case None
    with high assms show False by (simp add: decode_rune_def rune_error_def)
  next
    case (Some p)
    obtain n lo hi where p: "p = (n, lo, hi)" by (cases p)
    note info = Some [unfolded p]
    from lead_info_size [OF info] consider "n = 2" | "n = 3" | "n = 4" by blast
    then show False
    proof cases
      case 1
      with lead_two info have "2 \<le> byte_val c mod 32" by blast
      with high assms info 1 show False
        by (auto simp: decode_rune_def rune_error_def split: list.splits if_splits)
    next
      case 2
      have "1 \<le> byte_val c mod 16 \<or> 32 \<le> byte_val x mod 64" if "in_range lo hi x" for x
        using lead_three info 2 that unfolding in_range_def by blast
      with high assms info 2 show False
        by (fastforce simp: decode_rune_def rune_error_def split: list.splits if_splits)
    next
      case 3
      have "1 \<le> byte_val c mod 8 \<or> 16 \<le> byte_val x mod 64" if "in_range lo hi x" for x
        using lead_four info 3 that unfolding in_range_def by blast
      with high assms info 3 show False
        by (fastforce simp: decode_rune_def rune_error_def split: list.splits if_splits)
    qed
  qed
qed

lemma runes_low: "(r, bs) \<in> set (runes s) \<Longrightarrow> r < 128 \<Longrightarrow> bs = [char_of r]"
proof (induction s rule: runes.induct)
  case (2 c cs)
  obtain k w where d: "decode_rune (c # cs) = (k, w)" by (cases "decode_rune (c # cs)")
  show ?case
  proof (cases "(r, bs) \<in> set (runes (drop (w - 1) cs))")
    case True
    with 2 d show ?thesis by simp
  next
    case False
    with "2.prems"(1) d have rb: "r = k" "bs = c # take (w - 1) cs" by (simp_all add: runes.simps(2))
    with "2.prems"(2) d decode_rune_low [of c cs] have "byte_val c < 128" by simp
    with d rb show ?thesis by (auto simp: decode_rune_def byte_val_def)
  qed
qed simp

section \<open>Trimming\<close>

lemma decode_rune_snoc:
  assumes "byte_val c < 128" "s \<noteq> []"
  shows "decode_rune (s @ [c]) = decode_rune s"
proof -
  have no: "\<not> in_range lo hi c" if "lead_info a = Some (n, lo, hi)" for a n lo hi
    using that assms(1) by (auto simp: lead_info_def in_range_def split: if_splits)
  have no': "\<not> in_range 128 191 c" using assms(1) by (simp add: in_range_def)
  show ?thesis
    using assms(2) no no'
    by (cases s) (auto simp: decode_rune_def split: option.splits list.splits)
qed

lemma decode_rune_width: "s \<noteq> [] \<Longrightarrow> snd (decode_rune s) \<le> length s"
  by (cases s) (auto simp: decode_rune_def split: option.splits list.splits)

lemma runes_snoc:
  assumes "byte_val c < 128"
  shows "runes (s @ [c]) = runes s @ [(byte_val c, [c])]"
proof (induction s rule: runes.induct)
  case 1
  then show ?case using assms by simp
next
  case (2 x cs)
  obtain r w where d: "decode_rune (x # cs) = (r, w)" by (cases "decode_rune (x # cs)")
  then have "w - 1 \<le> length cs" using decode_rune_width [of "x # cs"] by simp
  moreover have "decode_rune (x # cs @ [c]) = (r, w)" using decode_rune_snoc [OF assms, of "x # cs"] d by simp
  ultimately show ?case using 2 [OF d [symmetric]] d by (simp add: runes.simps(2))
qed

lemma trim_space_id:
  assumes "byte_val a < 128" "\<not> is_space (byte_val a)" "byte_val b < 128" "\<not> is_space (byte_val b)"
  shows "go_trim_space (a # s @ [b]) = a # s @ [b]"
proof -
  have r: "runes (a # s @ [b]) = (byte_val a, [a]) # runes s @ [(byte_val b, [b])]"
    using runes_snoc [OF assms(3), of "a # s"] assms(1) by simp
  then have "dropWhile (\<lambda>p. is_space (fst p)) (runes (a # s @ [b])) = runes (a # s @ [b])"
    using assms(2) by simp
  moreover have "drop_while_end (\<lambda>p. is_space (fst p)) (runes (a # s @ [b])) = runes (a # s @ [b])"
    using assms(4) by (simp add: r drop_while_end_def)
  ultimately show ?thesis unfolding go_trim_space_def by (simp add: runes_concat)
qed

end
