(* ===== verification/Go_JSON.thy ===== *)
theory Go_JSON
  imports Go_Unicode
begin

text \<open>
  Go's \<^verbatim>\<open>encoding/json\<close> as the signaling protocol uses it: the scanner and decoder of a
  \<^verbatim>\<open>json.Decoder\<close> with \<^verbatim>\<open>DisallowUnknownFields\<close>, and \<^verbatim>\<open>json.Marshal\<close> with
  its HTML escaping. A decoded value keeps, for every member of an object, the text of its value,
  because a \<^verbatim>\<open>json.RawMessage\<close> field receives that text. The scanner carries fuel;
  \<open>json_fuel\<close> shows that the length of the text is enough, so that running out of fuel is
  never the reason for a rejection. Error texts are not kept.
  Lemmas: what \<open>json_string\<close> writes is read back, a complete value is scanned the same way in
  front of other text, and a value of a struct that is marshalled is decoded to itself.
\<close>

section \<open>Scanning\<close>

datatype json =
    JNull
  | JBool bool
  | JNum string
  | JStr string
  | JArr "json list"
  | JObj "(string \<times> string \<times> json) list"

abbreviation dquote :: char where "dquote \<equiv> CHR 0x22"
abbreviation bslash :: char where "bslash \<equiv> CHR 0x5C"

definition is_json_space :: "char \<Rightarrow> bool" where
  "is_json_space c \<longleftrightarrow> c = CHR '' '' \<or> c = CHR 0x09 \<or> c = CHR 0x0A \<or> c = CHR 0x0D"

definition skip_ws :: "string \<Rightarrow> string" where
  "skip_ws s = dropWhile is_json_space s"

definition hex_val :: "char \<Rightarrow> nat option" where
  "hex_val c =
     (let b = byte_val c
      in if 48 \<le> b \<and> b \<le> 57 then Some (b - 48)
         else if 97 \<le> b \<and> b \<le> 102 then Some (b - 87)
         else if 65 \<le> b \<and> b \<le> 70 then Some (b - 55)
         else None)"

definition hex4 :: "char \<Rightarrow> char \<Rightarrow> char \<Rightarrow> char \<Rightarrow> nat option" where
  "hex4 a b c d =
     (case (hex_val a, hex_val b, hex_val c, hex_val d) of
        (Some w, Some x, Some y, Some z) \<Rightarrow> Some (w * 4096 + x * 256 + y * 16 + z)
      | _ \<Rightarrow> None)"

definition simple_escape :: "char \<Rightarrow> char option" where
  "simple_escape c =
     (if c = dquote then Some dquote
      else if c = bslash then Some bslash
      else if c = CHR ''/'' then Some (CHR ''/'')
      else if c = CHR ''b'' then Some (CHR 0x08)
      else if c = CHR ''f'' then Some (CHR 0x0C)
      else if c = CHR ''n'' then Some (CHR 0x0A)
      else if c = CHR ''r'' then Some (CHR 0x0D)
      else if c = CHR ''t'' then Some (CHR 0x09)
      else None)"

text \<open>The text up to the closing quote of a string, and what follows the quote.\<close>

fun scan_string :: "string \<Rightarrow> (string \<times> string) option" where
  "scan_string [] = None"
| "scan_string (c # cs) =
     (if c = dquote then Some ([], cs)
      else if c = bslash then
        (case cs of
           [] \<Rightarrow> None
         | e # cs1 \<Rightarrow>
             if simple_escape e \<noteq> None then
               map_option (\<lambda>(b, r). (c # e # b, r)) (scan_string cs1)
             else if e = CHR ''u'' then
               (case cs1 of
                  h1 # h2 # h3 # h4 # cs2 \<Rightarrow>
                    if hex4 h1 h2 h3 h4 = None then None
                    else map_option (\<lambda>(b, r). (c # e # h1 # h2 # h3 # h4 # b, r)) (scan_string cs2)
                | _ \<Rightarrow> None)
             else None)
      else if byte_val c < 32 then None
      else map_option (\<lambda>(b, r). (c # b, r)) (scan_string cs))"

text \<open>The string that the text between the quotes denotes; a lone surrogate and an invalid byte
  become U+FFFD.\<close>

definition next_u4 :: "string \<Rightarrow> nat option" where
  "next_u4 s =
     (case s of
        b # u # h1 # h2 # h3 # h4 # _ \<Rightarrow>
          if b = bslash \<and> u = CHR ''u'' then hex4 h1 h2 h3 h4 else None
      | _ \<Rightarrow> None)"

definition is_surrogate :: "nat \<Rightarrow> bool" where
  "is_surrogate r \<longleftrightarrow> 55296 \<le> r \<and> r < 57344"

definition utf16_pair :: "nat \<Rightarrow> nat \<Rightarrow> nat option" where
  "utf16_pair hi lo =
     (if 55296 \<le> hi \<and> hi < 56320 \<and> 56320 \<le> lo \<and> lo < 57344
      then Some ((hi - 55296) * 1024 + (lo - 56320) + 65536) else None)"

function unquote :: "string \<Rightarrow> string" where
  "unquote [] = []"
| "unquote (c # cs) =
     (if c = bslash then
        (case cs of
           [] \<Rightarrow> []
         | e # cs1 \<Rightarrow>
             (case simple_escape e of
                Some x \<Rightarrow> x # unquote cs1
              | None \<Rightarrow>
                  (case next_u4 (c # cs) of
                     None \<Rightarrow> []
                   | Some r \<Rightarrow>
                       if is_surrogate r then
                         (case next_u4 (drop 5 cs) of
                            None \<Rightarrow> encode_rune rune_error @ unquote (drop 5 cs)
                          | Some r2 \<Rightarrow>
                              (case utf16_pair r r2 of
                                 Some p \<Rightarrow> encode_rune p @ unquote (drop 11 cs)
                               | None \<Rightarrow> encode_rune rune_error @ unquote (drop 5 cs)))
                       else encode_rune r @ unquote (drop 5 cs))))
      else (case decode_rune (c # cs) of
          (r, w) \<Rightarrow> encode_rune r @ unquote (drop (w - 1) cs)))"
  by pat_completeness auto
termination
  by (relation "measure length") auto

text \<open>A number: an optional sign, a whole part without leading zeros, a fraction, an exponent.\<close>

definition scan_digits :: "string \<Rightarrow> (string \<times> string) option" where
  "scan_digits s =
     (if takeWhile is_digit s = [] then None else Some (takeWhile is_digit s, dropWhile is_digit s))"

definition scan_sign :: "char list \<Rightarrow> string \<Rightarrow> string \<times> string" where
  "scan_sign signs s =
     (case s of [] \<Rightarrow> ([], []) | c # cs \<Rightarrow> if c \<in> set signs then ([c], cs) else ([], s))"

definition scan_whole :: "string \<Rightarrow> (string \<times> string) option" where
  "scan_whole s = (if take 1 s = ''0'' then Some (''0'', drop 1 s) else scan_digits s)"

definition scan_frac :: "string \<Rightarrow> (string \<times> string) option" where
  "scan_frac s =
     (if take 1 s = ''.'' then map_option (\<lambda>(ds, r). (CHR ''.'' # ds, r)) (scan_digits (drop 1 s))
      else Some ([], s))"

definition scan_exp :: "string \<Rightarrow> (string \<times> string) option" where
  "scan_exp s =
     (if take 1 s = ''e'' \<or> take 1 s = ''E'' then
        (case scan_sign ''+-'' (drop 1 s) of
           (sg, t) \<Rightarrow> map_option (\<lambda>(ds, r). (take 1 s @ sg @ ds, r)) (scan_digits t))
      else Some ([], s))"

definition scan_number :: "string \<Rightarrow> (string \<times> string) option" where
  "scan_number s =
     (case scan_sign ''-'' s of (sg, s1) \<Rightarrow>
        (case scan_whole s1 of
           None \<Rightarrow> None
         | Some (ip, s2) \<Rightarrow>
             (case scan_frac s2 of
                None \<Rightarrow> None
              | Some (fp, s3) \<Rightarrow>
                  (case scan_exp s3 of
                     None \<Rightarrow> None
                   | Some (ep, s4) \<Rightarrow> Some (sg @ ip @ fp @ ep, s4)))))"

definition maxNestingDepth :: nat where
  "maxNestingDepth = 10000"

definition scan_scalar :: "string \<Rightarrow> (json \<times> string) option" where
  "scan_scalar s =
     (if take 1 s = [dquote] then map_option (\<lambda>(b, r). (JStr (unquote b), r)) (scan_string (drop 1 s))
      else if take 4 s = ''true'' then Some (JBool True, drop 4 s)
      else if take 5 s = ''false'' then Some (JBool False, drop 5 s)
      else if take 4 s = ''null'' then Some (JNull, drop 4 s)
      else map_option (\<lambda>(t, r). (JNum t, r)) (scan_number s))"

fun jvalue :: "nat \<Rightarrow> nat \<Rightarrow> string \<Rightarrow> (json \<times> string) option"
and jelems :: "nat \<Rightarrow> nat \<Rightarrow> string \<Rightarrow> (json list \<times> string) option"
and jmembers :: "nat \<Rightarrow> nat \<Rightarrow> string \<Rightarrow> ((string \<times> string \<times> json) list \<times> string) option" where
  "jvalue 0 d s = None"
| "jvalue (Suc n) d s =
     (case skip_ws s of
        [] \<Rightarrow> None
      | c # cs \<Rightarrow>
          if c = CHR ''{'' then
            (if maxNestingDepth \<le> d then None
             else if take 1 (skip_ws cs) = ''}'' then Some (JObj [], tl (skip_ws cs))
             else map_option (\<lambda>(ms, r). (JObj ms, r)) (jmembers n (Suc d) cs))
          else if c = CHR ''['' then
            (if maxNestingDepth \<le> d then None
             else if take 1 (skip_ws cs) = '']'' then Some (JArr [], tl (skip_ws cs))
             else map_option (\<lambda>(vs, r). (JArr vs, r)) (jelems n (Suc d) cs))
          else scan_scalar (c # cs))"
| "jelems 0 d s = None"
| "jelems (Suc n) d s =
     (case jvalue n d s of
        None \<Rightarrow> None
      | Some (v, s1) \<Rightarrow>
          (case skip_ws s1 of
             [] \<Rightarrow> None
           | c # s2 \<Rightarrow>
               if c = CHR '','' then map_option (\<lambda>(vs, r). (v # vs, r)) (jelems n d s2)
               else if c = CHR '']'' then Some ([v], s2)
               else None))"
| "jmembers 0 d s = None"
| "jmembers (Suc n) d s =
     (case skip_ws s of
        [] \<Rightarrow> None
      | q # s0 \<Rightarrow>
          if q \<noteq> dquote then None
          else (case scan_string s0 of
              None \<Rightarrow> None
            | Some (key, s1) \<Rightarrow>
                (case skip_ws s1 of
                   [] \<Rightarrow> None
                 | c # s2 \<Rightarrow>
                     if c \<noteq> CHR '':'' then None
                     else (case jvalue n d (skip_ws s2) of
                         None \<Rightarrow> None
                       | Some (v, s3) \<Rightarrow>
                           let raw = take (length (skip_ws s2) - length s3) (skip_ws s2);
                               m = (unquote key, raw, v)
                           in (case skip_ws s3 of
                                 [] \<Rightarrow> None
                               | e # s4 \<Rightarrow>
                                   if e = CHR '','' then
                                     map_option (\<lambda>(ms, r). (m # ms, r)) (jmembers n d s4)
                                   else if e = CHR ''}'' then Some ([m], s4)
                                   else None)))))"

definition json_scan :: "string \<Rightarrow> (json \<times> string) option" where
  "json_scan s = jvalue (Suc (2 * length s)) 0 s"

section \<open>Decoding into a struct\<close>

datatype json_error = JSONDecode | JSONTrailing

definition fold_rune :: "nat \<Rightarrow> nat" where
  "fold_rune r =
     (if 97 \<le> r \<and> r \<le> 122 then r - 32 else if r = 383 then 83 else if r = 8490 then 75 else r)"

definition foldName :: "string \<Rightarrow> nat list" where
  "foldName s = map fold_rune (rune_values s)"

type_synonym 'a field = "string \<times> (string \<Rightarrow> json \<Rightarrow> 'a \<Rightarrow> 'a option)"

definition find_field :: "'a field list \<Rightarrow> string \<Rightarrow> (string \<Rightarrow> json \<Rightarrow> 'a \<Rightarrow> 'a option) option" where
  "find_field fs k =
     (case find (\<lambda>f. fst f = k) fs of
        Some f \<Rightarrow> Some (snd f)
      | None \<Rightarrow> map_option snd (find (\<lambda>f. foldName (fst f) = foldName k) fs))"

fun dec_members :: "'a field list \<Rightarrow> (string \<times> string \<times> json) list \<Rightarrow> 'a \<Rightarrow> 'a option" where
  "dec_members fs [] a = Some a"
| "dec_members fs ((k, raw, v) # ms) a =
     (case find_field fs k of
        None \<Rightarrow> None
      | Some f \<Rightarrow> (case f raw v a of None \<Rightarrow> None | Some a' \<Rightarrow> dec_members fs ms a'))"

definition dec_struct :: "'a field list \<Rightarrow> json \<Rightarrow> 'a \<Rightarrow> 'a option" where
  "dec_struct fs v a =
     (case v of JNull \<Rightarrow> Some a | JObj ms \<Rightarrow> dec_members fs ms a | _ \<Rightarrow> None)"

definition dec_string :: "json \<Rightarrow> string \<Rightarrow> string option" where
  "dec_string v old = (case v of JNull \<Rightarrow> Some old | JStr s \<Rightarrow> Some s | _ \<Rightarrow> None)"

definition dec_int :: "json \<Rightarrow> int \<Rightarrow> int option" where
  "dec_int v old = (case v of JNull \<Rightarrow> Some old | JNum t \<Rightarrow> go_atoi t | _ \<Rightarrow> None)"

definition dec_uint16 :: "json \<Rightarrow> int \<Rightarrow> int option" where
  "dec_uint16 v old =
     (case v of
        JNull \<Rightarrow> Some old
      | JNum t \<Rightarrow> (case go_parse_uint t of
            Some n \<Rightarrow> if int n \<le> 65535 then Some (int n) else None
          | None \<Rightarrow> None)
      | _ \<Rightarrow> None)"

definition dec_pointer :: "(json \<Rightarrow> 'b \<Rightarrow> 'b option) \<Rightarrow> 'b \<Rightarrow> json \<Rightarrow> 'b option \<Rightarrow> 'b option option" where
  "dec_pointer f zero v old =
     (case v of
        JNull \<Rightarrow> Some None
      | _ \<Rightarrow> map_option Some (f v (case old of None \<Rightarrow> zero | Some x \<Rightarrow> x)))"

fun dec_elems :: "(json \<Rightarrow> 'b \<Rightarrow> 'b option) \<Rightarrow> 'b \<Rightarrow> json list \<Rightarrow> 'b list \<Rightarrow> 'b list option" where
  "dec_elems f zero [] old = Some []"
| "dec_elems f zero (v # vs) old =
     (case f v (case old of [] \<Rightarrow> zero | x # _ \<Rightarrow> x) of
        None \<Rightarrow> None
      | Some y \<Rightarrow> map_option (\<lambda>ys. y # ys) (dec_elems f zero vs (tl old)))"

definition dec_slice :: "(json \<Rightarrow> 'b \<Rightarrow> 'b option) \<Rightarrow> 'b \<Rightarrow> json \<Rightarrow> 'b list \<Rightarrow> 'b list option" where
  "dec_slice f zero v old =
     (case v of JNull \<Rightarrow> Some [] | JArr vs \<Rightarrow> dec_elems f zero vs old | _ \<Rightarrow> None)"

text \<open>One value followed by the end of the input: \<^verbatim>\<open>Decode(&v)\<close> and then a second
  \<^verbatim>\<open>Decode\<close> that must report \<^verbatim>\<open>io.EOF\<close>.\<close>

definition json_decode :: "'a field list \<Rightarrow> 'a \<Rightarrow> string \<Rightarrow> (json_error, 'a) res" where
  "json_decode fs zero s =
     (case json_scan s of
        None \<Rightarrow> Inl JSONDecode
      | Some (v, rest) \<Rightarrow>
          (case dec_struct fs v zero of
             None \<Rightarrow> Inl JSONDecode
           | Some a \<Rightarrow> if skip_ws rest = [] then Inr a else Inl JSONTrailing))"

section \<open>Marshalling\<close>

definition html_safe :: "nat \<Rightarrow> bool" where
  "html_safe r \<longleftrightarrow> 32 \<le> r \<and> r < 128 \<and> r \<noteq> 34 \<and> r \<noteq> 92 \<and> r \<noteq> 60 \<and> r \<noteq> 62 \<and> r \<noteq> 38"

definition escape_rune :: "nat \<times> string \<Rightarrow> string" where
  "escape_rune p =
     (case p of (r, bs) \<Rightarrow>
        if r < 128 then
          (if html_safe r then bs
           else if r = 92 \<or> r = 34 then bslash # bs
           else if r = 8 then [bslash, CHR ''b''] else if r = 12 then [bslash, CHR ''f'']
           else if r = 10 then [bslash, CHR ''n''] else if r = 13 then [bslash, CHR ''r'']
           else if r = 9 then [bslash, CHR ''t'']
           else [bslash, CHR ''u'', CHR ''0'', CHR ''0'', hex_digit (r div 16), hex_digit r])
        else if r = rune_error \<and> length bs = 1 then bslash # ''ufffd''
        else if r = 8232 \<or> r = 8233 then bslash # ''u202'' @ [hex_digit r]
        else bs)"

definition json_string :: "string \<Rightarrow> string" where
  "json_string s = dquote # concat (map escape_rune (runes s)) @ [dquote]"

text \<open>\<^verbatim>\<open>Compact\<close> with escaping, which a \<^verbatim>\<open>json.RawMessage\<close> goes through.\<close>

fun compact :: "bool \<Rightarrow> string \<Rightarrow> string" where
  "compact q [] = []"
| "compact q (c # cs) =
     (if \<not> q \<and> is_json_space c then compact q cs
      else if c = CHR ''<'' \<or> c = CHR ''>'' \<or> c = CHR ''&'' then
        [bslash, CHR ''u'', CHR ''0'', CHR ''0'', hex_digit (byte_val c div 16), hex_digit (byte_val c)]
          @ compact q cs
      else if q \<and> c = bslash then
        (case cs of [] \<Rightarrow> [c] | e # cs1 \<Rightarrow> c # e # compact q cs1)
      else if c = CHR 0xE2 \<and> (take 2 cs = [CHR 0x80, CHR 0xA8] \<or> take 2 cs = [CHR 0x80, CHR 0xA9]) then
        [bslash, CHR ''u'', CHR ''2'', CHR ''0'', CHR ''2'', hex_digit (byte_val (cs ! 1))]
          @ compact q (drop 2 cs)
      else c # compact (if c = dquote then \<not> q else q) cs)"

definition json_raw :: "string \<Rightarrow> string option" where
  "json_raw s =
     (case json_scan s of
        None \<Rightarrow> None
      | Some (_, rest) \<Rightarrow> if skip_ws rest = [] then Some (compact False s) else None)"

definition json_member :: "string \<times> string \<Rightarrow> string" where
  "json_member p = json_string (fst p) @ CHR '':'' # snd p"

definition json_object :: "(string \<times> string) list \<Rightarrow> string" where
  "json_object ms = CHR ''{'' # join_on (CHR '','') (map json_member ms) @ ''}''"

definition json_array :: "string list \<Rightarrow> string" where
  "json_array vs = CHR ''['' # join_on (CHR '','') vs @ '']''"

declare jvalue.simps [simp del] jelems.simps [simp del] jmembers.simps [simp del]
declare scan_string.simps [simp del] unquote.simps [simp del]

section \<open>The scanner makes progress, so its fuel is enough\<close>

lemma skip_ws_length: "length (skip_ws s) \<le> length s"
  by (simp add: skip_ws_def length_dropWhile_le)

lemma skip_ws_Cons: "skip_ws s = c # r \<Longrightarrow> length r < length s"
  using skip_ws_length [of s] by simp

lemma scan_string_length: "scan_string s = Some (b, r) \<Longrightarrow> length r < length s"
proof (induction s arbitrary: b r rule: length_induct)
  case (1 s)
  then have IH: "length r' < length t" if "length t < length s" "scan_string t = Some (b', r')" for t b' r'
    using that by blast
  show ?case
  proof (cases s)
    case (Cons c cs)
    with "1.prems" show ?thesis
      by (auto simp: scan_string.simps(2) less_Suc_eq split: if_splits list.splits dest!: IH [rotated])
  qed (use "1.prems" in \<open>simp add: scan_string.simps\<close>)
qed

lemma scan_digits_length: "scan_digits s = Some (b, r) \<Longrightarrow> length r < length s"
proof -
  assume s: "scan_digits s = Some (b, r)"
  have "length (takeWhile is_digit s) + length (dropWhile is_digit s) = length s"
    by (metis length_append takeWhile_dropWhile_id)
  moreover have "takeWhile is_digit s \<noteq> []" "r = dropWhile is_digit s"
    using s by (simp_all add: scan_digits_def split: if_splits)
  ultimately show ?thesis by (cases "takeWhile is_digit s") simp_all
qed

lemma scan_sign_length: "length (snd (scan_sign g s)) \<le> length s"
  by (simp add: scan_sign_def split: list.splits)

lemma scan_whole_length: "scan_whole s = Some (b, r) \<Longrightarrow> length r < length s"
  by (cases s) (auto simp: scan_whole_def split: if_splits dest: scan_digits_length)

lemma scan_frac_length: "scan_frac s = Some (b, r) \<Longrightarrow> length r \<le> length s"
  by (cases s) (auto simp: scan_frac_def split: if_splits dest!: scan_digits_length)

lemma scan_exp_length: "scan_exp s = Some (b, r) \<Longrightarrow> length r \<le> length s"
  using scan_sign_length [of "''+-''" "drop 1 s"]
  by (cases s) (auto simp: scan_exp_def split: if_splits prod.splits dest!: scan_digits_length)

lemma scan_number_length: "scan_number s = Some (b, r) \<Longrightarrow> length r < length s"
  using scan_sign_length [of "''-''" s]
  by (auto simp: scan_number_def split: prod.splits option.splits
      dest!: scan_whole_length scan_frac_length scan_exp_length)

lemma scan_scalar_length: "scan_scalar s = Some (v, r) \<Longrightarrow> length r < length s"
  by (cases s) (auto simp: scan_scalar_def split: if_splits dest!: scan_string_length scan_number_length)

lemma json_lengths:
  "(\<forall>d s v r. jvalue n d s = Some (v, r) \<longrightarrow> length r < length s) \<and>
   (\<forall>d s vs r. jelems n d s = Some (vs, r) \<longrightarrow> length r < length s) \<and>
   (\<forall>d s ms r. jmembers n d s = Some (ms, r) \<longrightarrow> length r < length s)"
proof (induction n)
  case (Suc n)
  have v: "length r < length s" if "jvalue n d s = Some (v, r)" for d s v r
    using Suc that by blast
  have e: "length r < length s" if "jelems n d s = Some (vs, r)" for d s vs r
    using Suc that by blast
  have m: "length r < length s" if "jmembers n d s = Some (ms, r)" for d s ms r
    using Suc that by blast
  have "length r < length s" if "jvalue (Suc n) d s = Some (v, r)" for d s v r
  proof (cases "skip_ws s")
    case (Cons c cs)
    note len = skip_ws_Cons [OF Cons] skip_ws_length [of cs]
    from that Cons len show ?thesis
      by (auto simp: jvalue.simps(2) split: if_splits
          dest!: e m scan_scalar_length)
  qed (use that in \<open>simp add: jvalue.simps\<close>)
  moreover have "length r < length s" if "jelems (Suc n) d s = Some (vs, r)" for d s vs r
    using that by (auto simp: jelems.simps(2) split: option.splits list.splits if_splits
        dest!: skip_ws_Cons v e)
  moreover have "length r < length s" if "jmembers (Suc n) d s = Some (ms, r)" for d s ms r
    using that skip_ws_length by (auto simp: jmembers.simps(2) Let_def split: option.splits list.splits if_splits
        dest!: skip_ws_Cons v m scan_string_length) (meson le_less_trans less_trans)+
  ultimately show ?case by blast
qed (simp_all add: jvalue.simps jelems.simps jmembers.simps)

lemma jvalue_length: "jvalue n d s = Some (v, r) \<Longrightarrow> length r < length s"
  and jelems_length: "jelems n d s = Some (vs, r) \<Longrightarrow> length r < length s"
  and jmembers_length: "jmembers n d s = Some (ms, r) \<Longrightarrow> length r < length s"
  using json_lengths [of n] by blast+

lemma json_fuel_step:
  "(\<forall>d s. 2 * length s < n \<longrightarrow> jvalue n d s = jvalue (Suc n) d s) \<and>
   (\<forall>d s. 2 * length s + 1 < n \<longrightarrow> jelems n d s = jelems (Suc n) d s) \<and>
   (\<forall>d s. 2 * length s + 1 < n \<longrightarrow> jmembers n d s = jmembers (Suc n) d s)"
proof (induction n)
  case (Suc n)
  have v: "jvalue n d s = jvalue (Suc n) d s" if "2 * length s < n" for d s
    using Suc that by blast
  have e: "jelems n d s = jelems (Suc n) d s" if "2 * length s + 1 < n" for d s
    using Suc that by blast
  have m: "jmembers n d s = jmembers (Suc n) d s" if "2 * length s + 1 < n" for d s
    using Suc that by blast
  have "jvalue (Suc n) d s = jvalue (Suc (Suc n)) d s" if "2 * length s < Suc n" for d s
  proof (cases "skip_ws s")
    case (Cons c cs)
    from skip_ws_Cons [OF Cons] that have "2 * length cs + 1 < n" by simp
    then show ?thesis using e [of cs "Suc d"] m [of cs "Suc d"] Cons by (simp add: jvalue.simps(2))
  qed (simp add: jvalue.simps)
  moreover have "jelems (Suc n) d s = jelems (Suc (Suc n)) d s" if "2 * length s + 1 < Suc n" for d s
  proof -
    have "jelems n d s2 = jelems (Suc n) d s2"
      if r: "jvalue (Suc n) d s = Some (x, s1)" "skip_ws s1 = c # s2" for x s1 c s2
      using jvalue_length [OF r(1)] skip_ws_Cons [OF r(2)] \<open>2 * length s + 1 < Suc n\<close>
      by (intro e) simp
    then show ?thesis
      using v [of s d] that
      by (auto simp: jelems.simps(2) split: option.splits list.splits)
  qed
  moreover have "jmembers (Suc n) d s = jmembers (Suc (Suc n)) d s" if "2 * length s + 1 < Suc n" for d s
  proof -
    have vv: "jvalue n d (skip_ws s2) = jvalue (Suc n) d (skip_ws s2)"
      if r: "skip_ws s = q # s0" "scan_string s0 = Some (k, s1)" "skip_ws s1 = c # s2" for q s0 k s1 c s2
      using skip_ws_Cons [OF r(1)] scan_string_length [OF r(2)] skip_ws_Cons [OF r(3)]
        skip_ws_length [of s2] \<open>2 * length s + 1 < Suc n\<close> by (intro v) simp
    moreover have "jmembers n d s4 = jmembers (Suc n) d s4"
      if r: "skip_ws s = q # s0" "scan_string s0 = Some (k, s1)" "skip_ws s1 = c # s2"
        "jvalue (Suc n) d (skip_ws s2) = Some (x, s3)" "skip_ws s3 = e # s4" for q s0 k s1 c s2 x s3 e s4
      using skip_ws_Cons [OF r(1)] scan_string_length [OF r(2)] skip_ws_Cons [OF r(3)]
        skip_ws_length [of s2] jvalue_length [OF r(4)] skip_ws_Cons [OF r(5)]
        \<open>2 * length s + 1 < Suc n\<close> by (intro m) simp
    ultimately show ?thesis
      by (auto simp: jmembers.simps(2) Let_def split: option.splits list.splits)
  qed
  ultimately show ?case by blast
qed simp

lemma json_fuel:
  assumes "2 * length s < n"
  shows "jvalue n d s = jvalue (Suc (2 * length s)) d s"
  using assms
proof (induction n)
  case (Suc n)
  show ?case
  proof (cases "2 * length s < n")
    case True
    with Suc.IH json_fuel_step [of n] show ?thesis by metis
  next
    case False
    with Suc.prems have "n = 2 * length s" by simp
    then show ?thesis by simp
  qed
qed simp

lemma jelems_Suc:
  "jelems (Suc n) d s = Some (vs, r) \<longleftrightarrow>
     (\<exists>v s1. jvalue n d s = Some (v, s1) \<and>
        ((\<exists>s2 vs'. skip_ws s1 = CHR '','' # s2 \<and> jelems n d s2 = Some (vs', r) \<and> vs = v # vs') \<or>
         skip_ws s1 = CHR '']'' # r \<and> vs = [v]))"
  by (auto simp: jelems.simps(2) split: option.splits list.splits)

lemma jmembers_Suc:
  "jmembers (Suc n) d s = Some (ms, r) \<longleftrightarrow>
     (\<exists>s0 k s1 s2 v s3 m. skip_ws s = dquote # s0 \<and> scan_string s0 = Some (k, s1) \<and>
        skip_ws s1 = CHR '':'' # s2 \<and> jvalue n d (skip_ws s2) = Some (v, s3) \<and>
        m = (unquote k, take (length (skip_ws s2) - length s3) (skip_ws s2), v) \<and>
        ((\<exists>s4 ms'. skip_ws s3 = CHR '','' # s4 \<and> jmembers n d s4 = Some (ms', r) \<and> ms = m # ms') \<or>
         skip_ws s3 = CHR ''}'' # r \<and> ms = [m]))"
  by (auto simp: jmembers.simps(2) Let_def split: option.splits list.splits)

lemma json_more_step:
  "(\<forall>d s x. jvalue n d s = Some x \<longrightarrow> jvalue (Suc n) d s = Some x) \<and>
   (\<forall>d s x. jelems n d s = Some x \<longrightarrow> jelems (Suc n) d s = Some x) \<and>
   (\<forall>d s x. jmembers n d s = Some x \<longrightarrow> jmembers (Suc n) d s = Some x)"
proof (induction n)
  case (Suc n)
  have v: "jvalue (Suc n) d s = Some x" if "jvalue n d s = Some x" for d s x
    using Suc that by blast
  have e: "jelems (Suc n) d s = Some x" if "jelems n d s = Some x" for d s x
    using Suc that by blast
  have m: "jmembers (Suc n) d s = Some x" if "jmembers n d s = Some x" for d s x
    using Suc that by blast
  have "jvalue (Suc (Suc n)) d s = Some x" if "jvalue (Suc n) d s = Some x" for d s x
  proof (cases "skip_ws s")
    case (Cons c cs)
    with that show ?thesis
      using e [of "Suc d" cs] m [of "Suc d" cs]
      by (cases "jelems n (Suc d) cs"; cases "jmembers n (Suc d) cs")
        (simp_all add: jvalue.simps(2) split: if_split_asm)
  qed (use that in \<open>simp add: jvalue.simps\<close>)
  moreover have "jelems (Suc (Suc n)) d s = Some x" if "jelems (Suc n) d s = Some x" for d s x
  proof -
    obtain vs r where x: "x = (vs, r)" by (cases x)
    from that [unfolded x jelems_Suc] obtain y s1 where "jvalue n d s = Some (y, s1)"
      and "(\<exists>s2 vs'. skip_ws s1 = CHR '','' # s2 \<and> jelems n d s2 = Some (vs', r) \<and> vs = y # vs') \<or>
         skip_ws s1 = CHR '']'' # r \<and> vs = [y]" by blast
    with v [of d s] e [of d] show ?thesis unfolding x jelems_Suc [of "Suc n"] by blast
  qed
  moreover have "jmembers (Suc (Suc n)) d s = Some x" if "jmembers (Suc n) d s = Some x" for d s x
  proof -
    obtain ms r where x: "x = (ms, r)" by (cases x)
    from that [unfolded x jmembers_Suc] obtain s0 k s1 s2 y s3 p
      where "skip_ws s = dquote # s0" "scan_string s0 = Some (k, s1)" "skip_ws s1 = CHR '':'' # s2"
        "jvalue n d (skip_ws s2) = Some (y, s3)"
        "p = (unquote k, take (length (skip_ws s2) - length s3) (skip_ws s2), y)"
        "(\<exists>s4 ms'. skip_ws s3 = CHR '','' # s4 \<and> jmembers n d s4 = Some (ms', r) \<and> ms = p # ms') \<or>
         skip_ws s3 = CHR ''}'' # r \<and> ms = [p]" by blast
    with v [of d "skip_ws s2"] m [of d] show ?thesis unfolding x jmembers_Suc [of "Suc n"] by blast
  qed
  ultimately show ?case by blast
qed (simp_all add: jvalue.simps jelems.simps jmembers.simps)

lemma jvalue_more: "jvalue n d s = Some x \<Longrightarrow> n \<le> m \<Longrightarrow> jvalue m d s = Some x"
  by (induction m) (auto simp: le_Suc_eq dest: json_more_step [THEN conjunct1, rule_format])

lemma jelems_more: "jelems n d s = Some x \<Longrightarrow> n \<le> m \<Longrightarrow> jelems m d s = Some x"
  by (induction m) (auto simp: le_Suc_eq dest: json_more_step [THEN conjunct2, THEN conjunct1, rule_format])

lemma jmembers_more: "jmembers n d s = Some x \<Longrightarrow> n \<le> m \<Longrightarrow> jmembers m d s = Some x"
  by (induction m) (auto simp: le_Suc_eq dest: json_more_step [THEN conjunct2, THEN conjunct2, rule_format])

lemma json_scan_some: "jvalue n 0 s = Some x \<Longrightarrow> json_scan s = Some x"
proof -
  assume "jvalue n 0 s = Some x"
  then have "jvalue (Suc (n + 2 * length s)) 0 s = Some x" by (rule jvalue_more) simp
  moreover have "jvalue (Suc (n + 2 * length s)) 0 s = jvalue (Suc (2 * length s)) 0 s"
    by (rule json_fuel) simp
  ultimately show ?thesis by (simp add: json_scan_def)
qed

section \<open>A complete value in front of other text\<close>

text \<open>Only a number can be extended by what follows it.\<close>

definition number_stop :: "string \<Rightarrow> bool" where
  "number_stop t \<longleftrightarrow> t = [] \<or> \<not> is_digit (hd t) \<and> hd t \<noteq> CHR ''.'' \<and> hd t \<noteq> CHR ''e'' \<and> hd t \<noteq> CHR ''E''"

lemma number_stop_simps [simp]:
  "number_stop []" "number_stop (CHR '','' # t)" "number_stop (CHR ''}'' # t)"
  "number_stop (CHR '']'' # t)" "number_stop (CHR 0x0A # t)"
  by (simp_all add: number_stop_def is_digit_def in_range_def byte_val_def)

lemma skip_ws_append: "skip_ws s = c # r \<Longrightarrow> skip_ws (s @ t) = c # r @ t"
  by (induction s) (auto simp: skip_ws_def split: if_splits)

lemma skip_ws_id: "\<not> is_json_space c \<Longrightarrow> skip_ws (c # s) = c # s"
  by (simp add: skip_ws_def)

lemma scan_string_steps:
  "scan_string (dquote # t) = Some ([], t)"
  "simple_escape e \<noteq> None \<Longrightarrow>
     scan_string (bslash # e # t) = map_option (\<lambda>(b, r). (bslash # e # b, r)) (scan_string t)"
  "hex4 h1 h2 h3 h4 \<noteq> None \<Longrightarrow>
     scan_string (bslash # CHR ''u'' # h1 # h2 # h3 # h4 # t) =
       map_option (\<lambda>(b, r). (bslash # CHR ''u'' # h1 # h2 # h3 # h4 # b, r)) (scan_string t)"
  "32 \<le> byte_val c \<Longrightarrow> c \<noteq> dquote \<Longrightarrow> c \<noteq> bslash \<Longrightarrow>
     scan_string (c # t) = map_option (\<lambda>(b, r). (c # b, r)) (scan_string t)"
  by (auto simp: scan_string.simps simple_escape_def)

lemma scan_string_cases:
  assumes "scan_string s = Some (b, r)"
  obtains "s = dquote # r" "b = []"
  | e t b' where "s = bslash # e # t" "simple_escape e \<noteq> None" "scan_string t = Some (b', r)" "b = bslash # e # b'"
  | h1 h2 h3 h4 t b' where "s = bslash # CHR ''u'' # h1 # h2 # h3 # h4 # t" "hex4 h1 h2 h3 h4 \<noteq> None"
      "scan_string t = Some (b', r)" "b = bslash # CHR ''u'' # h1 # h2 # h3 # h4 # b'"
  | c t b' where "s = c # t" "32 \<le> byte_val c" "c \<noteq> dquote" "c \<noteq> bslash" "scan_string t = Some (b', r)" "b = c # b'"
proof (cases s)
  case (Cons c cs)
  note s = assms [unfolded Cons scan_string.simps(2)]
  consider "c = dquote" | "c = bslash" "c \<noteq> dquote" | "c \<noteq> dquote" "c \<noteq> bslash" by blast
  then show ?thesis
  proof cases
    case 1
    with s Cons that(1) show ?thesis by simp
  next
    case 3
    with s obtain b' where "32 \<le> byte_val c" "scan_string cs = Some (b', r)" "b = c # b'"
      by (auto split: if_splits)
    with 3 Cons that(4) show ?thesis by blast
  next
    case 2
    with s obtain e t where cs: "cs = e # t" by (cases cs) simp_all
    show ?thesis
    proof (cases "simple_escape e")
      case (Some x)
      with s 2 cs obtain b' where "scan_string t = Some (b', r)" "b = c # e # b'" by auto
      with that(2) [of e t b'] Some 2 Cons cs show ?thesis by simp
    next
      case None
      with s 2 cs have u: "e = CHR ''u''" by (simp split: if_splits)
      with s None 2 cs obtain h1 h2 h3 h4 t' where t: "t = h1 # h2 # h3 # h4 # t'"
        by (auto split: list.splits)
      with s None 2 cs u obtain b' where "hex4 h1 h2 h3 h4 \<noteq> None" "scan_string t' = Some (b', r)"
        "b = c # e # h1 # h2 # h3 # h4 # b'"
        by (auto split: if_splits)
      with that(3) [of h1 h2 h3 h4 t' b'] 2 Cons cs t u show ?thesis by simp
    qed
  qed
qed (use assms in \<open>simp add: scan_string.simps\<close>)

lemma scan_string_append: "scan_string s = Some (b, r) \<Longrightarrow> scan_string (s @ t) = Some (b, r @ t)"
proof (induction s arbitrary: b r rule: length_induct)
  case (1 s)
  then have IH: "scan_string (u @ t) = Some (b', r' @ t)"
    if "length u < length s" "scan_string u = Some (b', r')" for u b' r'
    using that by blast
  from "1.prems" show ?case
    by (cases rule: scan_string_cases) (simp_all add: scan_string_steps IH)
qed

lemma take_prefix: "take n s = p \<Longrightarrow> s = p @ drop n s"
  by (metis append_take_drop_id)

lemma scan_digits_append:
  assumes "number_stop t" "scan_digits s = Some (b, r)"
  shows "scan_digits (s @ t) = Some (b, r @ t)"
proof -
  have t: "takeWhile is_digit t = []" "dropWhile is_digit t = t"
    using assms(1) by (cases t; simp add: number_stop_def)+
  have "takeWhile is_digit (s @ t) = takeWhile is_digit s" "dropWhile is_digit (s @ t) = dropWhile is_digit s @ t"
    using t by (induction s) simp_all
  with assms(2) show ?thesis by (auto simp: scan_digits_def split: if_splits)
qed

lemma scan_number_append:
  assumes t: "number_stop t" and s: "scan_number s = Some (b, r)"
  shows "scan_number (s @ t) = Some (b, r @ t)"
proof -
  have whole: "scan_whole (u @ t) = Some (x, y @ t)" if "scan_whole u = Some (x, y)" for u x y
    using that scan_digits_append [OF t, of u]
    by (cases u) (auto simp: scan_whole_def scan_digits_def split: if_splits)
  have frac: "scan_frac (u @ t) = Some (x, y @ t)" if "scan_frac u = Some (x, y)" for u x y
  proof (cases u)
    case Nil
    with that t show ?thesis by (cases t) (auto simp: scan_frac_def number_stop_def)
  next
    case (Cons c cs)
    with that scan_digits_append [OF t, of cs] show ?thesis
      by (auto simp: scan_frac_def split: if_splits)
  qed
  have expo: "scan_exp (u @ t) = Some (x, y @ t)" if "scan_exp u = Some (x, y)" for u x y
  proof (cases u)
    case Nil
    with that t show ?thesis by (cases t) (auto simp: scan_exp_def number_stop_def)
  next
    case (Cons c cs)
    show ?thesis
    proof (cases "c = CHR ''e'' \<or> c = CHR ''E''")
      case True
      obtain sg u1 where sg: "scan_sign ''+-'' cs = (sg, u1)" by (cases "scan_sign ''+-'' cs")
      from True that Cons sg obtain ds where ds: "scan_digits u1 = Some (ds, y)" "x = c # sg @ ds"
        by (auto simp: scan_exp_def)
      moreover from ds(1) have "u1 \<noteq> []" by (auto simp: scan_digits_def)
      with sg have "scan_sign ''+-'' (cs @ t) = (sg, u1 @ t)"
        by (auto simp: scan_sign_def split: list.splits if_splits)
      ultimately show ?thesis using True Cons scan_digits_append [OF t, of u1 ds y]
        by (auto simp: scan_exp_def)
    qed (use that Cons in \<open>auto simp: scan_exp_def\<close>)
  qed
  obtain sg s1 where sg: "scan_sign ''-'' s = (sg, s1)" by (cases "scan_sign ''-'' s")
  with s obtain ip s2 fp s3 ep where
    "scan_whole s1 = Some (ip, s2)" "scan_frac s2 = Some (fp, s3)" "scan_exp s3 = Some (ep, r)"
    "b = sg @ ip @ fp @ ep"
    by (auto simp: scan_number_def split: option.splits prod.splits)
  moreover from this(1) have "s1 \<noteq> []" by (auto simp: scan_whole_def scan_digits_def)
  with sg have "scan_sign ''-'' (s @ t) = (sg, s1 @ t)"
    by (auto simp: scan_sign_def split: list.splits if_splits)
  ultimately show ?thesis using whole frac expo by (simp add: scan_number_def)
qed

lemma scan_number_head: "scan_number (c # cs) = Some x \<Longrightarrow> c = CHR ''-'' \<or> is_digit c"
  by (auto simp: scan_number_def scan_sign_def scan_whole_def scan_digits_def is_digit_def in_range_def
      byte_val_def split: if_splits option.splits)

lemma scan_scalar_append:
  assumes t: "number_stop t" and s: "scan_scalar s = Some (v, r)"
  shows "scan_scalar (s @ t) = Some (v, r @ t)"
proof -
  from s obtain c cs where cs: "s = c # cs"
    by (cases s) (auto simp: scan_scalar_def scan_number_def scan_sign_def scan_whole_def scan_digits_def)
  have num: "\<exists>n. scan_number s = Some (n, r) \<and> v = JNum n"
    if "take 1 s \<noteq> [dquote]" "take 4 s \<noteq> ''true''" "take 5 s \<noteq> ''false''" "take 4 s \<noteq> ''null''"
    using s that by (cases "scan_number s") (simp_all add: scan_scalar_def split: prod.splits)
  then consider "take 1 s = [dquote]" | "take 4 s = ''true''" | "take 5 s = ''false''" | "take 4 s = ''null''"
    | n where "scan_number s = Some (n, r)" "v = JNum n" "c = CHR ''-'' \<or> is_digit c"
    using scan_number_head [of c cs] unfolding cs by blast
  then show ?thesis
  proof cases
    case 5
    then have "c \<noteq> dquote" "c \<noteq> CHR ''t''" "c \<noteq> CHR ''f''" "c \<noteq> CHR ''n''"
      by (auto simp: is_digit_def in_range_def byte_val_def)
    with 5 cs scan_number_append [OF t, of s n r] show ?thesis by (simp add: scan_scalar_def)
  next
    case 1
    with s cs scan_string_append [of cs _ r t] show ?thesis by (auto simp: scan_scalar_def)
  next
    case 2
    then have "s = ''true'' @ drop 4 s" by (rule take_prefix)
    with s show ?thesis by (cases "drop 4 s"; auto simp: scan_scalar_def)
  next
    case 3
    then have "s = ''false'' @ drop 5 s" by (rule take_prefix)
    with s show ?thesis by (cases "drop 5 s"; auto simp: scan_scalar_def)
  next
    case 4
    then have "s = ''null'' @ drop 4 s" by (rule take_prefix)
    with s show ?thesis by (cases "drop 4 s"; auto simp: scan_scalar_def)
  qed
qed

lemma jvalue_skip: "skip_ws s = [] \<Longrightarrow> jvalue n d s = None"
  by (cases n) (simp_all add: jvalue.simps)

lemma jelems_skip: "skip_ws s = [] \<Longrightarrow> jelems n d s = None"
  by (cases n) (simp_all add: jelems.simps jvalue_skip)

lemma jmembers_skip: "skip_ws s = [] \<Longrightarrow> jmembers n d s = None"
  by (cases n) (auto simp: jmembers.simps)

lemma json_append:
  assumes t: "number_stop t"
  shows "(\<forall>d s v r. jvalue n d s = Some (v, r) \<longrightarrow> jvalue n d (s @ t) = Some (v, r @ t)) \<and>
   (\<forall>d s vs r. jelems n d s = Some (vs, r) \<longrightarrow> jelems n d (s @ t) = Some (vs, r @ t)) \<and>
   (\<forall>d s ms r. jmembers n d s = Some (ms, r) \<longrightarrow> jmembers n d (s @ t) = Some (ms, r @ t))"
proof (induction n)
  case (Suc n)
  have v: "jvalue n d (s @ t) = Some (v, r @ t)" if "jvalue n d s = Some (v, r)" for d s v r
    using Suc that by blast
  have e: "jelems n d (s @ t) = Some (vs, r @ t)" if "jelems n d s = Some (vs, r)" for d s vs r
    using Suc that by blast
  have m: "jmembers n d (s @ t) = Some (ms, r @ t)" if "jmembers n d s = Some (ms, r)" for d s ms r
    using Suc that by blast
  have "jvalue (Suc n) d (s @ t) = Some (v, r @ t)" if s: "jvalue (Suc n) d s = Some (v, r)" for d s v r
  proof (cases "skip_ws s")
    case (Cons c cs)
    note app = skip_ws_append [OF Cons, of t]
    consider "c = CHR ''{''" | "c = CHR ''[''" "c \<noteq> CHR ''{''" | "c \<noteq> CHR ''{''" "c \<noteq> CHR ''[''" by blast
    then show ?thesis
    proof cases
      case 1
      with s Cons obtain x xs where x: "skip_ws cs = x # xs"
        by (cases "skip_ws cs") (auto simp: jvalue.simps(2) jmembers_skip split: if_splits)
      show ?thesis
      proof (cases "x = CHR ''}''")
        case True
        with 1 s Cons app x skip_ws_append [OF x, of t] show ?thesis
          by (simp add: jvalue.simps(2) split: if_split_asm)
      next
        case False
        with 1 s Cons x obtain ys where ys: "jmembers n (Suc d) cs = Some (ys, r)" "v = JObj ys" "\<not> maxNestingDepth \<le> d"
          by (cases "jmembers n (Suc d) cs") (auto simp: jvalue.simps(2) split: if_split_asm)
        from False 1 app skip_ws_append [OF x, of t] m [OF ys(1)] ys(2,3) show ?thesis
          by (simp add: jvalue.simps(2))
      qed
    next
      case 2
      with s Cons obtain x xs where x: "skip_ws cs = x # xs"
        by (cases "skip_ws cs") (auto simp: jvalue.simps(2) jelems_skip split: if_splits)
      show ?thesis
      proof (cases "x = CHR '']''")
        case True
        with 2 s Cons app x skip_ws_append [OF x, of t] show ?thesis
          by (simp add: jvalue.simps(2) split: if_split_asm)
      next
        case False
        with 2 s Cons x obtain ys where ys: "jelems n (Suc d) cs = Some (ys, r)" "v = JArr ys" "\<not> maxNestingDepth \<le> d"
          by (cases "jelems n (Suc d) cs") (auto simp: jvalue.simps(2) split: if_split_asm)
        from False 2 app skip_ws_append [OF x, of t] e [OF ys(1)] ys(2,3) show ?thesis
          by (simp add: jvalue.simps(2))
      qed
    next
      case 3
      with s Cons app scan_scalar_append [OF t, of "c # cs"] show ?thesis
        by (auto simp: jvalue.simps(2))
    qed
  qed (use s in \<open>simp add: jvalue.simps\<close>)
  moreover have "jelems (Suc n) d (s @ t) = Some (vs, r @ t)" if s: "jelems (Suc n) d s = Some (vs, r)" for d s vs r
  proof -
    from s [unfolded jelems_Suc] obtain y s1 where y: "jvalue n d s = Some (y, s1)"
      and alt: "(\<exists>s2 vs'. skip_ws s1 = CHR '','' # s2 \<and> jelems n d s2 = Some (vs', r) \<and> vs = y # vs') \<or>
         skip_ws s1 = CHR '']'' # r \<and> vs = [y]" by blast
    from alt e [of d] have "(\<exists>s2 vs'. skip_ws (s1 @ t) = CHR '','' # s2 \<and>
        jelems n d s2 = Some (vs', r @ t) \<and> vs = y # vs') \<or>
      skip_ws (s1 @ t) = CHR '']'' # (r @ t) \<and> vs = [y]"
      using skip_ws_append by blast
    with v [OF y] show ?thesis unfolding jelems_Suc by blast
  qed
  moreover have "jmembers (Suc n) d (s @ t) = Some (ms, r @ t)" if s: "jmembers (Suc n) d s = Some (ms, r)" for d s ms r
  proof -
    from s [unfolded jmembers_Suc] obtain s0 k s1 s2 y s3 p
      where steps: "skip_ws s = dquote # s0" "scan_string s0 = Some (k, s1)" "skip_ws s1 = CHR '':'' # s2"
        "jvalue n d (skip_ws s2) = Some (y, s3)"
      and p: "p = (unquote k, take (length (skip_ws s2) - length s3) (skip_ws s2), y)"
      and alt: "(\<exists>s4 ms'. skip_ws s3 = CHR '','' # s4 \<and> jmembers n d s4 = Some (ms', r) \<and> ms = p # ms') \<or>
         skip_ws s3 = CHR ''}'' # r \<and> ms = [p]" by blast
    from steps(4) have "skip_ws s2 \<noteq> []" using jvalue_length by fastforce
    then have s2: "skip_ws (s2 @ t) = skip_ws s2 @ t"
      by (cases "skip_ws s2") (simp_all add: skip_ws_append)
    from alt m [of d] have alt': "(\<exists>s4 ms'. skip_ws (s3 @ t) = CHR '','' # s4 \<and>
        jmembers n d s4 = Some (ms', r @ t) \<and> ms = p # ms') \<or>
      skip_ws (s3 @ t) = CHR ''}'' # (r @ t) \<and> ms = [p]"
      using skip_ws_append by blast
    have p': "p = (unquote k, take (length (skip_ws (s2 @ t)) - length (s3 @ t)) (skip_ws (s2 @ t)), y)"
      using jvalue_length [OF steps(4)] by (simp add: p s2)
    have "jvalue n d (skip_ws (s2 @ t)) = Some (y, s3 @ t)" using v [OF steps(4)] s2 by simp
    then show ?thesis
      using skip_ws_append [OF steps(1), of t] scan_string_append [OF steps(2), of t]
        skip_ws_append [OF steps(3), of t] p' alt'
      unfolding jmembers_Suc by blast
  qed
  ultimately show ?case by blast
qed (simp_all add: jvalue.simps jelems.simps jmembers.simps)

lemma jvalue_append: "jvalue n d s = Some (v, r) \<Longrightarrow> number_stop t \<Longrightarrow> jvalue n d (s @ t) = Some (v, r @ t)"
  using json_append by blast

section \<open>Strings are read back\<close>

text \<open>Well-formed UTF-8: encoding the code points again gives the text.\<close>

definition utf8 :: "string \<Rightarrow> bool" where
  "utf8 s \<longleftrightarrow> concat (map encode_rune (rune_values s)) = s"

lemma rune_values_valid: "list_all valid_rune (rune_values s)"
  using runes_valid [of _ s] by (auto simp: rune_values_def list_all_iff)

lemma utf8_runes: "utf8 s \<Longrightarrow> runes s = map (\<lambda>r. (r, encode_rune r)) (rune_values s)"
  using runes_encode_list [OF rune_values_valid, of s "[]"] by (simp add: utf8_def)

lemma utf8_encode: "list_all valid_rune rs \<Longrightarrow> utf8 (concat (map encode_rune rs))"
  using runes_encode_list [of rs "[]"] by (simp add: utf8_def rune_values_def comp_def)

lemma encode_rune_ascii: "r < 128 \<Longrightarrow> encode_rune r = [char_of r]"
  by (simp add: encode_rune_def valid_rune_def)

lemma encode_byte: "byte_val c < 128 \<Longrightarrow> encode_rune (byte_val c) = [c]"
  by (simp add: encode_rune_ascii byte_val_def)

lemma ascii_utf8: "ascii s \<Longrightarrow> utf8 s"
  by (induction s) (simp_all add: utf8_def rune_values_def encode_byte)

lemma hex_digit_val: "hex_val (hex_digit n) = Some (n mod 16)"
proof -
  define k where "k = n mod 16"
  have "k < 16" by (simp add: k_def)
  then consider "k = 0" | "k = 1" | "k = 2" | "k = 3" | "k = 4" | "k = 5" | "k = 6" | "k = 7" | "k = 8"
    | "k = 9" | "k = 10" | "k = 11" | "k = 12" | "k = 13" | "k = 14" | "k = 15" by atomize_elim arith
  then show ?thesis unfolding hex_digit_def k_def [symmetric]
    by cases (simp_all add: hex_val_def byte_val_def)
qed

lemma hex_val_zero: "hex_val (CHR ''0'') = Some 0"
  by (simp add: hex_val_def byte_val_def)

lemma hex4_byte: "r < 256 \<Longrightarrow> hex4 (CHR ''0'') (CHR ''0'') (hex_digit (r div 16)) (hex_digit r) = Some r"
  by (simp add: hex4_def hex_digit_val hex_val_zero)

lemma hex4_separator: "hex4 (CHR ''2'') (CHR ''0'') (CHR ''2'') (hex_digit r) = Some (8224 + r mod 16)"
  by (simp add: hex4_def hex_digit_val) (simp add: hex_val_def byte_val_def)

lemma unquote_simple: "simple_escape e = Some x \<Longrightarrow> unquote (bslash # e # t) = x # unquote t"
  by (simp add: unquote.simps)

lemma unquote_hex:
  "hex4 h1 h2 h3 h4 = Some r \<Longrightarrow> \<not> is_surrogate r \<Longrightarrow>
   unquote (bslash # CHR ''u'' # h1 # h2 # h3 # h4 # t) = encode_rune r @ unquote t"
  by (simp add: unquote.simps simple_escape_def next_u4_def)

lemma unquote_plain:
  assumes "valid_rune r" "r \<noteq> 92"
  shows "unquote (encode_rune r @ t) = encode_rune r @ unquote t"
proof -
  obtain c cs where e: "encode_rune r = c # cs" by (cases "encode_rune r") simp_all
  have c: "c \<noteq> bslash"
  proof
    assume "c = bslash"
    then have "decode_rune (encode_rune r @ t) = (92, 1)" by (simp add: e decode_rune_def byte_val_def)
    with decode_encode [OF assms(1), of t] assms(2) show False by simp
  qed
  with e decode_encode [OF assms(1), of t] show ?thesis by (simp add: unquote.simps)
qed

lemma encode_rune_high: "128 \<le> r \<Longrightarrow> list_all (\<lambda>c. 128 \<le> byte_val c) (encode_rune r)"
proof -
  assume r: "128 \<le> r"
  define q where "q = (if valid_rune r then r else rune_error)"
  have q: "128 \<le> q" "q \<le> 1114111" using r by (auto simp: q_def rune_error_def valid_rune_def)
  have "q div 262144 < 16" using q by (simp add: div_less_iff_less_mult)
  moreover have "q < 65536 \<Longrightarrow> q div 4096 < 32" "q < 2048 \<Longrightarrow> q div 64 < 64"
    by (simp_all add: div_less_iff_less_mult)
  ultimately show ?thesis
    using q unfolding encode_rune_def q_def [symmetric] Let_def by simp
qed

lemma scan_string_high:
  "list_all (\<lambda>c. 128 \<le> byte_val c) bs \<Longrightarrow>
   scan_string (bs @ t) = map_option (\<lambda>(b, r). (bs @ b, r)) (scan_string t)"
proof (induction bs)
  case Nil
  then show ?case by (cases "scan_string t") simp_all
next
  case (Cons c bs)
  then have "c \<noteq> dquote" "c \<noteq> bslash" by (auto simp: byte_val_def)
  with Cons show ?case by (cases "scan_string t") (auto simp: scan_string_steps(4))
qed

lemma char_of_specials:
  "char_of (92 :: nat) = bslash" "char_of (34 :: nat) = dquote" "char_of (8 :: nat) = CHR 0x08"
  "char_of (12 :: nat) = CHR 0x0C" "char_of (10 :: nat) = CHR 0x0A" "char_of (13 :: nat) = CHR 0x0D"
  "char_of (9 :: nat) = CHR 0x09"
  by code_simp+

lemma escape_rune_read:
  assumes "valid_rune r"
  shows "scan_string (escape_rune (r, encode_rune r) @ t) =
      map_option (\<lambda>(b, q). (escape_rune (r, encode_rune r) @ b, q)) (scan_string t) \<and>
    unquote (escape_rune (r, encode_rune r) @ t) = encode_rune r @ unquote t"
    (is "?S \<and> ?U")
proof (cases "r < 128")
  case True
  note e = encode_rune_ascii [OF True]
  show ?thesis
  proof (cases "html_safe r")
    case safe: True
    then have "char_of r \<noteq> dquote" "char_of r \<noteq> bslash" "r \<noteq> 92" "32 \<le> r"
      by (auto simp: html_safe_def dest!: arg_cong [of _ _ "of_char :: char \<Rightarrow> nat"])
    with True safe unquote_plain [OF assms, of t] show ?thesis
      by (simp add: escape_rune_def e scan_string_steps(4))
  next
    case False
    have "r \<noteq> 127" using False by (auto simp: html_safe_def)
    have simple: ?thesis if "escape_rune (r, encode_rune r) = [bslash, x]" "simple_escape x = Some (char_of r)" for x
      using that by (simp add: e scan_string_steps(2) unquote_simple)
    have hex: ?thesis if "escape_rune (r, encode_rune r) =
        [bslash, CHR ''u'', CHR ''0'', CHR ''0'', hex_digit (r div 16), hex_digit r]"
    proof -
      have "\<not> is_surrogate r" using True by (simp add: is_surrogate_def)
      then show ?thesis
        using that hex4_byte [of r] True by (simp add: scan_string_steps(3) unquote_hex)
    qed
    consider "r = 92" | "r = 34" | "r = 8" | "r = 12" | "r = 10" | "r = 13" | "r = 9"
      | "r \<noteq> 92" "r \<noteq> 34" "r \<noteq> 8" "r \<noteq> 12" "r \<noteq> 10" "r \<noteq> 13" "r \<noteq> 9" by blast
    then show ?thesis
    proof cases
      case 1
      then show ?thesis by (intro simple [of bslash]) (simp_all add: escape_rune_def encode_rune_ascii char_of_specials html_safe_def simple_escape_def)
    next
      case 2
      then show ?thesis by (intro simple [of dquote]) (simp_all add: escape_rune_def encode_rune_ascii char_of_specials html_safe_def simple_escape_def)
    next
      case 3
      then show ?thesis by (intro simple [of "CHR ''b''"]) (simp_all add: escape_rune_def char_of_specials html_safe_def simple_escape_def)
    next
      case 4
      then show ?thesis by (intro simple [of "CHR ''f''"]) (simp_all add: escape_rune_def char_of_specials html_safe_def simple_escape_def)
    next
      case 5
      then show ?thesis by (intro simple [of "CHR ''n''"]) (simp_all add: escape_rune_def char_of_specials html_safe_def simple_escape_def)
    next
      case 6
      then show ?thesis by (intro simple [of "CHR ''r''"]) (simp_all add: escape_rune_def char_of_specials html_safe_def simple_escape_def)
    next
      case 7
      then show ?thesis by (intro simple [of "CHR ''t''"]) (simp_all add: escape_rune_def char_of_specials html_safe_def simple_escape_def)
    next
      case 8
      with True False show ?thesis by (intro hex) (simp add: escape_rune_def)
    qed
  qed
next
  case False
  then have high: "128 \<le> r" by simp
  show ?thesis
  proof (cases "r = 8232 \<or> r = 8233")
    case True
    then have "escape_rune (r, encode_rune r) = [bslash, CHR ''u'', CHR ''2'', CHR ''0'', CHR ''2'', hex_digit r]"
      by (auto simp: escape_rune_def rune_error_def)
    moreover have "hex4 (CHR ''2'') (CHR ''0'') (CHR ''2'') (hex_digit r) = Some r" "\<not> is_surrogate r"
      using True by (auto simp: hex4_separator is_surrogate_def)
    ultimately show ?thesis by (simp add: scan_string_steps(3) unquote_hex)
  next
    case sep: False
    have "length (encode_rune r) \<noteq> 1" using high length_encode_rune [OF assms] by simp
    with False sep have e: "escape_rune (r, encode_rune r) = encode_rune r"
      by (simp add: escape_rune_def)
    have "r \<noteq> 92" using high by simp
    then show ?thesis
      unfolding e using scan_string_high [OF encode_rune_high [OF high]] unquote_plain [OF assms] by blast
  qed
qed

lemma json_string_read:
  assumes "utf8 s"
  shows "\<exists>b. scan_string (tl (json_string s) @ t) = Some (b, t) \<and> unquote b = s"
proof -
  have "\<exists>b. scan_string (concat (map escape_rune (map (\<lambda>r. (r, encode_rune r)) rs)) @ dquote # t) = Some (b, t) \<and>
      unquote b = concat (map encode_rune rs)" if "list_all valid_rune rs" for rs
    using that
  proof (induction rs)
    case Nil
    then show ?case by (simp add: scan_string_steps(1) unquote.simps)
  next
    case (Cons r rs)
    then obtain b where "scan_string (concat (map escape_rune (map (\<lambda>r. (r, encode_rune r)) rs)) @ dquote # t) = Some (b, t)"
      "unquote b = concat (map encode_rune rs)" by auto
    with escape_rune_read [of r] Cons.prems show ?case by simp
  qed
  from this [OF rune_values_valid, of s] assms utf8_runes [OF assms] show ?thesis
    by (simp add: json_string_def utf8_def)
qed

section \<open>Marshalled values are scanned to themselves\<close>

definition reads :: "nat \<Rightarrow> string \<Rightarrow> json \<Rightarrow> bool" where
  "reads d tx v \<longleftrightarrow> tx \<noteq> [] \<and> \<not> is_json_space (hd tx) \<and> (\<exists>n. jvalue n d tx = Some (v, []))"

lemma reads_at: "reads d tx v \<Longrightarrow> number_stop t \<Longrightarrow> \<exists>n. jvalue n d (tx @ t) = Some (v, t)"
  unfolding reads_def using jvalue_append [of _ d tx v "[]" t] by fastforce

lemma reads_skip: "reads d tx v \<Longrightarrow> skip_ws (tx @ t) = tx @ t"
  by (cases tx) (simp_all add: reads_def skip_ws_def)

lemma reads_scalar:
  "tx = c # cs \<Longrightarrow> \<not> is_json_space c \<Longrightarrow> c \<noteq> CHR ''{'' \<Longrightarrow> c \<noteq> CHR ''['' \<Longrightarrow>
   scan_scalar tx = Some (v, []) \<Longrightarrow> reads d tx v"
  unfolding reads_def by (auto simp: skip_ws_def jvalue.simps(2) intro: exI [of _ "Suc 0"])

lemma reads_string: "utf8 s \<Longrightarrow> reads d (json_string s) (JStr s)"
  using json_string_read [of s "[]"]
  by (intro reads_scalar) (auto simp: json_string_def scan_scalar_def is_json_space_def)

lemma reads_null: "reads d ''null'' JNull"
  by (intro reads_scalar) (auto simp: scan_scalar_def is_json_space_def)

lemma nat_digits_head: "nat_digits n = c # cs \<Longrightarrow> cs \<noteq> [] \<Longrightarrow> c \<noteq> CHR ''0''"
proof (induction n arbitrary: c cs rule: nat_digits.induct)
  case (1 n)
  have "\<not> n < 10" using 1 nat_digits.simps [of n] by auto
  then have e: "nat_digits n = nat_digits (n div 10) @ [digit_char (n mod 10)]" "n div 10 \<noteq> 0"
    using nat_digits.simps [of n] by auto
  obtain x xs where x: "nat_digits (n div 10) = x # xs" by (cases "nat_digits (n div 10)") simp_all
  show ?case
  proof (cases xs)
    case Nil
    with x have "n div 10 < 10" "x = digit_char (n div 10)"
      using nat_digits.simps [of "n div 10"] by (auto split: if_splits)
    then have "digit_val x = n div 10" by simp
    with e x 1(2) show ?thesis by (auto simp: digit_val_def byte_val_def)
  next
    case Cons
    with 1(1) [OF \<open>\<not> n < 10\<close> x] e x 1(2) show ?thesis by simp
  qed
qed

lemma scan_number_digits: "scan_whole (nat_digits n) = Some (nat_digits n, [])"
proof -
  obtain c cs where c: "nat_digits n = c # cs" by (cases "nat_digits n") simp_all
  have "list_all is_digit (nat_digits n)" by simp
  then have "takeWhile is_digit (nat_digits n) = nat_digits n" "dropWhile is_digit (nat_digits n) = []"
    by (simp_all add: list_all_iff)
  with c nat_digits_head [OF c] show ?thesis by (cases cs) (auto simp: scan_whole_def scan_digits_def)
qed

lemma scan_number_itoa: "scan_number (go_itoa i) = Some (go_itoa i, [])"
proof -
  obtain c cs where c: "nat_digits (nat i) = c # cs" by (cases "nat_digits (nat i)") simp_all
  have "is_digit c" using nat_digits_all [of "nat i"] c by simp
  then have "c \<noteq> CHR ''-''" by (auto simp: is_digit_def in_range_def byte_val_def)
  with c scan_number_digits [of "nat i"] scan_number_digits [of "nat (- i)"] show ?thesis
    by (simp add: scan_number_def scan_sign_def go_itoa_def scan_frac_def scan_exp_def)
qed

lemma reads_int: "reads d (go_itoa i) (JNum (go_itoa i))"
proof -
  obtain c cs where c: "go_itoa i = c # cs"
    using scan_number_itoa [of i] by (cases "go_itoa i") (auto simp: scan_number_def scan_sign_def scan_whole_def scan_digits_def)
  with scan_number_head [of c cs] scan_number_itoa [of i] have "c = CHR ''-'' \<or> is_digit c" by simp
  then show ?thesis
    using c scan_number_itoa [of i]
    by (intro reads_scalar [OF c])
      (auto simp: scan_scalar_def is_json_space_def is_digit_def in_range_def byte_val_def)
qed

lemma jmembers_object:
  assumes "ms \<noteq> []" and "list_all (\<lambda>(k, tx, v). utf8 k \<and> reads d tx v) ms"
  shows "\<exists>n. jmembers n d (join_on (CHR '','') (map (\<lambda>(k, tx, v). json_member (k, tx)) ms) @ ''}'') = Some (ms, [])"
  using assms
proof (induction ms rule: list_nonempty_induct)
  case (single m)
  obtain k tx v where m: "m = (k, tx, v)" by (cases m)
  from single m have k: "utf8 k" and tx: "reads d tx v" by simp_all
  from reads_at [OF tx, of "''}''"] obtain n where n: "jvalue n d (tx @ ''}'') = Some (v, ''}'')" by auto
  obtain b where b: "scan_string (tl (json_string k) @ CHR '':'' # tx @ ''}'') = Some (b, CHR '':'' # tx @ ''}'')"
    "unquote b = k" using json_string_read [OF k] by blast
  have "jmembers (Suc n) d (json_member (k, tx) @ ''}'') = Some ([m], [])"
    unfolding jmembers_Suc m
    by (rule exI [of _ "tl (json_string k) @ CHR '':'' # tx @ ''}''"],
        rule exI [of _ b], rule exI [of _ "CHR '':'' # tx @ ''}''"], rule exI [of _ "tx @ ''}''"],
        rule exI [of _ v], rule exI [of _ "''}''"])
      (use b n reads_skip [OF tx] in \<open>auto simp: json_member_def json_string_def skip_ws_def is_json_space_def\<close>)
  with m show ?case by auto
next
  case (cons m ms)
  obtain k tx v where m: "m = (k, tx, v)" by (cases m)
  let ?rest = "join_on (CHR '','') (map (\<lambda>(k, tx, v). json_member (k, tx)) ms) @ ''}''"
  from cons m have k: "utf8 k" and tx: "reads d tx v" by simp_all
  from cons obtain n1 where n1: "jmembers n1 d ?rest = Some (ms, [])" by auto
  from reads_at [OF tx, of "CHR '','' # ?rest"] obtain n2
    where n2: "jvalue n2 d (tx @ CHR '','' # ?rest) = Some (v, CHR '','' # ?rest)" by auto
  define n where "n = max n1 n2"
  from n1 have n1: "jmembers n d ?rest = Some (ms, [])" by (rule jmembers_more) (simp add: n_def)
  from n2 have n2: "jvalue n d (tx @ CHR '','' # ?rest) = Some (v, CHR '','' # ?rest)"
    by (rule jvalue_more) (simp add: n_def)
  let ?tail = "CHR '':'' # tx @ CHR '','' # ?rest"
  obtain b where b: "scan_string (tl (json_string k) @ ?tail) = Some (b, ?tail)" "unquote b = k"
    using json_string_read [OF k] by blast
  have "jmembers (Suc n) d (json_member (k, tx) @ CHR '','' # ?rest) = Some (m # ms, [])"
    unfolding jmembers_Suc m
    by (rule exI [of _ "tl (json_string k) @ ?tail"],
        rule exI [of _ b], rule exI [of _ ?tail], rule exI [of _ "tx @ CHR '','' # ?rest"],
        rule exI [of _ v], rule exI [of _ "CHR '','' # ?rest"])
      (use b n1 n2 reads_skip [OF tx] in \<open>auto simp: json_member_def json_string_def skip_ws_def is_json_space_def\<close>)
  moreover have "join_on (CHR '','') (map (\<lambda>(k, tx, v). json_member (k, tx)) (m # ms)) @ ''}'' =
      json_member (k, tx) @ CHR '','' # ?rest"
    using cons.hyps m by (cases ms) simp_all
  ultimately show ?case by metis
qed

lemma reads_object:
  assumes "d < maxNestingDepth" and "list_all (\<lambda>(k, tx, v). utf8 k \<and> reads (Suc d) tx v) ms"
  shows "reads d (json_object (map (\<lambda>(k, tx, v). (k, tx)) ms)) (JObj ms)"
proof (cases "ms = []")
  case True
  then show ?thesis using assms(1)
    by (auto simp: reads_def json_object_def is_json_space_def skip_ws_def jvalue.simps(2) intro: exI [of _ "Suc 0"])
next
  case False
  let ?body = "join_on (CHR '','') (map (\<lambda>(k, tx, v). json_member (k, tx)) ms) @ ''}''"
  from jmembers_object [OF False assms(2)] obtain n where n: "jmembers n (Suc d) ?body = Some (ms, [])" ..
  have "take 1 (skip_ws ?body) \<noteq> ''}''"
    using False by (cases ms; cases "tl ms") (auto simp: json_member_def json_string_def skip_ws_def is_json_space_def)
  then have "jvalue (Suc n) d (CHR ''{'' # ?body) = Some (JObj ms, [])"
    using assms(1) n by (simp add: jvalue.simps(2) skip_ws_def [of "_ # _"] is_json_space_def)
  moreover have "map json_member (map (\<lambda>(k, tx, v). (k, tx)) ms) = map (\<lambda>(k, tx, v). json_member (k, tx)) ms"
    by auto
  ultimately show ?thesis unfolding reads_def json_object_def
    by (simp only: list.sel is_json_space_def) auto
qed

lemma jelems_array:
  assumes "ms \<noteq> []" and "list_all (\<lambda>(tx, v). reads d tx v) ms"
  shows "\<exists>n. jelems n d (join_on (CHR '','') (map fst ms) @ '']'') = Some (map snd ms, [])"
  using assms
proof (induction ms rule: list_nonempty_induct)
  case (single m)
  obtain tx v where m: "m = (tx, v)" by (cases m)
  with single have tx: "reads d tx v" by simp
  from reads_at [OF tx, of "'']''"] obtain n where "jvalue n d (tx @ '']'') = Some (v, '']'')" by auto
  then have "jelems (Suc n) d (tx @ '']'') = Some ([v], [])"
    unfolding jelems_Suc by (auto simp: skip_ws_def is_json_space_def)
  with m show ?case by auto
next
  case (cons m ms)
  obtain tx v where m: "m = (tx, v)" by (cases m)
  let ?rest = "join_on (CHR '','') (map fst ms) @ '']''"
  from cons m have tx: "reads d tx v" by simp
  from cons obtain n1 where n1: "jelems n1 d ?rest = Some (map snd ms, [])" by auto
  from reads_at [OF tx, of "CHR '','' # ?rest"] obtain n2
    where n2: "jvalue n2 d (tx @ CHR '','' # ?rest) = Some (v, CHR '','' # ?rest)" by auto
  define n where "n = max n1 n2"
  from n1 have n1: "jelems n d ?rest = Some (map snd ms, [])" by (rule jelems_more) (simp add: n_def)
  from n2 have n2: "jvalue n d (tx @ CHR '','' # ?rest) = Some (v, CHR '','' # ?rest)"
    by (rule jvalue_more) (simp add: n_def)
  have "jelems (Suc n) d (tx @ CHR '','' # ?rest) = Some (v # map snd ms, [])"
    unfolding jelems_Suc using n1 n2 by (auto simp: skip_ws_def is_json_space_def)
  moreover have "join_on (CHR '','') (map fst (m # ms)) @ '']'' = tx @ CHR '','' # ?rest"
    using cons.hyps m by (cases ms) simp_all
  ultimately show ?case using m by auto
qed

lemma reads_array:
  assumes "d < maxNestingDepth" and "list_all (\<lambda>(tx, v). reads (Suc d) tx v) ms"
  shows "reads d (json_array (map fst ms)) (JArr (map snd ms))"
proof (cases "ms = []")
  case True
  then show ?thesis using assms(1)
    by (auto simp: reads_def json_array_def is_json_space_def skip_ws_def jvalue.simps(2) intro: exI [of _ "Suc 0"])
next
  case False
  let ?body = "join_on (CHR '','') (map fst ms) @ '']''"
  from jelems_array [OF False assms(2)] obtain n where n: "jelems n (Suc d) ?body = Some (map snd ms, [])" ..
  have "take 1 (skip_ws ?body) \<noteq> '']''"
  proof
    assume "take 1 (skip_ws ?body) = '']''"
    then obtain r where r: "skip_ws ?body = CHR '']'' # r" by (cases "skip_ws ?body") auto
    have "jvalue k (Suc d) ?body = None" for k
      by (cases k) (simp_all add: jvalue.simps r scan_scalar_def scan_number_def scan_sign_def
          scan_whole_def scan_digits_def is_digit_def in_range_def byte_val_def)
    with n show False by (cases n) (simp_all add: jelems.simps)
  qed
  then have "jvalue (Suc n) d (CHR ''['' # ?body) = Some (JArr (map snd ms), [])"
    using assms(1) n by (simp add: jvalue.simps(2) skip_ws_def [of "_ # _"] is_json_space_def)
  then show ?thesis by (auto simp: reads_def json_array_def is_json_space_def)
qed

lemma reads_scan: "reads 0 tx v \<Longrightarrow> json_scan tx = Some (v, [])"
  unfolding reads_def by (blast intro: json_scan_some)

lemma reads_scan_line: "reads 0 tx v \<Longrightarrow> json_scan (tx @ [CHR 0x0A]) = Some (v, [CHR 0x0A])"
  using reads_at [of 0 tx v "[CHR 0x0A]"] by (auto intro: json_scan_some)

lemma json_decode_reads: "reads 0 tx v \<Longrightarrow> dec_struct fs v zero = Some a \<Longrightarrow> json_decode fs zero tx = Inr a"
  by (simp add: json_decode_def reads_scan skip_ws_def)

lemma json_decode_reads_line:
  "reads 0 tx v \<Longrightarrow> dec_struct fs v zero = Some a \<Longrightarrow> json_decode fs zero (tx @ [CHR 0x0A]) = Inr a"
  by (simp add: json_decode_def reads_scan_line skip_ws_def is_json_space_def)

section \<open>Marshalled text is compact\<close>

text \<open>Text that \<open>compact\<close> copies unchanged, and leaves it outside a string.\<close>

definition compacted :: "string \<Rightarrow> bool" where
  "compacted tx \<longleftrightarrow> (\<forall>t. compact False (tx @ t) = tx @ compact False t)"

lemma compacted_fixed: "compacted tx \<Longrightarrow> compact False tx = tx"
  unfolding compacted_def by (metis append.right_neutral compact.simps(1))

lemma compacted_append: "compacted a \<Longrightarrow> compacted b \<Longrightarrow> compacted (a @ b)"
  by (simp add: compacted_def)

lemma compacted_Nil [simp]: "compacted []"
  by (simp add: compacted_def)

definition plain_byte :: "char \<Rightarrow> bool" where
  "plain_byte c \<longleftrightarrow> \<not> is_json_space c \<and> c \<noteq> CHR ''<'' \<and> c \<noteq> CHR ''>'' \<and> c \<noteq> CHR ''&'' \<and>
     c \<noteq> CHR 0xE2 \<and> c \<noteq> dquote"

lemma compacted_plain: "list_all plain_byte tx \<Longrightarrow> compacted tx"
  by (induction tx) (auto simp: compacted_def plain_byte_def)

lemma compacted_digits: "compacted (go_itoa i)"
proof -
  have "plain_byte c" if "is_digit c" for c
    using that by (auto simp: is_digit_def in_range_def byte_val_def plain_byte_def is_json_space_def)
  then have "list_all plain_byte (nat_digits n)" for n
    using nat_digits_all [of n] by (simp add: list_all_iff)
  moreover have "plain_byte (CHR ''-'')" by (simp add: plain_byte_def is_json_space_def)
  ultimately show ?thesis by (intro compacted_plain) (simp add: go_itoa_def)
qed

lemma encode_rune_tail: "encode_rune r = c # cs \<Longrightarrow> list_all (\<lambda>x. byte_val x < 192) cs"
  by (auto simp: encode_rune_def Let_def split: if_splits)

lemma compact_high:
  "list_all (\<lambda>c. 128 \<le> byte_val c \<and> c \<noteq> CHR 0xE2) bs \<Longrightarrow> compact q (bs @ t) = bs @ compact q t"
proof (induction bs)
  case (Cons c bs)
  then have "c \<noteq> dquote" "c \<noteq> bslash" "\<not> is_json_space c" "c \<noteq> CHR ''<''" "c \<noteq> CHR ''>''" "c \<noteq> CHR ''&''"
    by (auto simp: byte_val_def is_json_space_def)
  with Cons show ?case by simp
qed simp

lemma compact_escape:
  assumes "valid_rune r"
  shows "compact True (escape_rune (r, encode_rune r) @ t) = escape_rune (r, encode_rune r) @ compact True t"
proof (cases "r < 128")
  case True
  note e = encode_rune_ascii [OF True]
  have hex: "hex_digit n \<noteq> CHR ''<''" "hex_digit n \<noteq> CHR ''>''" "hex_digit n \<noteq> CHR ''&''"
    "hex_digit n \<noteq> bslash" "hex_digit n \<noteq> dquote" "hex_digit n \<noteq> CHR 0xE2" for n
    using hex_digit_val [of n] by (auto simp: hex_val_def byte_val_def)
  have "html_safe r \<Longrightarrow> char_of r \<noteq> dquote \<and> char_of r \<noteq> bslash \<and> char_of r \<noteq> CHR ''<'' \<and>
      char_of r \<noteq> CHR ''>'' \<and> char_of r \<noteq> CHR ''&'' \<and> char_of r \<noteq> CHR 0xE2"
    by (auto simp: html_safe_def dest!: arg_cong [of _ _ "of_char :: char \<Rightarrow> nat"])
  then show ?thesis using True by (auto simp: escape_rune_def e hex char_of_specials)
next
  case False
  then have high: "128 \<le> r" by simp
  show ?thesis
  proof (cases "r = 8232 \<or> r = 8233")
    case True
    have "hex_digit n \<noteq> CHR ''<''" "hex_digit n \<noteq> CHR ''>''" "hex_digit n \<noteq> CHR ''&''"
      "hex_digit n \<noteq> bslash" "hex_digit n \<noteq> dquote" "hex_digit n \<noteq> CHR 0xE2" for n
      using hex_digit_val [of n] by (auto simp: hex_val_def byte_val_def)
    with True show ?thesis by (auto simp: escape_rune_def rune_error_def)
  next
    case sep: False
    obtain c cs where c: "encode_rune r = c # cs" by (cases "encode_rune r") simp_all
    have "length (encode_rune r) \<noteq> 1" using high length_encode_rune [OF assms] by simp
    with False sep have e: "escape_rune (r, encode_rune r) = encode_rune r"
      by (simp add: escape_rune_def)
    have bytes: "128 \<le> byte_val c" "list_all (\<lambda>x. 128 \<le> byte_val x) cs"
      using encode_rune_high [OF high] c by simp_all
    have tail: "list_all (\<lambda>x. 128 \<le> byte_val x \<and> x \<noteq> CHR 0xE2) cs"
      using bytes(2) encode_rune_tail [OF c] by (auto simp: list_all_iff byte_val_def)
    have "\<not> (c = CHR 0xE2 \<and> (take 2 (cs @ t) = [CHR 0x80, CHR 0xA8] \<or> take 2 (cs @ t) = [CHR 0x80, CHR 0xA9]))"
    proof
      assume "c = CHR 0xE2 \<and> (take 2 (cs @ t) = [CHR 0x80, CHR 0xA8] \<or> take 2 (cs @ t) = [CHR 0x80, CHR 0xA9])"
      then obtain x u where cst: "c = CHR 0xE2" "cs @ t = CHR 0x80 # x # u" "x = CHR 0xA8 \<or> x = CHR 0xA9"
        by (metis append_Cons append_Nil take_prefix)
      then have "decode_rune (encode_rune r @ t) = (8232, 3) \<or> decode_rune (encode_rune r @ t) = (8233, 3)"
        by (auto simp: c decode_rune_def byte_val_def lead_info_def in_range_def)
      with decode_encode [OF assms, of t] sep show False by auto
    qed
    moreover from bytes(1) have "c \<noteq> dquote" "c \<noteq> bslash" "c \<noteq> CHR ''<''" "c \<noteq> CHR ''>''" "c \<noteq> CHR ''&''"
      by (auto simp: byte_val_def)
    ultimately have "compact True (c # cs @ t) = c # compact True (cs @ t)" by simp
    with compact_high [OF tail, of True t] have "compact True (encode_rune r @ t) = encode_rune r @ compact True t"
      unfolding c by (simp only: append_Cons)
    then show ?thesis unfolding e .
  qed
qed

lemma compacted_string: "utf8 s \<Longrightarrow> compacted (json_string s)"
proof -
  assume s: "utf8 s"
  have "compact True (concat (map escape_rune (map (\<lambda>r. (r, encode_rune r)) rs)) @ dquote # t) =
      concat (map escape_rune (map (\<lambda>r. (r, encode_rune r)) rs)) @ dquote # compact False t"
    if "list_all valid_rune rs" for rs t
    using that by (induction rs) (simp_all add: compact_escape is_json_space_def)
  from this [OF rune_values_valid, of s] utf8_runes [OF s] show ?thesis
    by (simp add: compacted_def json_string_def is_json_space_def)
qed

lemma compacted_punct [simp]:
  "compacted ''{''" "compacted ''}''" "compacted '':''" "compacted '',''" "compacted ''[''" "compacted '']''"
  "compacted ''null''"
  by (rule compacted_plain; simp add: plain_byte_def is_json_space_def)+

lemma compacted_join: "list_all compacted ws \<Longrightarrow> compacted (join_on (CHR '','') ws)"
proof (induction "CHR '',''" ws rule: join_on.induct)
  case (3 w w' ws)
  then have "compacted (w @ '','' @ join_on (CHR '','') (w' # ws))"
    by (intro compacted_append) simp_all
  then show ?case by simp
qed simp_all

lemma compacted_object:
  assumes "list_all (\<lambda>(k, tx). utf8 k \<and> compacted tx) ms"
  shows "compacted (json_object ms)"
proof -
  have "compacted (json_string k @ '':'' @ tx)" if "utf8 k" "compacted tx" for k tx
    using that by (intro compacted_append compacted_string) simp_all
  with assms have "list_all compacted (map json_member ms)"
    by (auto simp: list_all_iff json_member_def)
  then have "compacted (''{'' @ join_on (CHR '','') (map json_member ms) @ ''}'')"
    by (intro compacted_append compacted_join) simp_all
  then show ?thesis by (simp add: json_object_def)
qed

lemma compacted_array: "list_all compacted ws \<Longrightarrow> compacted (json_array ws)"
proof -
  assume "list_all compacted ws"
  then have "compacted (''['' @ join_on (CHR '','') ws @ '']'')"
    by (intro compacted_append compacted_join) simp_all
  then show ?thesis by (simp add: json_array_def)
qed

lemma json_raw_reads: "reads 0 tx v \<Longrightarrow> compacted tx \<Longrightarrow> json_raw tx = Some tx"
  by (simp add: json_raw_def reads_scan skip_ws_def compacted_fixed)

end
