(* ===== verification/Protocol.thy ===== *)
theory Protocol
  imports Go_JSON
begin

text \<open>
  The signaling protocol (\<^verbatim>\<open>internal/protocol/messages.go\<close>): the message and payload
  types with their JSON form, the decoders and the validators that the server and the client
  run on everything they receive. The \<open>*_fields\<close> tables are the \<^verbatim>\<open>json\<close> tags of a struct,
  \<open>marshal_*\<close> is \<^verbatim>\<open>json.Marshal\<close> of it. A slice is a list, so a nil slice and an empty
  one are the same value; every slice the program marshals is non-nil, so it is written as
  \<^verbatim>\<open>[]\<close>. An error keeps its sentinel and its own text; the text of an underlying JSON
  error is dropped.
\<close>

section \<open>Constants and types\<close>

definition Version :: int where "Version = 1"
definition MaxSignalMessageBytes :: nat where "MaxSignalMessageBytes = 64 * 1024"
definition MaxPayloadBytes :: nat where "MaxPayloadBytes = 48 * 1024"
definition MaxUsernameRunes :: nat where "MaxUsernameRunes = 32"
definition MaxRoomIDBytes :: nat where "MaxRoomIDBytes = 128"
definition MaxPeerIDBytes :: nat where "MaxPeerIDBytes = 64"
definition MaxSDPBytes :: nat where "MaxSDPBytes = 32 * 1024"
definition MaxICECandidateBytes :: nat where "MaxICECandidateBytes = 8 * 1024"
definition MaxSDPMidBytes :: nat where "MaxSDPMidBytes = 256"
definition MaxUsernameFragBytes :: nat where "MaxUsernameFragBytes = 256"
definition MaxErrorCodeBytes :: nat where "MaxErrorCodeBytes = 64"
definition MaxErrorMessageBytes :: nat where "MaxErrorMessageBytes = 512"

lemmas protocol_limits =
  MaxSignalMessageBytes_def MaxPayloadBytes_def MaxUsernameRunes_def MaxRoomIDBytes_def
  MaxPeerIDBytes_def MaxSDPBytes_def MaxICECandidateBytes_def MaxSDPMidBytes_def
  MaxUsernameFragBytes_def MaxErrorCodeBytes_def MaxErrorMessageBytes_def

datatype proto_error =
    ErrProtocolVersion
  | ErrInvalidMessage string
  | ErrInvalidUsername
  | ErrInvalidRoomID
  | ErrInvalidPeerID
  | ErrMarshalPayload

type_synonym MessageType = string

definition MsgJoinRoom :: MessageType where "MsgJoinRoom = ''join_room''"
definition MsgJoinAccepted :: MessageType where "MsgJoinAccepted = ''join_accepted''"
definition MsgLeaveRoom :: MessageType where "MsgLeaveRoom = ''leave_room''"
definition MsgPeerJoined :: MessageType where "MsgPeerJoined = ''peer_joined''"
definition MsgPeerLeft :: MessageType where "MsgPeerLeft = ''peer_left''"
definition MsgOffer :: MessageType where "MsgOffer = ''offer''"
definition MsgAnswer :: MessageType where "MsgAnswer = ''answer''"
definition MsgICECandidate :: MessageType where "MsgICECandidate = ''ice_candidate''"
definition MsgError :: MessageType where "MsgError = ''error''"

lemmas message_types =
  MsgJoinRoom_def MsgJoinAccepted_def MsgLeaveRoom_def MsgPeerJoined_def MsgPeerLeft_def
  MsgOffer_def MsgAnswer_def MsgICECandidate_def MsgError_def

record SignalingMessage =
  m_Version :: int
  m_Type :: MessageType
  m_RoomID :: string
  m_PeerID :: string
  m_Username :: string
  m_Payload :: string

record PeerInfo =
  pi_PeerID :: string
  pi_Username :: string

record ICEServer =
  ice_URLs :: "string list"
  ice_Username :: string
  ice_Credential :: string
  ice_ExpiresAt :: int

record JoinAcceptedPayload =
  ja_RoomID :: string
  ja_PeerID :: string
  ja_Peers :: "PeerInfo list"
  ja_ICEServers :: "ICEServer list"

record ErrorPayload =
  ep_Code :: string
  ep_Message :: string

record SDPPayload =
  sdp_SDP :: string
  sdp_Type :: string

record ICECandidatePayload =
  cand_Candidate :: string
  cand_SDPMid :: "string option"
  cand_SDPMLineIndex :: "int option"
  cand_UsernameFragment :: "string option"

definition NewMessage :: "MessageType \<Rightarrow> SignalingMessage" where
  "NewMessage t = \<lparr>m_Version = Version, m_Type = t, m_RoomID = [], m_PeerID = [], m_Username = [], m_Payload = []\<rparr>"

section \<open>JSON form\<close>

definition zero_message :: SignalingMessage where
  "zero_message = \<lparr>m_Version = 0, m_Type = [], m_RoomID = [], m_PeerID = [], m_Username = [], m_Payload = []\<rparr>"

definition message_fields :: "SignalingMessage field list" where
  "message_fields =
     [(''version'', \<lambda>raw v m. map_option (\<lambda>x. m\<lparr>m_Version := x\<rparr>) (dec_int v (m_Version m))),
      (''type'', \<lambda>raw v m. map_option (\<lambda>x. m\<lparr>m_Type := x\<rparr>) (dec_string v (m_Type m))),
      (''room_id'', \<lambda>raw v m. map_option (\<lambda>x. m\<lparr>m_RoomID := x\<rparr>) (dec_string v (m_RoomID m))),
      (''peer_id'', \<lambda>raw v m. map_option (\<lambda>x. m\<lparr>m_PeerID := x\<rparr>) (dec_string v (m_PeerID m))),
      (''username'', \<lambda>raw v m. map_option (\<lambda>x. m\<lparr>m_Username := x\<rparr>) (dec_string v (m_Username m))),
      (''payload'', \<lambda>raw v m. Some (m\<lparr>m_Payload := raw\<rparr>))]"

definition omitempty :: "string \<Rightarrow> string \<Rightarrow> (string \<times> string) list" where
  "omitempty name s = (if s = [] then [] else [(name, json_string s)])"

definition marshal_message :: "SignalingMessage \<Rightarrow> string option" where
  "marshal_message m =
     (let head = [(''version'', go_itoa (m_Version m)), (''type'', json_string (m_Type m))]
            @ omitempty ''room_id'' (m_RoomID m) @ omitempty ''peer_id'' (m_PeerID m)
            @ omitempty ''username'' (m_Username m)
      in if m_Payload m = [] then Some (json_object head)
         else map_option (\<lambda>p. json_object (head @ [(''payload'', p)])) (json_raw (m_Payload m)))"

definition zero_peer :: PeerInfo where
  "zero_peer = \<lparr>pi_PeerID = [], pi_Username = []\<rparr>"

definition peer_fields :: "PeerInfo field list" where
  "peer_fields =
     [(''peer_id'', \<lambda>raw v p. map_option (\<lambda>x. p\<lparr>pi_PeerID := x\<rparr>) (dec_string v (pi_PeerID p))),
      (''username'', \<lambda>raw v p. map_option (\<lambda>x. p\<lparr>pi_Username := x\<rparr>) (dec_string v (pi_Username p)))]"

definition marshal_peer :: "PeerInfo \<Rightarrow> string" where
  "marshal_peer p =
     json_object [(''peer_id'', json_string (pi_PeerID p)), (''username'', json_string (pi_Username p))]"

definition zero_ice :: ICEServer where
  "zero_ice = \<lparr>ice_URLs = [], ice_Username = [], ice_Credential = [], ice_ExpiresAt = 0\<rparr>"

definition ice_fields :: "ICEServer field list" where
  "ice_fields =
     [(''urls'', \<lambda>raw v s. map_option (\<lambda>x. s\<lparr>ice_URLs := x\<rparr>) (dec_slice dec_string [] v (ice_URLs s))),
      (''username'', \<lambda>raw v s. map_option (\<lambda>x. s\<lparr>ice_Username := x\<rparr>) (dec_string v (ice_Username s))),
      (''credential'', \<lambda>raw v s. map_option (\<lambda>x. s\<lparr>ice_Credential := x\<rparr>) (dec_string v (ice_Credential s))),
      (''expires_at'', \<lambda>raw v s. map_option (\<lambda>x. s\<lparr>ice_ExpiresAt := x\<rparr>) (dec_int v (ice_ExpiresAt s)))]"

definition marshal_ice :: "ICEServer \<Rightarrow> string" where
  "marshal_ice s =
     json_object ([(''urls'', json_array (map json_string (ice_URLs s)))]
       @ omitempty ''username'' (ice_Username s) @ omitempty ''credential'' (ice_Credential s)
       @ (if ice_ExpiresAt s = 0 then [] else [(''expires_at'', go_itoa (ice_ExpiresAt s))]))"

definition zero_accepted :: JoinAcceptedPayload where
  "zero_accepted = \<lparr>ja_RoomID = [], ja_PeerID = [], ja_Peers = [], ja_ICEServers = []\<rparr>"

definition accepted_fields :: "JoinAcceptedPayload field list" where
  "accepted_fields =
     [(''room_id'', \<lambda>raw v a. map_option (\<lambda>x. a\<lparr>ja_RoomID := x\<rparr>) (dec_string v (ja_RoomID a))),
      (''peer_id'', \<lambda>raw v a. map_option (\<lambda>x. a\<lparr>ja_PeerID := x\<rparr>) (dec_string v (ja_PeerID a))),
      (''peers'', \<lambda>raw v a. map_option (\<lambda>x. a\<lparr>ja_Peers := x\<rparr>)
         (dec_slice (dec_struct peer_fields) zero_peer v (ja_Peers a))),
      (''ice_servers'', \<lambda>raw v a. map_option (\<lambda>x. a\<lparr>ja_ICEServers := x\<rparr>)
         (dec_slice (dec_struct ice_fields) zero_ice v (ja_ICEServers a)))]"

definition marshal_accepted :: "JoinAcceptedPayload \<Rightarrow> string" where
  "marshal_accepted a =
     json_object [(''room_id'', json_string (ja_RoomID a)), (''peer_id'', json_string (ja_PeerID a)),
       (''peers'', json_array (map marshal_peer (ja_Peers a))),
       (''ice_servers'', json_array (map marshal_ice (ja_ICEServers a)))]"

definition zero_error :: ErrorPayload where
  "zero_error = \<lparr>ep_Code = [], ep_Message = []\<rparr>"

definition error_fields :: "ErrorPayload field list" where
  "error_fields =
     [(''code'', \<lambda>raw v e. map_option (\<lambda>x. e\<lparr>ep_Code := x\<rparr>) (dec_string v (ep_Code e))),
      (''message'', \<lambda>raw v e. map_option (\<lambda>x. e\<lparr>ep_Message := x\<rparr>) (dec_string v (ep_Message e)))]"

definition marshal_error :: "ErrorPayload \<Rightarrow> string" where
  "marshal_error e =
     json_object [(''code'', json_string (ep_Code e)), (''message'', json_string (ep_Message e))]"

definition zero_sdp :: SDPPayload where
  "zero_sdp = \<lparr>sdp_SDP = [], sdp_Type = []\<rparr>"

definition sdp_fields :: "SDPPayload field list" where
  "sdp_fields =
     [(''sdp'', \<lambda>raw v p. map_option (\<lambda>x. p\<lparr>sdp_SDP := x\<rparr>) (dec_string v (sdp_SDP p))),
      (''type'', \<lambda>raw v p. map_option (\<lambda>x. p\<lparr>sdp_Type := x\<rparr>) (dec_string v (sdp_Type p)))]"

definition marshal_sdp :: "SDPPayload \<Rightarrow> string" where
  "marshal_sdp p = json_object [(''sdp'', json_string (sdp_SDP p)), (''type'', json_string (sdp_Type p))]"

definition zero_candidate :: ICECandidatePayload where
  "zero_candidate =
     \<lparr>cand_Candidate = [], cand_SDPMid = None, cand_SDPMLineIndex = None, cand_UsernameFragment = None\<rparr>"

definition candidate_fields :: "ICECandidatePayload field list" where
  "candidate_fields =
     [(''candidate'', \<lambda>raw v c. map_option (\<lambda>x. c\<lparr>cand_Candidate := x\<rparr>) (dec_string v (cand_Candidate c))),
      (''sdpMid'', \<lambda>raw v c. map_option (\<lambda>x. c\<lparr>cand_SDPMid := x\<rparr>)
         (dec_pointer dec_string [] v (cand_SDPMid c))),
      (''sdpMLineIndex'', \<lambda>raw v c. map_option (\<lambda>x. c\<lparr>cand_SDPMLineIndex := x\<rparr>)
         (dec_pointer dec_uint16 0 v (cand_SDPMLineIndex c))),
      (''usernameFragment'', \<lambda>raw v c. map_option (\<lambda>x. c\<lparr>cand_UsernameFragment := x\<rparr>)
         (dec_pointer dec_string [] v (cand_UsernameFragment c)))]"

definition marshal_pointer :: "('b \<Rightarrow> string) \<Rightarrow> 'b option \<Rightarrow> string" where
  "marshal_pointer f p = (case p of None \<Rightarrow> ''null'' | Some x \<Rightarrow> f x)"

definition marshal_candidate :: "ICECandidatePayload \<Rightarrow> string" where
  "marshal_candidate c =
     json_object ([(''candidate'', json_string (cand_Candidate c)),
        (''sdpMid'', marshal_pointer json_string (cand_SDPMid c)),
        (''sdpMLineIndex'', marshal_pointer go_itoa (cand_SDPMLineIndex c))]
       @ (case cand_UsernameFragment c of None \<Rightarrow> [] | Some f \<Rightarrow> [(''usernameFragment'', json_string f)]))"

section \<open>Decoding\<close>

definition DecodeMessage :: "string \<Rightarrow> (proto_error, SignalingMessage) res" where
  "DecodeMessage data =
     (if length data = 0 \<or> MaxSignalMessageBytes < length data then Inl (ErrInvalidMessage ''invalid message size'')
      else (case json_decode message_fields zero_message data of
          Inl JSONDecode \<Rightarrow> Inl (ErrInvalidMessage ''decode message'')
        | Inl JSONTrailing \<Rightarrow> Inl (ErrInvalidMessage ''message has trailing data'')
        | Inr m \<Rightarrow> Inr m))"

definition MarshalPayload :: "string option \<Rightarrow> (proto_error, string) res" where
  "MarshalPayload encoded =
     (case encoded of
        None \<Rightarrow> Inl ErrMarshalPayload
      | Some payload \<Rightarrow>
          if MaxPayloadBytes < length payload then Inl (ErrInvalidMessage ''payload exceeds 49152 bytes'')
          else Inr payload)"

definition DecodePayload :: "'a field list \<Rightarrow> 'a \<Rightarrow> string \<Rightarrow> (proto_error, 'a) res" where
  "DecodePayload fs zero payload =
     (if length payload = 0 \<or> MaxPayloadBytes < length payload then Inl (ErrInvalidMessage ''invalid payload size'')
      else (case json_decode fs zero payload of
          Inl JSONDecode \<Rightarrow> Inl (ErrInvalidMessage ''decode payload'')
        | Inl JSONTrailing \<Rightarrow> Inl (ErrInvalidMessage ''payload has trailing data'')
        | Inr a \<Rightarrow> Inr a))"

section \<open>Validation\<close>

definition hasControl :: "string \<Rightarrow> bool" where
  "hasControl s = list_ex is_control (rune_values s)"

definition validErrorCode :: "string \<Rightarrow> bool" where
  "validErrorCode s \<longleftrightarrow>
     s \<noteq> [] \<and> length s \<le> MaxErrorCodeBytes \<and>
     list_all (\<lambda>r. 97 \<le> r \<and> r \<le> 122 \<or> 48 \<le> r \<and> r \<le> 57 \<or> r = 95) (rune_values s)"

definition isIdentifierRune :: "unicode_tables \<Rightarrow> nat \<Rightarrow> bool" where
  "isIdentifierRune U r \<longleftrightarrow>
     is_letter U r \<or> is_unicode_digit U r \<or> is_mark U r \<or> r = 45 \<or> r = 95 \<or> r = 46"

definition ValidatePeerID :: "unicode_tables \<Rightarrow> string \<Rightarrow> proto_error option" where
  "ValidatePeerID U peerID =
     (if peerID = [] \<or> MaxPeerIDBytes < length peerID then Some ErrInvalidPeerID
      else if list_all (isIdentifierRune U) (rune_values peerID) then None
      else Some ErrInvalidPeerID)"

fun roomIDLoop :: "nat \<Rightarrow> (nat \<times> string) list \<Rightarrow> proto_error option" where
  "roomIDLoop index [] = None"
| "roomIDLoop index ((char, bs) # rest) =
     (if index = 8 \<or> index = 13 \<or> index = 18 \<or> index = 23 then
        (if char \<noteq> 45 then Some ErrInvalidRoomID else roomIDLoop (index + length bs) rest)
      else if (char < 48 \<or> 57 < char) \<and> (char < 97 \<or> 102 < char) then Some ErrInvalidRoomID
      else roomIDLoop (index + length bs) rest)"

definition ValidateRoomID :: "string \<Rightarrow> proto_error option" where
  "ValidateRoomID roomID =
     (if roomID = ''new'' then None
      else if length roomID \<noteq> 36 \<or> MaxRoomIDBytes < length roomID then Some ErrInvalidRoomID
      else roomIDLoop 0 (runes roomID))"

fun usernameLoop :: "unicode_tables \<Rightarrow> nat \<Rightarrow> nat list \<Rightarrow> string" where
  "usernameLoop U count [] = []"
| "usernameLoop U count (char # rest) =
     (if is_control char \<or> \<not> is_print U char then usernameLoop U count rest
      else if count = MaxUsernameRunes then []
      else encode_rune char @ usernameLoop U (Suc count) rest)"

definition NormalizeUsername :: "unicode_tables \<Rightarrow> string \<Rightarrow> (proto_error, string) res" where
  "NormalizeUsername U value0 =
     (let value1 = go_trim_space value0
      in if value1 = [] then Inl ErrInvalidUsername
         else let normalized = go_trim_space (usernameLoop U 0 (rune_values value1))
              in if normalized = [] then Inl ErrInvalidUsername else Inr normalized)"

definition normalizeError :: "unicode_tables \<Rightarrow> string \<Rightarrow> proto_error option" where
  "normalizeError U s = (case NormalizeUsername U s of Inl e \<Rightarrow> Some e | Inr _ \<Rightarrow> None)"

definition ValidateSignalPayload :: "unicode_tables \<Rightarrow> MessageType \<Rightarrow> string \<Rightarrow> proto_error option" where
  "ValidateSignalPayload U messageType payload =
     (if messageType = MsgOffer \<or> messageType = MsgAnswer then
        (case DecodePayload sdp_fields zero_sdp payload of
           Inl e \<Rightarrow> Some e
         | Inr session \<Rightarrow>
             if sdp_Type session \<noteq> messageType \<or> length (sdp_SDP session) = 0 \<or>
                MaxSDPBytes < length (sdp_SDP session) \<or> CHR 0x00 \<in> set (sdp_SDP session)
             then Some (ErrInvalidMessage ''invalid SDP payload'') else None)
      else if messageType = MsgICECandidate then
        (case DecodePayload candidate_fields zero_candidate payload of
           Inl e \<Rightarrow> Some e
         | Inr candidate \<Rightarrow>
             if length (cand_Candidate candidate) = 0 \<or> MaxICECandidateBytes < length (cand_Candidate candidate)
                \<or> hasControl (cand_Candidate candidate)
             then Some (ErrInvalidMessage ''invalid ICE candidate'')
             else if (case cand_SDPMid candidate of
                 None \<Rightarrow> False | Some s \<Rightarrow> MaxSDPMidBytes < length s \<or> hasControl s)
             then Some (ErrInvalidMessage ''SDP mid is too long'')
             else if (case cand_UsernameFragment candidate of
                 None \<Rightarrow> False | Some s \<Rightarrow> MaxUsernameFragBytes < length s \<or> hasControl s)
             then Some (ErrInvalidMessage ''ICE username fragment is too long'')
             else None)
      else Some (ErrInvalidMessage (''message type '' @ go_quote U messageType @ '' has no signal payload'')))"

definition ValidateClientMessage :: "unicode_tables \<Rightarrow> SignalingMessage \<Rightarrow> proto_error option" where
  "ValidateClientMessage U m =
     (if m_Version m \<noteq> Version then Some ErrProtocolVersion
      else if MaxPayloadBytes < length (m_Payload m) then Some (ErrInvalidMessage ''payload too large'')
      else if (case marshal_message m of None \<Rightarrow> True | Some e \<Rightarrow> MaxSignalMessageBytes < length e)
      then Some (ErrInvalidMessage ''message exceeds the transport limit'')
      else if m_Type m = MsgJoinRoom then
        (if m_PeerID m \<noteq> [] \<or> length (m_Payload m) \<noteq> 0
         then Some (ErrInvalidMessage ''join contains unexpected fields'')
         else (case ValidateRoomID (m_RoomID m) of
             Some e \<Rightarrow> Some e
           | None \<Rightarrow> normalizeError U (m_Username m)))
      else if m_Type m = MsgLeaveRoom then
        (if m_RoomID m \<noteq> [] \<or> m_PeerID m \<noteq> [] \<or> m_Username m \<noteq> [] \<or> length (m_Payload m) \<noteq> 0
         then Some (ErrInvalidMessage ''leave contains unexpected fields'') else None)
      else if m_Type m = MsgOffer \<or> m_Type m = MsgAnswer \<or> m_Type m = MsgICECandidate then
        (if m_RoomID m \<noteq> [] \<or> m_Username m \<noteq> []
         then Some (ErrInvalidMessage ''signal contains unexpected fields'')
         else (case ValidatePeerID U (m_PeerID m) of
             Some e \<Rightarrow> Some e
           | None \<Rightarrow> ValidateSignalPayload U (m_Type m) (m_Payload m)))
      else Some (ErrInvalidMessage (''client message type '' @ go_quote U (m_Type m))))"

definition ValidateServerMessage :: "unicode_tables \<Rightarrow> SignalingMessage \<Rightarrow> proto_error option" where
  "ValidateServerMessage U m =
     (if m_Version m \<noteq> Version then Some ErrProtocolVersion
      else if MaxPayloadBytes < length (m_Payload m) then Some (ErrInvalidMessage ''payload too large'')
      else if m_Type m = MsgPeerJoined then
        (case ValidatePeerID U (m_PeerID m) of
           Some e \<Rightarrow> Some e
         | None \<Rightarrow> normalizeError U (m_Username m))
      else if m_Type m = MsgPeerLeft then ValidatePeerID U (m_PeerID m)
      else if m_Type m = MsgOffer \<or> m_Type m = MsgAnswer \<or> m_Type m = MsgICECandidate then
        (case ValidatePeerID U (m_PeerID m) of
           Some e \<Rightarrow> Some e
         | None \<Rightarrow> ValidateSignalPayload U (m_Type m) (m_Payload m))
      else if m_Type m = MsgError then
        (case DecodePayload error_fields zero_error (m_Payload m) of
           Inl e \<Rightarrow> Some e
         | Inr failure \<Rightarrow>
             if \<not> validErrorCode (ep_Code failure) \<or> length (ep_Message failure) = 0 \<or>
                MaxErrorMessageBytes < length (ep_Message failure) \<or> hasControl (ep_Message failure)
             then Some (ErrInvalidMessage ''invalid error payload'') else None)
      else Some (ErrInvalidMessage (''server message type '' @ go_quote U (m_Type m))))"

section \<open>User names\<close>

definition trim_runes :: "nat list \<Rightarrow> nat list" where
  "trim_runes rs = drop_while_end is_space (dropWhile is_space rs)"

lemma drop_while_end_map: "drop_while_end P (map f xs) = map f (drop_while_end (\<lambda>x. P (f x)) xs)"
  by (simp add: drop_while_end_def rev_map dropWhile_map comp_def)

lemma trim_encode:
  assumes "list_all valid_rune rs"
  shows "go_trim_space (concat (map encode_rune rs)) = concat (map encode_rune (trim_runes rs))"
proof -
  have "runes (concat (map encode_rune rs)) = map (\<lambda>r. (r, encode_rune r)) rs"
    using runes_encode_list [OF assms, of "[]"] by simp
  then show ?thesis
    by (simp add: go_trim_space_def trim_runes_def dropWhile_map drop_while_end_map comp_def)
qed

lemma dropWhile_take_set: "set (dropWhile P xs) \<subseteq> set xs"
  by (rule subsetI) (rule set_dropWhileD)

lemma drop_while_end_set: "set (drop_while_end P xs) \<subseteq> set xs"
  using dropWhile_take_set [of P "rev xs"] by (simp add: drop_while_end_def)

lemma trim_runes_set: "set (trim_runes rs) \<subseteq> set rs"
  unfolding trim_runes_def using drop_while_end_set dropWhile_take_set by (rule subset_trans)

lemma drop_while_end_length: "length (drop_while_end P xs) \<le> length xs"
  by (simp add: drop_while_end_def length_dropWhile_le [of P "rev xs", simplified])

lemma trim_runes_length: "length (trim_runes rs) \<le> length rs"
  unfolding trim_runes_def by (rule order_trans [OF drop_while_end_length length_dropWhile_le])

lemma dropWhile_hd: "dropWhile P xs = ys \<Longrightarrow> ys \<noteq> [] \<Longrightarrow> \<not> P (hd ys)"
  using hd_dropWhile by blast

lemma drop_while_end_last: "drop_while_end P xs \<noteq> [] \<Longrightarrow> \<not> P (last (drop_while_end P xs))"
  using hd_dropWhile [of P "rev xs"] by (simp add: drop_while_end_def last_rev)

lemma drop_while_end_hd:
  assumes "drop_while_end P xs \<noteq> []"
  shows "hd (drop_while_end P xs) = hd xs"
proof -
  have "rev (takeWhile P (rev xs) @ dropWhile P (rev xs)) = xs" by simp
  then have "xs = drop_while_end P xs @ rev (takeWhile P (rev xs))"
    by (simp only: drop_while_end_def rev_append)
  with assms show ?thesis by (metis hd_append2)
qed

lemma drop_while_end_Nil: "xs = [] \<Longrightarrow> drop_while_end P xs = []"
  by (simp add: drop_while_end_def)

lemma trim_runes_ends:
  assumes "trim_runes rs \<noteq> []"
  shows "\<not> is_space (hd (trim_runes rs)) \<and> \<not> is_space (last (trim_runes rs))"
  using assms drop_while_end_hd [of is_space "dropWhile is_space rs"]
    drop_while_end_last [of is_space "dropWhile is_space rs"]
    drop_while_end_Nil [of "dropWhile is_space rs" is_space] hd_dropWhile [of is_space rs]
  unfolding trim_runes_def by metis

lemma trim_runes_idem: "trim_runes (trim_runes rs) = trim_runes rs"
proof (cases "trim_runes rs = []")
  case False
  define ys where "ys = trim_runes rs"
  from False trim_runes_ends [of rs] have ys: "\<not> is_space (hd ys)" "\<not> is_space (last ys)" "ys \<noteq> []"
    unfolding ys_def by blast+
  from ys have "dropWhile is_space ys = ys" by (cases ys) simp_all
  moreover from ys have "drop_while_end is_space ys = ys"
    by (cases ys rule: rev_cases) (simp_all add: drop_while_end_def)
  ultimately show ?thesis unfolding ys_def [symmetric] by (simp add: trim_runes_def)
next
  case True
  moreover have "trim_runes [] = []" by (simp add: trim_runes_def drop_while_end_def)
  ultimately show ?thesis by simp
qed

definition allowed_rune :: "unicode_tables \<Rightarrow> nat \<Rightarrow> bool" where
  "allowed_rune U r \<longleftrightarrow> \<not> is_control r \<and> is_print U r"

lemma usernameLoop_eq:
  "count \<le> MaxUsernameRunes \<Longrightarrow>
   usernameLoop U count rs = concat (map encode_rune (take (MaxUsernameRunes - count) (filter (allowed_rune U) rs)))"
proof (induction U count rs rule: usernameLoop.induct)
  case (2 U count char rest)
  show ?case
  proof (cases "count = MaxUsernameRunes")
    case False
    with "2.prems" have "MaxUsernameRunes - count = Suc (MaxUsernameRunes - Suc count)" by simp
    with 2 False show ?thesis by (simp add: allowed_rune_def)
  qed (use 2 in \<open>simp add: allowed_rune_def\<close>)
qed simp

definition username_runes :: "unicode_tables \<Rightarrow> string \<Rightarrow> nat list" where
  "username_runes U s = trim_runes (take MaxUsernameRunes (filter (allowed_rune U) (rune_values (go_trim_space s))))"

lemma username_runes_props:
  "list_all valid_rune (username_runes U s)"
  "list_all (allowed_rune U) (username_runes U s)"
  "length (username_runes U s) \<le> MaxUsernameRunes"
  "trim_runes (username_runes U s) = username_runes U s"
proof -
  let ?l = "take MaxUsernameRunes (filter (allowed_rune U) (rune_values (go_trim_space s)))"
  have sub: "set (username_runes U s) \<subseteq> set ?l" unfolding username_runes_def by (rule trim_runes_set)
  have "r \<in> set (rune_values (go_trim_space s)) \<and> allowed_rune U r" if "r \<in> set ?l" for r
    using that by (auto dest: in_set_takeD)
  then have "valid_rune r \<and> allowed_rune U r" if "r \<in> set (username_runes U s)" for r
    using that sub rune_values_valid [of "go_trim_space s"] unfolding list_all_iff by blast
  then show "list_all valid_rune (username_runes U s)" "list_all (allowed_rune U) (username_runes U s)"
    unfolding list_all_iff by blast+
  show "length (username_runes U s) \<le> MaxUsernameRunes"
    unfolding username_runes_def by (rule order_trans [OF trim_runes_length]) simp
qed (simp add: username_runes_def trim_runes_idem)

lemma NormalizeUsername_eq:
  "NormalizeUsername U s =
     (if username_runes U s = [] then Inl ErrInvalidUsername
      else Inr (concat (map encode_rune (username_runes U s))))"
proof -
  let ?l = "take MaxUsernameRunes (filter (allowed_rune U) (rune_values (go_trim_space s)))"
  have "list_all valid_rune ?l"
    using rune_values_valid [of "go_trim_space s"] by (auto simp: list_all_iff dest: in_set_takeD)
  then have "go_trim_space (usernameLoop U 0 (rune_values (go_trim_space s))) =
      concat (map encode_rune (username_runes U s))"
    using trim_encode [of ?l] by (simp add: usernameLoop_eq username_runes_def)
  moreover have "concat (map encode_rune rs) = [] \<longleftrightarrow> rs = []" for rs by (cases rs) simp_all
  moreover have "go_trim_space s = [] \<Longrightarrow> username_runes U s = []"
    by (simp add: username_runes_def rune_values_def trim_runes_def drop_while_end_def)
  ultimately show ?thesis by (auto simp: NormalizeUsername_def Let_def)
qed

lemma NormalizeUsername_result:
  assumes "NormalizeUsername U s = Inr n"
  shows "n = concat (map encode_rune (username_runes U s))" "username_runes U s \<noteq> []"
    "rune_values n = username_runes U s" "utf8 n"
proof -
  from assms show n: "n = concat (map encode_rune (username_runes U s))" "username_runes U s \<noteq> []"
    by (auto simp: NormalizeUsername_eq split: if_splits)
  show "rune_values n = username_runes U s" "utf8 n"
    using runes_encode_list [OF username_runes_props(1), of U s "[]"] utf8_encode [OF username_runes_props(1)]
    by (simp_all add: n(1) rune_values_def comp_def)
qed

lemma NormalizeUsername_idem:
  assumes "NormalizeUsername U s = Inr n"
  shows "NormalizeUsername U n = Inr n"
proof -
  note res = NormalizeUsername_result [OF assms]
  have "go_trim_space n = n"
    using trim_encode [OF username_runes_props(1)] res(1) by (simp add: username_runes_props(4))
  then have "username_runes U n = username_runes U s"
    using username_runes_props [of U s] res(3)
    by (simp add: username_runes_def [of U n] list_all_iff filter_id_conv)
  with res show ?thesis by (simp add: NormalizeUsername_eq)
qed

section \<open>Identifiers\<close>

definition lower_hex :: "char \<Rightarrow> bool" where
  "lower_hex c \<longleftrightarrow> 48 \<le> byte_val c \<and> byte_val c \<le> 57 \<or> 97 \<le> byte_val c \<and> byte_val c \<le> 102"

definition hyphen_at :: "nat \<Rightarrow> bool" where
  "hyphen_at i \<longleftrightarrow> i = 8 \<or> i = 13 \<or> i = 18 \<or> i = 23"

definition uuid_shape :: "string \<Rightarrow> bool" where
  "uuid_shape s \<longleftrightarrow>
     length s = 36 \<and> list_all (\<lambda>i. if hyphen_at i then s ! i = CHR ''-'' else lower_hex (s ! i)) [0..<36]"

lemma roomIDLoop_ascii:
  "roomIDLoop i ((byte_val c, [c]) # rest) = None \<longleftrightarrow>
     (if hyphen_at i then c = CHR ''-'' else lower_hex c) \<and> roomIDLoop (Suc i) rest = None"
proof -
  have "c = CHR ''-'' \<longleftrightarrow> byte_val c = 45"
    using of_char_eq_iff [of c "CHR ''-''", where 'a = nat] by (simp add: byte_val_def)
  then show ?thesis by (auto simp: hyphen_at_def lower_hex_def)
qed

lemma roomIDLoop_iff:
  "roomIDLoop i (runes s) = None \<longleftrightarrow>
     (\<forall>k < length s. if hyphen_at (i + k) then s ! k = CHR ''-'' else lower_hex (s ! k))"
    (is "?L i s \<longleftrightarrow> ?R i s")
proof (induction s arbitrary: i rule: runes.induct)
  case (2 c cs)
  have step: "?R i (c # cs) \<longleftrightarrow> (if hyphen_at i then c = CHR ''-'' else lower_hex c) \<and> ?R (Suc i) cs" for i
    by (auto simp: All_less_Suc2)
  obtain k w where d: "decode_rune (c # cs) = (k, w)" by (cases "decode_rune (c # cs)")
  show ?case
  proof (cases "byte_val c < 128")
    case True
    with d have k: "k = byte_val c" "w = 1" by (simp_all add: decode_rune_def)
    then have "?L (Suc i) cs \<longleftrightarrow> ?R (Suc i) cs" using 2 [OF d [symmetric], of "Suc i"] by simp
    then show ?thesis
      unfolding step runes_ascii_Cons [OF True] roomIDLoop_ascii by (rule conj_cong [OF refl])
  next
    case False
    then have "\<not> k < 128" using decode_rune_low [of c cs] d by auto
    with False show ?thesis
      unfolding step by (auto simp: runes.simps(2) d hyphen_at_def lower_hex_def byte_val_def)
  qed
qed simp

lemma uuid_shape_nth: "uuid_shape s \<Longrightarrow> k < 36 \<Longrightarrow> if hyphen_at k then s ! k = CHR ''-'' else lower_hex (s ! k)"
  by (simp add: uuid_shape_def list_all_iff)

lemma uuid_shape_bytes: "uuid_shape s \<Longrightarrow> c \<in> set s \<Longrightarrow> c = CHR ''-'' \<or> lower_hex c"
proof -
  assume s: "uuid_shape s" and "c \<in> set s"
  then obtain k where "k < length s" "s ! k = c" by (auto simp: in_set_conv_nth)
  with uuid_shape_nth [OF s, of k] s show ?thesis by (auto simp: uuid_shape_def split: if_splits)
qed

lemma uuid_shape_ascii: "uuid_shape s \<Longrightarrow> ascii s"
  unfolding ascii_def list_all_iff by (auto simp: lower_hex_def byte_val_def dest!: uuid_shape_bytes)

lemma uuid_shape_ValidatePeerID: "uuid_shape s \<Longrightarrow> ValidatePeerID U s = None"
proof -
  assume s: "uuid_shape s"
  have "isIdentifierRune U (byte_val c)" if "c \<in> set s" for c
    using uuid_shape_bytes [OF s that]
    by (auto simp: isIdentifierRune_def is_letter_def is_unicode_digit_def lower_hex_def byte_val_def)
  then have "list_all (isIdentifierRune U) (rune_values s)"
    using runes_ascii [OF uuid_shape_ascii [OF s]] by (auto simp: rune_values_def list_all_iff)
  moreover have "length s = 36" "s \<noteq> []" using s by (auto simp: uuid_shape_def)
  ultimately show ?thesis by (simp add: ValidatePeerID_def MaxPeerIDBytes_def)
qed

lemma ValidateRoomID_iff: "ValidateRoomID s = None \<longleftrightarrow> s = ''new'' \<or> uuid_shape s"
  using roomIDLoop_iff [of 0 s]
  by (auto simp: ValidateRoomID_def MaxRoomIDBytes_def uuid_shape_def list_all_iff)

section \<open>Round trips through JSON\<close>

lemma message_names_utf8 [simp]:
  "utf8 ''version''" "utf8 ''type''" "utf8 ''room_id''" "utf8 ''peer_id''" "utf8 ''username''" "utf8 ''payload''"
  "utf8 ''urls''" "utf8 ''credential''" "utf8 ''expires_at''" "utf8 ''peers''" "utf8 ''ice_servers''"
  "utf8 ''code''" "utf8 ''message''" "utf8 ''sdp''" "utf8 []"
  by (rule ascii_utf8; simp add: byte_val_def)+

text \<open>A payload as \<^verbatim>\<open>MarshalPayload\<close> produces it: a complete compact JSON value, at the top
  level and inside a message.\<close>

definition good_payload :: "string \<Rightarrow> bool" where
  "good_payload p \<longleftrightarrow> compacted p \<and> (\<exists>v. reads 0 p v \<and> reads 1 p v)"

definition good_message :: "SignalingMessage \<Rightarrow> bool" where
  "good_message m \<longleftrightarrow>
     int64_min \<le> m_Version m \<and> m_Version m \<le> int64_max \<and> utf8 (m_Type m) \<and> utf8 (m_RoomID m) \<and>
     utf8 (m_PeerID m) \<and> utf8 (m_Username m) \<and> (m_Payload m \<noteq> [] \<longrightarrow> good_payload (m_Payload m))"

definition string_member :: "string \<Rightarrow> string \<Rightarrow> (string \<times> string \<times> json) list" where
  "string_member name s = (if s = [] then [] else [(name, json_string s, JStr s)])"

definition message_members :: "SignalingMessage \<Rightarrow> json \<Rightarrow> (string \<times> string \<times> json) list" where
  "message_members m v =
     [(''version'', go_itoa (m_Version m), JNum (go_itoa (m_Version m))),
      (''type'', json_string (m_Type m), JStr (m_Type m))]
     @ string_member ''room_id'' (m_RoomID m) @ string_member ''peer_id'' (m_PeerID m)
     @ string_member ''username'' (m_Username m)
     @ (if m_Payload m = [] then [] else [(''payload'', m_Payload m, v)])"

lemma string_member_texts [simp]:
  "map (\<lambda>(k, tx, v). (k, tx)) (string_member name s) = omitempty name s"
  by (simp add: string_member_def omitempty_def)

lemma string_member_reads:
  "utf8 name \<Longrightarrow> utf8 s \<Longrightarrow> list_all (\<lambda>(k, tx, v). utf8 k \<and> reads d tx v) (string_member name s)"
  by (simp add: string_member_def reads_string)

lemma find_field_exact [simp]: "find_field ((k, f) # fs) k = Some f"
  by (simp add: find_field_def)

lemma find_field_skip: "n \<noteq> k \<Longrightarrow> find (\<lambda>f. fst f = k) fs \<noteq> None \<Longrightarrow> find_field ((n, g) # fs) k = find_field fs k"
  by (auto simp: find_field_def)

lemma dec_members_append:
  "dec_members fs (ms @ ns) a = (case dec_members fs ms a of None \<Rightarrow> None | Some b \<Rightarrow> dec_members fs ns b)"
  by (induction fs ms a rule: dec_members.induct) (auto split: option.splits)

lemma message_member_room:
  "m_RoomID m = [] \<Longrightarrow> dec_members message_fields (string_member ''room_id'' s) m = Some (m\<lparr>m_RoomID := s\<rparr>)"
  "m_PeerID m = [] \<Longrightarrow> dec_members message_fields (string_member ''peer_id'' s) m = Some (m\<lparr>m_PeerID := s\<rparr>)"
  "m_Username m = [] \<Longrightarrow> dec_members message_fields (string_member ''username'' s) m = Some (m\<lparr>m_Username := s\<rparr>)"
  by (auto simp: string_member_def message_fields_def find_field_skip dec_string_def)

lemma message_member_rest:
  "int64_min \<le> i \<Longrightarrow> i \<le> int64_max \<Longrightarrow>
     dec_members message_fields ((''version'', go_itoa i, JNum (go_itoa i)) # ms) m =
       dec_members message_fields ms (m\<lparr>m_Version := i\<rparr>)"
  "dec_members message_fields ((''type'', tx, JStr t) # ms) m = dec_members message_fields ms (m\<lparr>m_Type := t\<rparr>)"
  "dec_members message_fields ((''payload'', p, v) # ms) m = dec_members message_fields ms (m\<lparr>m_Payload := p\<rparr>)"
  by (simp_all add: message_fields_def find_field_skip dec_string_def dec_int_def go_atoi_itoa_eq)

lemma dec_message_members:
  assumes "int64_min \<le> m_Version m" "m_Version m \<le> int64_max"
  shows "dec_struct message_fields (JObj (message_members m v)) zero_message = Some m"
  using assms
  by (simp add: dec_struct_def message_members_def dec_members_append message_member_room zero_message_def
      message_member_rest del: dec_members.simps(2))

lemma marshal_message_reads:
  assumes "good_message m"
  shows "\<exists>tx v. marshal_message m = Some tx \<and> reads 0 tx v \<and> dec_struct message_fields v zero_message = Some m"
proof -
  note m = assms [unfolded good_message_def]
  obtain v where v: "m_Payload m \<noteq> [] \<Longrightarrow> reads 1 (m_Payload m) v \<and> json_raw (m_Payload m) = Some (m_Payload m)"
    using m json_raw_reads by (auto simp: good_payload_def)
  let ?ms = "message_members m v"
  have "list_all (\<lambda>(k, tx, v). utf8 k \<and> reads (Suc 0) tx v) ?ms"
    using m v string_member_reads [of "''room_id''" "m_RoomID m" "Suc 0"]
      string_member_reads [of "''peer_id''" "m_PeerID m" "Suc 0"]
      string_member_reads [of "''username''" "m_Username m" "Suc 0"]
    by (simp add: message_members_def reads_int reads_string)
  then have "reads 0 (json_object (map (\<lambda>(k, tx, v). (k, tx)) ?ms)) (JObj ?ms)"
    by (intro reads_object) (simp_all add: maxNestingDepth_def)
  moreover have "marshal_message m = Some (json_object (map (\<lambda>(k, tx, v). (k, tx)) ?ms))"
    using v by (simp add: marshal_message_def message_members_def Let_def)
  ultimately show ?thesis using dec_message_members [of m v] m by blast
qed

definition peer_value :: "PeerInfo \<Rightarrow> json" where
  "peer_value p =
     JObj [(''peer_id'', json_string (pi_PeerID p), JStr (pi_PeerID p)),
           (''username'', json_string (pi_Username p), JStr (pi_Username p))]"

definition ice_value :: "ICEServer \<Rightarrow> json" where
  "ice_value s =
     JObj ([(''urls'', json_array (map json_string (ice_URLs s)), JArr (map JStr (ice_URLs s)))]
       @ string_member ''username'' (ice_Username s) @ string_member ''credential'' (ice_Credential s)
       @ (if ice_ExpiresAt s = 0 then []
          else [(''expires_at'', go_itoa (ice_ExpiresAt s), JNum (go_itoa (ice_ExpiresAt s)))]))"

definition accepted_value :: "JoinAcceptedPayload \<Rightarrow> json" where
  "accepted_value a =
     JObj [(''room_id'', json_string (ja_RoomID a), JStr (ja_RoomID a)),
           (''peer_id'', json_string (ja_PeerID a), JStr (ja_PeerID a)),
           (''peers'', json_array (map marshal_peer (ja_Peers a)), JArr (map peer_value (ja_Peers a))),
           (''ice_servers'', json_array (map marshal_ice (ja_ICEServers a)), JArr (map ice_value (ja_ICEServers a)))]"

definition good_peer :: "PeerInfo \<Rightarrow> bool" where
  "good_peer p \<longleftrightarrow> utf8 (pi_PeerID p) \<and> utf8 (pi_Username p)"

definition good_ice :: "ICEServer \<Rightarrow> bool" where
  "good_ice s \<longleftrightarrow> list_all utf8 (ice_URLs s) \<and> utf8 (ice_Username s) \<and> utf8 (ice_Credential s) \<and>
     int64_min \<le> ice_ExpiresAt s \<and> ice_ExpiresAt s \<le> int64_max"

definition good_accepted :: "JoinAcceptedPayload \<Rightarrow> bool" where
  "good_accepted a \<longleftrightarrow> utf8 (ja_RoomID a) \<and> utf8 (ja_PeerID a) \<and> list_all good_peer (ja_Peers a) \<and>
     list_all good_ice (ja_ICEServers a)"

lemma json_object_reads:
  assumes "d < maxNestingDepth" and "list_all (\<lambda>(k, tx, v). utf8 k \<and> reads (Suc d) tx v) ms"
    and "tx = json_object (map (\<lambda>(k, tx, v). (k, tx)) ms)"
  shows "reads d tx (JObj ms)"
  using reads_object [OF assms(1,2)] assms(3) by simp

lemma json_array_reads:
  assumes "d < maxNestingDepth" and "\<forall>x \<in> set xs. reads (Suc d) (f x) (g x)"
  shows "reads d (json_array (map f xs)) (JArr (map g xs))"
  using reads_array [OF assms(1), of "map (\<lambda>x. (f x, g x)) xs"] assms(2)
  by (simp add: list_all_iff comp_def)

lemma peer_reads: "good_peer p \<Longrightarrow> d < maxNestingDepth \<Longrightarrow> reads d (marshal_peer p) (peer_value p)"
  unfolding peer_value_def
  by (rule json_object_reads) (simp_all add: good_peer_def reads_string marshal_peer_def)

lemma ice_reads: "good_ice s \<Longrightarrow> Suc d < maxNestingDepth \<Longrightarrow> reads d (marshal_ice s) (ice_value s)"
  unfolding ice_value_def
  using string_member_reads [of "''username''" "ice_Username s" "Suc d"]
    string_member_reads [of "''credential''" "ice_Credential s" "Suc d"]
    json_array_reads [of "Suc d" "ice_URLs s" json_string JStr]
  by (intro json_object_reads) (auto simp: good_ice_def reads_string reads_int marshal_ice_def list_all_iff)

lemma accepted_reads:
  assumes "good_accepted a" "d \<le> 1"
  shows "reads d (marshal_accepted a) (accepted_value a)"
  unfolding accepted_value_def
  using assms json_array_reads [of "Suc d" "ja_Peers a" marshal_peer peer_value]
    json_array_reads [of "Suc d" "ja_ICEServers a" marshal_ice ice_value]
  by (intro json_object_reads)
    (auto simp: good_accepted_def reads_string list_all_iff marshal_accepted_def maxNestingDepth_def
      peer_reads ice_reads)

lemma dec_elems_map:
  "\<forall>x \<in> set xs. f (g x) zero = Some x \<Longrightarrow> dec_elems f zero (map g xs) [] = Some xs"
  by (induction xs) simp_all

lemma dec_slice_map:
  "\<forall>x \<in> set xs. f (g x) zero = Some x \<Longrightarrow> dec_slice f zero (JArr (map g xs)) [] = Some xs"
  by (simp add: dec_slice_def dec_elems_map)

lemma peer_decodes: "dec_struct peer_fields (peer_value p) zero_peer = Some p"
  by (simp add: dec_struct_def peer_value_def peer_fields_def find_field_skip dec_string_def zero_peer_def)

lemma ice_member:
  "ice_Username s = [] \<Longrightarrow> dec_members ice_fields (string_member ''username'' x) s = Some (s\<lparr>ice_Username := x\<rparr>)"
  "ice_Credential s = [] \<Longrightarrow> dec_members ice_fields (string_member ''credential'' x) s = Some (s\<lparr>ice_Credential := x\<rparr>)"
  "ice_URLs s = [] \<Longrightarrow> dec_members ice_fields ((''urls'', tx, JArr (map JStr us)) # ms) s =
     dec_members ice_fields ms (s\<lparr>ice_URLs := us\<rparr>)"
  "int64_min \<le> i \<Longrightarrow> i \<le> int64_max \<Longrightarrow>
     dec_members ice_fields ((''expires_at'', go_itoa i, JNum (go_itoa i)) # ms) s =
     dec_members ice_fields ms (s\<lparr>ice_ExpiresAt := i\<rparr>)"
  by (auto simp: string_member_def ice_fields_def find_field_skip dec_string_def dec_int_def go_atoi_itoa_eq
      dec_slice_map)

lemma ice_decodes: "good_ice s \<Longrightarrow> dec_struct ice_fields (ice_value s) zero_ice = Some s"
  by (simp add: dec_struct_def ice_value_def dec_members_append ice_member zero_ice_def good_ice_def
      del: dec_members.simps(2))

lemma accepted_decodes:
  assumes "good_accepted a"
  shows "dec_struct accepted_fields (accepted_value a) zero_accepted = Some a"
proof -
  have "dec_slice (dec_struct peer_fields) zero_peer (JArr (map peer_value (ja_Peers a))) [] = Some (ja_Peers a)"
    by (rule dec_slice_map) (simp add: peer_decodes)
  moreover have "dec_slice (dec_struct ice_fields) zero_ice (JArr (map ice_value (ja_ICEServers a))) [] =
      Some (ja_ICEServers a)"
    using assms by (intro dec_slice_map) (simp add: ice_decodes good_accepted_def list_all_iff)
  ultimately show ?thesis
    by (simp add: dec_struct_def accepted_value_def accepted_fields_def find_field_skip dec_string_def zero_accepted_def)
qed

lemma omitempty_compacted:
  "utf8 name \<Longrightarrow> utf8 s \<Longrightarrow> list_all (\<lambda>(k, tx). utf8 k \<and> compacted tx) (omitempty name s)"
  by (simp add: omitempty_def compacted_string)

lemma peer_compacted: "good_peer p \<Longrightarrow> compacted (marshal_peer p)"
  unfolding marshal_peer_def by (rule compacted_object) (simp add: good_peer_def compacted_string)

lemma ice_compacted: "good_ice s \<Longrightarrow> compacted (marshal_ice s)"
  unfolding marshal_ice_def
  using omitempty_compacted [of "''username''" "ice_Username s"] omitempty_compacted [of "''credential''" "ice_Credential s"]
  by (intro compacted_object)
    (auto simp: good_ice_def compacted_digits compacted_string list_all_iff intro!: compacted_array)

lemma accepted_compacted: "good_accepted a \<Longrightarrow> compacted (marshal_accepted a)"
  unfolding marshal_accepted_def
  by (rule compacted_object)
    (auto simp: good_accepted_def compacted_string list_all_iff peer_compacted ice_compacted intro!: compacted_array)

lemma accepted_payload: "good_accepted a \<Longrightarrow> good_payload (marshal_accepted a)"
  unfolding good_payload_def using accepted_reads [of a 0] accepted_reads [of a 1] accepted_compacted by auto

lemma DecodePayload_reads:
  "reads 0 p v \<Longrightarrow> dec_struct fs v zero = Some a \<Longrightarrow> length p \<le> MaxPayloadBytes \<Longrightarrow> DecodePayload fs zero p = Inr a"
  using json_decode_reads [of p v fs zero a] by (simp add: DecodePayload_def reads_def)

lemma accepted_roundtrip:
  "good_accepted a \<Longrightarrow> length (marshal_accepted a) \<le> MaxPayloadBytes \<Longrightarrow>
   DecodePayload accepted_fields zero_accepted (marshal_accepted a) = Inr a"
  using accepted_reads [of a 0] accepted_decodes by (auto intro: DecodePayload_reads)

definition good_error :: "ErrorPayload \<Rightarrow> bool" where
  "good_error e \<longleftrightarrow> utf8 (ep_Code e) \<and> utf8 (ep_Message e)"

definition error_value :: "ErrorPayload \<Rightarrow> json" where
  "error_value e =
     JObj [(''code'', json_string (ep_Code e), JStr (ep_Code e)),
           (''message'', json_string (ep_Message e), JStr (ep_Message e))]"

lemma error_reads: "good_error e \<Longrightarrow> d \<le> 1 \<Longrightarrow> reads d (marshal_error e) (error_value e)"
  unfolding error_value_def
  by (rule json_object_reads) (simp_all add: good_error_def reads_string marshal_error_def maxNestingDepth_def)

lemma error_payload: "good_error e \<Longrightarrow> good_payload (marshal_error e)"
  unfolding good_payload_def using error_reads [of e 0] error_reads [of e 1]
  by (auto simp: marshal_error_def good_error_def compacted_string intro!: compacted_object)

lemma error_roundtrip:
  assumes "good_error e" "length (marshal_error e) \<le> MaxPayloadBytes"
  shows "DecodePayload error_fields zero_error (marshal_error e) = Inr e"
proof -
  have "dec_struct error_fields (error_value e) zero_error = Some e"
    by (simp add: dec_struct_def error_value_def error_fields_def find_field_skip dec_string_def zero_error_def)
  with error_reads [OF assms(1), of 0] assms(2) show ?thesis by (auto intro: DecodePayload_reads)
qed

lemma DecodeMessage_marshal:
  assumes "good_message m" "marshal_message m = Some tx" "length tx < MaxSignalMessageBytes"
  shows "DecodeMessage (tx @ [CHR 0x0A]) = Inr m"
proof -
  from marshal_message_reads [OF assms(1)] assms(2) obtain v
    where v: "reads 0 tx v" "dec_struct message_fields v zero_message = Some m" by auto
  from json_decode_reads_line [OF v] assms(3) show ?thesis by (simp add: DecodeMessage_def)
qed

section \<open>Properties\<close>

text \<open>C37: User names that reach other participants are clean. A normalised name is non-empty
  UTF-8 of at most 32 code points, each printable and none a control character; it neither
  starts nor ends with white space; and normalising it again returns it unchanged, so that the
  server and every client agree on the name.\<close>

theorem NormalizeUsername_canonical:
  assumes "NormalizeUsername U s = Inr n"
  shows "n \<noteq> [] \<and> utf8 n \<and> length (rune_values n) \<le> 32 \<and>
    list_all (\<lambda>r. is_print U r \<and> \<not> is_control r) (rune_values n) \<and>
    \<not> is_space (hd (rune_values n)) \<and> \<not> is_space (last (rune_values n)) \<and>
    NormalizeUsername U n = Inr n"
proof -
  note res = NormalizeUsername_result [OF assms]
  let ?rs = "username_runes U s"
  have "list_all (\<lambda>r. is_print U r \<and> \<not> is_control r) ?rs"
    using username_runes_props(2) [of U s] by (simp add: list_all_iff allowed_rune_def)
  moreover have "\<not> is_space (hd ?rs) \<and> \<not> is_space (last ?rs)"
    using res(2) trim_runes_ends by (simp add: username_runes_def)
  moreover have "n \<noteq> []" using res(1,2) by (cases ?rs) simp_all
  ultimately show ?thesis
    using res(3,4) username_runes_props(3) [of U s] NormalizeUsername_idem [OF assms]
    by (simp add: MaxUsernameRunes_def)
qed

abbreviation no_tables :: unicode_tables where
  "no_tables \<equiv> \<lparr>ut_print = \<lambda>_. False, ut_letter = \<lambda>_. False, ut_digit = \<lambda>_. False, ut_mark = \<lambda>_. False\<rparr>"

theorem NormalizeUsername_canonical_witness:
  "NormalizeUsername no_tables (''  A'' @ [CHR 0x1B] @ ''li '') = Inr ''Ali'' \<and>
   NormalizeUsername no_tables ''Ali'' = Inr ''Ali''"
proof -
  have run: "NormalizeUsername no_tables (''  A'' @ [CHR 0x1B] @ ''li '') = Inr ''Ali''" by code_simp
  with NormalizeUsername_canonical [OF run] show ?thesis by simp
qed

text \<open>The room identifier check accepts exactly the word new and the canonical lower-case
  UUID form, 8-4-4-4-12 hexadecimal digits, although it iterates over code points and compares
  byte offsets; and everything in UUID form is also accepted as a peer identifier, so that the
  identifiers the server generates pass the checks of every receiver.\<close>

theorem ValidateRoomID_exact:
  "(ValidateRoomID s = None \<longleftrightarrow> s = ''new'' \<or> uuid_shape s) \<and>
   (\<not> uuid_shape s \<or> ValidatePeerID U s = None)"
  using ValidateRoomID_iff [of s] uuid_shape_ValidatePeerID [of s U] by simp

theorem ValidateRoomID_exact_witness:
  "ValidateRoomID ''0123abcd-0000-4000-8000-00000000000f'' = None \<and>
   ValidatePeerID no_tables ''0123abcd-0000-4000-8000-00000000000f'' = None"
proof -
  have "uuid_shape ''0123abcd-0000-4000-8000-00000000000f''"
    by code_simp
  with ValidateRoomID_exact [of "''0123abcd-0000-4000-8000-00000000000f''" no_tables] show ?thesis by simp
qed

text \<open>C14: The wire format loses nothing. A message with UTF-8 fields and a compact payload that
  is written as one line of JSON below the size limit is decoded by the receiver to the very same
  message.\<close>

theorem message_wire_roundtrip:
  assumes "good_message m" and "marshal_message m = Some tx" and "length tx < MaxSignalMessageBytes"
  shows "DecodeMessage (tx @ [CHR 0x0A]) = Inr m"
  using assms by (rule DecodeMessage_marshal)

theorem message_wire_roundtrip_witness:
  "\<exists>tx. marshal_message ((NewMessage MsgJoinRoom)\<lparr>m_RoomID := ''new'', m_Username := ''<Al>''\<rparr>) = Some tx \<and>
     DecodeMessage (tx @ [CHR 0x0A]) = Inr ((NewMessage MsgJoinRoom)\<lparr>m_RoomID := ''new'', m_Username := ''<Al>''\<rparr>)"
proof -
  let ?m = "(NewMessage MsgJoinRoom)\<lparr>m_RoomID := ''new'', m_Username := ''<Al>''\<rparr>"
  have "utf8 ''join_room''" "utf8 ''new''" "utf8 ''<Al>''" by (rule ascii_utf8; simp add: byte_val_def)+
  then have good: "good_message ?m"
    by (simp add: good_message_def NewMessage_def Version_def int64_min_def int64_max_def MsgJoinRoom_def)
  obtain tx where tx: "marshal_message ?m = Some tx" and len: "length tx < 200"
  proof -
    have "case marshal_message ?m of None \<Rightarrow> False | Some tx \<Rightarrow> length tx < 200" by code_simp
    then show ?thesis using that by (auto split: option.splits)
  qed
  then have "length tx < MaxSignalMessageBytes" by (simp add: MaxSignalMessageBytes_def)
  from message_wire_roundtrip [OF good tx this] tx show ?thesis by blast
qed

end
