(* ===== verification/Net_Address.thy ===== *)
theory Net_Address
  imports Go_Strings
begin

text \<open>
  What the servers use of \<^verbatim>\<open>net.IP\<close> and \<^verbatim>\<open>net/netip\<close>. An address is the slice of
  its bytes: four for IPv4, sixteen for IPv6, the empty list for nil. Reading an address from text
  (\<^verbatim>\<open>net.ParseIP\<close>) is a parameter of the functions that use it.
\<close>

type_synonym IP = "nat list"

definition v4_in_6 :: "IP \<Rightarrow> bool" where
  "v4_in_6 ip \<longleftrightarrow> length ip = 16 \<and> take 12 ip = replicate 10 0 @ [255, 255]"

definition To4 :: "IP \<Rightarrow> IP option" where
  "To4 ip = (if length ip = 4 then Some ip else if v4_in_6 ip then Some (drop 12 ip) else None)"

definition AddrFromSlice :: "IP \<Rightarrow> IP option" where
  "AddrFromSlice ip = (if length ip = 4 \<or> length ip = 16 then Some ip else None)"

definition Unmap :: "IP \<Rightarrow> IP" where
  "Unmap a = (if v4_in_6 a then drop 12 a else a)"

definition IsUnspecified :: "IP \<Rightarrow> bool" where
  "IsUnspecified a \<longleftrightarrow> list_all (\<lambda>b. b = 0) a"

definition IsMulticast :: "IP \<Rightarrow> bool" where
  "IsMulticast a \<longleftrightarrow>
     (if length a = 4 then 224 \<le> a ! 0 \<and> a ! 0 \<le> 239 else length a = 16 \<and> a ! 0 = 255)"

definition IsLoopback :: "IP \<Rightarrow> bool" where
  "IsLoopback a \<longleftrightarrow>
     (if length a = 4 then a ! 0 = 127 else length a = 16 \<and> a = replicate 15 0 @ [1])"

definition IsLinkLocalUnicast :: "IP \<Rightarrow> bool" where
  "IsLinkLocalUnicast a \<longleftrightarrow>
     (if length a = 4 then a ! 0 = 169 \<and> a ! 1 = 254
      else length a = 16 \<and> a ! 0 = 254 \<and> 128 \<le> a ! 1 \<and> a ! 1 \<le> 191)"

definition IsPrivate :: "IP \<Rightarrow> bool" where
  "IsPrivate a \<longleftrightarrow>
     (if length a = 4 then
        a ! 0 = 10 \<or> a ! 0 = 172 \<and> 16 \<le> a ! 1 \<and> a ! 1 \<le> 31 \<or> a ! 0 = 192 \<and> a ! 1 = 168
      else length a = 16 \<and> 252 \<le> a ! 0 \<and> a ! 0 \<le> 253)"

definition IsGlobalUnicast :: "IP \<Rightarrow> bool" where
  "IsGlobalUnicast a \<longleftrightarrow>
     \<not> IsUnspecified a \<and> a \<noteq> [255, 255, 255, 255] \<and> \<not> IsLoopback a \<and> \<not> IsMulticast a \<and>
     \<not> IsLinkLocalUnicast a"

definition addr_val :: "IP \<Rightarrow> nat" where
  "addr_val a = foldl (\<lambda>v b. v * 256 + b) 0 a"

type_synonym prefix = "IP \<times> nat"

definition prefix_contains :: "prefix \<Rightarrow> IP \<Rightarrow> bool" where
  "prefix_contains p a \<longleftrightarrow>
     length (fst p) = length a \<and>
     addr_val a div 2 ^ (8 * length a - snd p) = addr_val (fst p) div 2 ^ (8 * length a - snd p)"

definition ip_bytes :: "IP \<Rightarrow> bool" where
  "ip_bytes ip \<longleftrightarrow> list_all (\<lambda>b. b < 256) ip"

text \<open>\<^verbatim>\<open>net.IP.String\<close>: dotted decimal for an IPv4 address; the text of any other address is
  the parameter \<open>v6\<close>.\<close>

definition ip_string :: "(IP \<Rightarrow> string) \<Rightarrow> IP \<Rightarrow> string" where
  "ip_string v6 ip =
     (case To4 ip of
        Some b \<Rightarrow> join_on (CHR ''.'') (map nat_digits b)
      | None \<Rightarrow> v6 ip)"

lemma To4_length: "To4 ip = Some b \<Longrightarrow> length b = 4"
  by (auto simp: To4_def v4_in_6_def split: if_splits)

lemma To4_Unmap: "To4 ip = Some b \<Longrightarrow> AddrFromSlice ip = Some ip \<and> Unmap ip = b"
  by (auto simp: To4_def AddrFromSlice_def Unmap_def v4_in_6_def split: if_splits)

lemma To4_idem: "To4 ip = Some b \<Longrightarrow> To4 b = Some b"
  using To4_length [of ip b] by (simp add: To4_def)

lemma digits_dot_length:
  assumes "length ds = n" and "0 < n" and "\<forall>d \<in> set ds. d < 256"
  shows "length (join_on (CHR ''.'') (map nat_digits ds)) + 1 \<le> 4 * n"
  using assms
proof (induction ds arbitrary: n)
  case (Cons d ds)
  have d: "length (nat_digits d) \<le> 3" using nat_digits_length [of d 3] Cons.prems(3) by simp
  show ?case
  proof (cases ds)
    case Nil
    with d Cons.prems show ?thesis by simp
  next
    case (Cons e es)
    with Cons.IH [of "n - 1"] Cons.prems d show ?thesis by (auto simp: Suc_diff_Suc)
  qed
qed simp

lemma ip_string_length:
  assumes "To4 ip = Some b" and "ip_bytes b"
  shows "length (ip_string v6 ip) \<le> 15"
  using digits_dot_length [of b 4] To4_length [OF assms(1)] assms
  by (simp add: ip_string_def ip_bytes_def list_all_iff)

end
