(* ===== verification/Turn.thy ===== *)
theory Turn
  imports Protocol Net_Address
begin

text \<open>
  The TURN relay (\<^verbatim>\<open>internal/turn/server.go\<close>): validation of its configuration, issuing of
  time-limited credentials, the allocation quota and the filter on relayed peers. The relay itself
  is the pion library; what reaches this code of it are the callbacks \<open>allow\<close>, \<open>created\<close>
  and \<open>deleted\<close>. A duration and a time are nanoseconds. The keyed hash with its base-64 form is
  a parameter (\<open>sign\<close>). A \<^verbatim>\<open>time.AfterFunc\<close> is an entry of the list of armed timers,
  which fires when its time has come.
\<close>

section \<open>Configuration\<close>

definition second :: int where "second = 1000000000"
definition minute :: int where "minute = 60 * second"
definition hour :: int where "hour = 60 * minute"

record turn_Config =
  tc_PublicIP :: IP
  tc_Port :: int
  tc_Realm :: string
  tc_SharedSecret :: string
  tc_CredentialTTL :: int
  tc_MinRelayPort :: int
  tc_MaxRelayPort :: int
  tc_PerUserQuota :: int
  tc_TotalQuota :: int
  tc_AllowPrivatePeers :: bool

datatype turn_error =
    BadPublicIP | ZeroPort | EmptyRealm | WeakSecret | BadLifetime | BadRelayRange | BadQuotas
  | IssuePeerID proto_error
  | IssuerUnavailable

definition deniedPeerPrefixes :: "prefix list" where
  "deniedPeerPrefixes =
     [([0, 0, 0, 0], 8), ([100, 64, 0, 0], 10), ([192, 0, 0, 0], 24), ([192, 0, 2, 0], 24),
      ([198, 18, 0, 0], 15), ([198, 51, 100, 0], 24), ([203, 0, 113, 0], 24),
      ([32, 1, 13, 184] @ replicate 12 0, 32)]"

definition peerAllowed :: "IP \<Rightarrow> bool \<Rightarrow> bool" where
  "peerAllowed peerIP allowPrivate =
     (case AddrFromSlice peerIP of
        None \<Rightarrow> False
      | Some a0 \<Rightarrow>
          let address = Unmap a0
          in if allowPrivate then \<not> IsUnspecified address \<and> \<not> IsMulticast address
             else if \<not> IsGlobalUnicast address \<or> IsPrivate address \<or> IsLoopback address
                  \<or> IsLinkLocalUnicast address then False
             else \<not> list_ex (\<lambda>p. prefix_contains p address) deniedPeerPrefixes)"

definition newPermissionHandler :: "bool \<Rightarrow> IP \<Rightarrow> bool" where
  "newPermissionHandler allowPrivate = (\<lambda>peerIP. peerAllowed peerIP allowPrivate)"

definition validSharedSecret :: "string \<Rightarrow> bool" where
  "validSharedSecret secret =
     (if length secret < 32 \<or> secret = ''termcall'' then False else 8 \<le> length (remdups secret))"

definition validateConfig :: "turn_Config \<Rightarrow> turn_error option" where
  "validateConfig c =
     (if tc_PublicIP c = [] \<or> To4 (tc_PublicIP c) = None \<or> \<not> peerAllowed (tc_PublicIP c) False then Some BadPublicIP
      else if tc_Port c = 0 then Some ZeroPort
      else if tc_Realm c = [] then Some EmptyRealm
      else if \<not> validSharedSecret (tc_SharedSecret c) then Some WeakSecret
      else if tc_CredentialTTL c < minute \<or> hour < tc_CredentialTTL c then Some BadLifetime
      else if tc_MinRelayPort c = 0 \<or> tc_MaxRelayPort c < tc_MinRelayPort c then Some BadRelayRange
      else if tc_PerUserQuota c < 1 \<or> tc_TotalQuota c < tc_PerUserQuota c then Some BadQuotas
      else None)"

definition turnURLs :: "(IP \<Rightarrow> string) \<Rightarrow> IP \<Rightarrow> int \<Rightarrow> string list" where
  "turnURLs v6 publicIP port =
     (let host = ip_string v6 publicIP
      in [''stun:'' @ host @ '':'' @ go_itoa port,
          ''turn:'' @ host @ '':'' @ go_itoa port,
          ''turn:'' @ host @ '':'' @ go_itoa port @ ''?transport=tcp''])"

section \<open>Credentials\<close>

record CredentialIssuer =
  ci_sharedSecret :: string
  ci_ttl :: int
  ci_urls :: "string list"

definition NewCredentialIssuer :: "string \<Rightarrow> int \<Rightarrow> string list \<Rightarrow> CredentialIssuer" where
  "NewCredentialIssuer sharedSecret ttl urls =
     \<lparr>ci_sharedSecret = sharedSecret, ci_ttl = ttl, ci_urls = urls\<rparr>"

definition issuer_Issue ::
  "unicode_tables \<Rightarrow> (string \<Rightarrow> string \<Rightarrow> string) \<Rightarrow> CredentialIssuer \<Rightarrow> int \<Rightarrow> string \<Rightarrow> (turn_error, ICEServer) res" where
  "issuer_Issue U sign i now peerID =
     (case ValidatePeerID U peerID of
        Some e \<Rightarrow> Inl (IssuePeerID e)
      | None \<Rightarrow>
          let expiresAt = (now + ci_ttl i) div second;
              username = go_itoa expiresAt @ '':'' @ peerID
          in Inr \<lparr>ice_URLs = ci_urls i, ice_Username = username,
                  ice_Credential = sign (ci_sharedSecret i) username, ice_ExpiresAt = expiresAt\<rparr>)"

definition turn_Issue ::
  "unicode_tables \<Rightarrow> (string \<Rightarrow> string \<Rightarrow> string) \<Rightarrow> CredentialIssuer option \<Rightarrow> int \<Rightarrow> string \<Rightarrow> (turn_error, ICEServer) res" where
  "turn_Issue U sign issuer now peerID =
     (case issuer of None \<Rightarrow> Inl IssuerUnavailable | Some i \<Rightarrow> issuer_Issue U sign i now peerID)"

section \<open>Allocation quota\<close>

record quotaTracker =
  q_byUser :: "(string, int) gomap"
  q_pending :: "(string, string) gomap"
  q_pendingByUser :: "(string, int) gomap"
  q_total :: int
  q_pendingTotal :: int
  q_perUser :: int
  q_maxTotal :: int

definition quotaReservationTTL :: int where
  "quotaReservationTTL = 5 * second"

definition newQuotaTracker :: "int \<Rightarrow> int \<Rightarrow> quotaTracker" where
  "newQuotaTracker perUser maxTotal =
     \<lparr>q_byUser = gm_empty, q_pending = gm_empty, q_pendingByUser = gm_empty, q_total = 0,
      q_pendingTotal = 0, q_perUser = perUser, q_maxTotal = maxTotal\<rparr>"

text \<open>A source address is nil or has a network and a text.\<close>

definition quotaReservationKey :: "string \<Rightarrow> (string \<times> string) option \<Rightarrow> string" where
  "quotaReservationKey username source =
     (case source of
        None \<Rightarrow> username @ ''|<nil>''
      | Some (network, address) \<Rightarrow> username @ ''|'' @ network @ ''|'' @ address)"

text \<open>\<open>allow\<close> returns its verdict and whether it armed a timer for the reservation.\<close>

definition allow :: "string \<Rightarrow> (string \<times> string) option \<Rightarrow> quotaTracker \<Rightarrow> (bool \<times> bool) \<times> quotaTracker" where
  "allow username source q =
     (let key = quotaReservationKey username source
      in if gm_get (q_pending q) key \<noteq> None then ((True, False), q)
         else if q_maxTotal q \<le> q_total q + q_pendingTotal q \<or>
                 q_perUser q \<le> gm_get0 (q_byUser q) username + gm_get0 (q_pendingByUser q) username
         then ((False, False), q)
         else ((True, True),
               q\<lparr>q_pending := gm_set key username (q_pending q),
                 q_pendingByUser := gm_set username (gm_get0 (q_pendingByUser q) username + 1) (q_pendingByUser q),
                 q_pendingTotal := q_pendingTotal q + 1\<rparr>))"

definition removePendingLocked :: "string \<Rightarrow> string \<Rightarrow> quotaTracker \<Rightarrow> quotaTracker" where
  "removePendingLocked key username q =
     (if gm_get (q_pending q) key = None then q
      else q\<lparr>q_pending := gm_delete key (q_pending q),
             q_pendingByUser :=
               (if 1 < gm_get0 (q_pendingByUser q) username
                then gm_set username (gm_get0 (q_pendingByUser q) username - 1) (q_pendingByUser q)
                else gm_delete username (q_pendingByUser q)),
             q_pendingTotal := (if 0 < q_pendingTotal q then q_pendingTotal q - 1 else q_pendingTotal q)\<rparr>)"

definition releasePending :: "string \<Rightarrow> string \<Rightarrow> quotaTracker \<Rightarrow> quotaTracker" where
  "releasePending key username q = removePendingLocked key username q"

definition created :: "string \<Rightarrow> (string \<times> string) option \<Rightarrow> quotaTracker \<Rightarrow> quotaTracker" where
  "created username source q =
     (let q1 = removePendingLocked (quotaReservationKey username source) username q
      in q1\<lparr>q_byUser := gm_set username (gm_get0 (q_byUser q1) username + 1) (q_byUser q1),
            q_total := q_total q1 + 1\<rparr>)"

definition deleted :: "string \<Rightarrow> quotaTracker \<Rightarrow> quotaTracker" where
  "deleted username q =
     q\<lparr>q_byUser :=
         (if 1 < gm_get0 (q_byUser q) username
          then gm_set username (gm_get0 (q_byUser q) username - 1) (q_byUser q)
          else gm_delete username (q_byUser q)),
       q_total := (if 0 < q_total q then q_total q - 1 else q_total q)\<rparr>"

section \<open>The relay server\<close>

text \<open>\<open>NewServer\<close>: whether the two sockets open and whether the relay library accepts the
  configuration are given. What is handed to the library is the record \<open>turn_Server\<close>, with the
  quota tracker behind its callbacks. The second component lists the sockets left open.\<close>

datatype start_error = InvalidConfig turn_error | ListenUDP | ListenTCP | CreateServer

datatype socket = UDP4 string | TCP4 string

record turn_Server =
  ts_issuer :: CredentialIssuer
  ts_quotas :: quotaTracker
  ts_permission :: "IP \<Rightarrow> bool"
  ts_realm :: string
  ts_relay_address :: IP
  ts_relay_ports :: "int \<times> int"
  ts_closed :: "string option option"

definition turn_NewServer ::
  "(IP \<Rightarrow> string) \<Rightarrow> (socket \<Rightarrow> bool) \<Rightarrow> (turn_Config \<Rightarrow> bool) \<Rightarrow> turn_Config
    \<Rightarrow> (start_error, turn_Server) res \<times> socket list" where
  "turn_NewServer v6 opens libraryOK config =
     (case validateConfig config of
        Some e \<Rightarrow> (Inl (InvalidConfig e), [])
      | None \<Rightarrow>
          let listenAddress = ''0.0.0.0:'' @ go_itoa (tc_Port config);
              udpListener = UDP4 listenAddress;
              tcpListener = TCP4 listenAddress
          in if \<not> opens udpListener then (Inl ListenUDP, [])
             else if \<not> opens tcpListener then (Inl ListenTCP, removeAll udpListener [udpListener])
             else
               let server =
                     \<lparr>ts_issuer = NewCredentialIssuer (tc_SharedSecret config) (tc_CredentialTTL config)
                        (turnURLs v6 (tc_PublicIP config) (tc_Port config)),
                      ts_quotas = newQuotaTracker (tc_PerUserQuota config) (tc_TotalQuota config),
                      ts_permission = newPermissionHandler (tc_AllowPrivatePeers config),
                      ts_realm = tc_Realm config,
                      ts_relay_address = tc_PublicIP config,
                      ts_relay_ports = (tc_MinRelayPort config, tc_MaxRelayPort config), ts_closed = None\<rparr>
               in if \<not> libraryOK config
                  then (Inl CreateServer, removeAll udpListener (removeAll tcpListener [tcpListener, udpListener]))
                  else (Inr server, [tcpListener, udpListener]))"

text \<open>The methods take a pointer that may be nil. The library is closed once; \<open>ts_closed\<close> keeps its answer.\<close>

definition turn_AllocationCount :: "nat \<Rightarrow> turn_Server option \<Rightarrow> nat" where
  "turn_AllocationCount libraryCount s = (case s of None \<Rightarrow> 0 | Some _ \<Rightarrow> libraryCount)"

definition turn_Close :: "string option \<Rightarrow> turn_Server option \<Rightarrow> string option \<times> turn_Server option" where
  "turn_Close libraryAnswer s =
     (case s of
        None \<Rightarrow> (None, None)
      | Some server \<Rightarrow>
          (case ts_closed server of
             Some answer \<Rightarrow> (answer, s)
           | None \<Rightarrow> (libraryAnswer, Some (server\<lparr>ts_closed := Some libraryAnswer\<rparr>))))"

text \<open>Closing again changes nothing and gives the first answer.\<close>

lemma turn_Close_once: "turn_Close a s = (e, s') \<Longrightarrow> turn_Close b s' = (e, s')"
  by (auto simp: turn_Close_def split: option.splits)

subsection \<open>Runs in time\<close>

text \<open>The callbacks of the relay and the passage of time. A reservation's timer is due five
  seconds after it was armed; waiting fires every timer that has become due, oldest first.\<close>

datatype quota_event =
    Allow string "(string \<times> string) option"
  | Created string "(string \<times> string) option"
  | Deleted string
  | Wait int

record quota_run =
  qr_tracker :: quotaTracker
  qr_clock :: int
  qr_timers :: "(int \<times> string \<times> string) list"

definition quota_start :: "int \<Rightarrow> int \<Rightarrow> quota_run" where
  "quota_start perUser maxTotal = \<lparr>qr_tracker = newQuotaTracker perUser maxTotal, qr_clock = 0, qr_timers = []\<rparr>"

definition fire_due :: "int \<Rightarrow> (int \<times> string \<times> string) list \<Rightarrow> quotaTracker \<Rightarrow> quotaTracker" where
  "fire_due now timers q =
     foldl (\<lambda>q t. releasePending (fst (snd t)) (snd (snd t)) q) q (filter (\<lambda>t. fst t \<le> now) timers)"

fun quota_step :: "quota_run \<Rightarrow> quota_event \<Rightarrow> quota_run" where
  "quota_step r (Allow u a) =
     (case allow u a (qr_tracker r) of ((_, armed), q) \<Rightarrow>
        r\<lparr>qr_tracker := q,
          qr_timers := (if armed
            then qr_timers r @ [(qr_clock r + quotaReservationTTL, quotaReservationKey u a, u)]
            else qr_timers r)\<rparr>)"
| "quota_step r (Created u a) = r\<lparr>qr_tracker := created u a (qr_tracker r)\<rparr>"
| "quota_step r (Deleted u) = r\<lparr>qr_tracker := deleted u (qr_tracker r)\<rparr>"
| "quota_step r (Wait d) =
     (let now = qr_clock r + max 0 d
      in r\<lparr>qr_clock := now, qr_tracker := fire_due now (qr_timers r) (qr_tracker r),
           qr_timers := filter (\<lambda>t. \<not> fst t \<le> now) (qr_timers r)\<rparr>)"

definition quota_events :: "quota_run \<Rightarrow> quota_event list \<Rightarrow> quota_run" where
  "quota_events r es = foldl quota_step r es"

text \<open>What the relay library promises: an allocation is reported as created only while its
  reservation is held, one is reported as deleted only after it was created, and a username has
  no separator in it (the credentials issued above have none).\<close>

definition plain_user :: "string \<Rightarrow> bool" where
  "plain_user u \<longleftrightarrow> CHR ''|'' \<notin> set u"

fun event_ok :: "quota_run \<Rightarrow> quota_event \<Rightarrow> bool" where
  "event_ok r (Allow u a) = plain_user u"
| "event_ok r (Created u a) =
     (plain_user u \<and> gm_get (q_pending (qr_tracker r)) (quotaReservationKey u a) \<noteq> None)"
| "event_ok r (Deleted u) = (plain_user u \<and> 0 < gm_get0 (q_byUser (qr_tracker r)) u)"
| "event_ok r (Wait d) = True"

fun events_ok :: "quota_run \<Rightarrow> quota_event list \<Rightarrow> bool" where
  "events_ok r [] = True"
| "events_ok r (e # es) = (event_ok r e \<and> events_ok (quota_step r e) es)"

section \<open>The quota invariant\<close>

definition key_user :: "string \<Rightarrow> string" where
  "key_user key = takeWhile (\<lambda>c. c \<noteq> CHR ''|'') key"

definition held_by :: "string \<Rightarrow> (string, string) gomap \<Rightarrow> int" where
  "held_by u m = int (length (filter (\<lambda>p. snd p = u) m))"

definition quota_books :: "quotaTracker \<Rightarrow> bool" where
  "quota_books q \<longleftrightarrow>
     gm_wf (q_byUser q) \<and> gm_wf (q_pending q) \<and> gm_wf (q_pendingByUser q) \<and>
     q_total q = gm_sum (q_byUser q) \<and> (\<forall>u. 0 \<le> gm_get0 (q_byUser q) u) \<and>
     q_pendingTotal q = gm_len (q_pending q) \<and>
     (\<forall>u. gm_get0 (q_pendingByUser q) u = held_by u (q_pending q)) \<and>
     (\<forall>k u. gm_get (q_pending q) k = Some u \<longrightarrow> key_user k = u)"

definition quota_within :: "quotaTracker \<Rightarrow> bool" where
  "quota_within q \<longleftrightarrow>
     q_total q + q_pendingTotal q \<le> q_maxTotal q \<and>
     (\<forall>u. gm_get0 (q_byUser q) u + gm_get0 (q_pendingByUser q) u \<le> q_perUser q)"

definition quota_inv :: "quotaTracker \<Rightarrow> bool" where
  "quota_inv q \<longleftrightarrow> quota_books q \<and> quota_within q"

lemma key_user_key: "plain_user u \<Longrightarrow> key_user (quotaReservationKey u a) = u"
  by (auto simp: plain_user_def key_user_def quotaReservationKey_def takeWhile_tail split: option.splits)

lemma held_by_nonneg: "0 \<le> held_by u m"
  by (simp add: held_by_def)

lemma held_by_delete:
  assumes "gm_wf m" and "gm_get m k = Some v"
  shows "held_by u (gm_delete k m) = held_by u m - (if u = v then 1 else 0)"
  using assms
proof (induction m)
  case (Cons p m)
  then have wf: "gm_wf m" and fresh: "gm_get m (fst p) = None" by (auto simp: gm_wf_def gm_get_None)
  show ?case
  proof (cases "fst p = k")
    case True
    with Cons.prems have "snd p = v" by (simp add: gm_get_def)
    moreover have "gm_delete k (p # m) = m"
      using True gm_delete_absent [OF fresh] by (simp add: gm_delete_def)
    ultimately show ?thesis by (simp add: held_by_def)
  next
    case False
    with Cons.prems have "gm_get m k = Some v" by (auto simp: gm_get_def split: if_splits)
    with Cons.IH [OF wf] False show ?thesis by (cases "u = v") (auto simp: held_by_def gm_delete_def)
  qed
qed (simp add: gm_get_def)

lemma held_by_set_fresh: "gm_get m k = None \<Longrightarrow> held_by u (gm_set k v m) = held_by u m + (if u = v then 1 else 0)"
  by (simp add: gm_set_def gm_delete_absent held_by_def)

lemma quota_inv_new: "0 \<le> perUser \<Longrightarrow> 0 \<le> maxTotal \<Longrightarrow> quota_inv (newQuotaTracker perUser maxTotal)"
  by (simp add: quota_inv_def quota_books_def quota_within_def newQuotaTracker_def)
    (simp add: held_by_def gm_empty_def)

lemma quota_withinD:
  assumes "quota_inv q"
  shows "q_total q + q_pendingTotal q \<le> q_maxTotal q"
    and "gm_get0 (q_byUser q) u + gm_get0 (q_pendingByUser q) u \<le> q_perUser q"
  using assms by (simp_all add: quota_inv_def quota_within_def)

lemma quota_inv_allow:
  assumes "quota_inv q" and "plain_user u"
  shows "quota_inv (snd (allow u a q))"
proof (cases "snd (fst (allow u a q))")
  case True
  let ?k = "quotaReservationKey u a"
  have fresh: "gm_get (q_pending q) ?k = None"
    and room: "q_total q + q_pendingTotal q < q_maxTotal q"
      "gm_get0 (q_byUser q) u + gm_get0 (q_pendingByUser q) u < q_perUser q"
    using True by (auto simp: allow_def Let_def not_le split: if_splits)
  have "quota_books (snd (allow u a q))"
    using assms fresh room
    by (auto simp: quota_inv_def quota_books_def allow_def Let_def gm_len_set held_by_set_fresh key_user_key)
  moreover have "quota_within (snd (allow u a q))"
    using quota_withinD [OF assms(1)] fresh room by (auto simp: quota_within_def allow_def Let_def)
  ultimately show ?thesis by (simp add: quota_inv_def)
qed (use assms in \<open>auto simp: allow_def Let_def split: if_splits\<close>)

lemma removePending_fields:
  "q_byUser (removePendingLocked k u q) = q_byUser q" "q_total (removePendingLocked k u q) = q_total q"
  "q_perUser (removePendingLocked k u q) = q_perUser q" "q_maxTotal (removePendingLocked k u q) = q_maxTotal q"
  by (simp_all add: removePendingLocked_def)

lemma removePending_held:
  assumes inv: "quota_books q" and k: "key_user k = u" and held: "gm_get (q_pending q) k = Some v"
  shows "v = u" "1 \<le> gm_get0 (q_pendingByUser q) u"
    "q_pendingTotal (removePendingLocked k u q) = q_pendingTotal q - 1"
    "gm_get0 (q_pendingByUser (removePendingLocked k u q)) w = gm_get0 (q_pendingByUser q) w - (if w = u then 1 else 0)"
    "q_pending (removePendingLocked k u q) = gm_delete k (q_pending q)"
proof -
  from inv k held show v: "v = u" by (auto simp: quota_books_def)
  with held have get: "gm_get (q_pending q) k = Some u" by simp
  have "held_by u (gm_delete k (q_pending q)) = held_by u (q_pending q) - 1"
    using inv by (simp add: held_by_delete [OF _ get] quota_books_def)
  with held_by_nonneg [of u "gm_delete k (q_pending q)"] inv show one: "1 \<le> gm_get0 (q_pendingByUser q) u"
    by (auto simp: quota_books_def)
  have "q_pending q \<noteq> []" using get by (auto simp: gm_get_def)
  then have "0 < q_pendingTotal q" using inv by (simp add: quota_books_def gm_len_def)
  with get show "q_pendingTotal (removePendingLocked k u q) = q_pendingTotal q - 1"
    by (simp add: removePendingLocked_def)
  from one get show "gm_get0 (q_pendingByUser (removePendingLocked k u q)) w =
      gm_get0 (q_pendingByUser q) w - (if w = u then 1 else 0)"
    by (auto simp: removePendingLocked_def)
  from get show "q_pending (removePendingLocked k u q) = gm_delete k (q_pending q)"
    by (simp add: removePendingLocked_def)
qed

lemma quota_books_remove:
  assumes inv: "quota_books q" and k: "key_user k = u"
  shows "quota_books (removePendingLocked k u q)"
proof (cases "gm_get (q_pending q) k")
  case None
  with inv show ?thesis by (simp add: removePendingLocked_def)
next
  case (Some v)
  note rm = removePending_held [OF inv k Some]
  have wf: "gm_wf (q_pendingByUser (removePendingLocked k u q))"
    using inv by (simp add: removePendingLocked_def quota_books_def)
  from Some rm(1) have get: "gm_get (q_pending q) k = Some u" by simp
  show ?thesis
    using inv wf rm(3,4) get unfolding quota_books_def removePending_fields rm(5)
    by (auto simp: gm_len_delete held_by_delete [OF _ get])
qed

lemma quota_inv_remove:
  assumes inv: "quota_inv q" and k: "key_user k = u"
  shows "quota_inv (removePendingLocked k u q)"
proof (cases "gm_get (q_pending q) k")
  case None
  with inv show ?thesis by (simp add: removePendingLocked_def)
next
  case (Some v)
  from inv have books: "quota_books q" by (simp add: quota_inv_def)
  note rm = removePending_held [OF books k Some]
  have "quota_within (removePendingLocked k u q)"
    unfolding quota_within_def removePending_fields rm(3,4)
  proof (intro conjI allI)
    fix w
    show "gm_get0 (q_byUser q) w + (gm_get0 (q_pendingByUser q) w - (if w = u then 1 else 0)) \<le> q_perUser q"
      using quota_withinD(2) [OF inv, of w] by (cases "w = u") simp_all
  qed (use quota_withinD(1) [OF inv] in simp)
  with quota_books_remove [OF books k] show ?thesis by (simp add: quota_inv_def)
qed

lemma quota_books_count: "quota_books q \<Longrightarrow> quota_books (q\<lparr>q_byUser :=
    gm_set u (gm_get0 (q_byUser q) u + 1) (q_byUser q), q_total := q_total q + 1\<rparr>)"
  by (auto simp: quota_books_def gm_sum_set)

lemma quota_inv_created:
  assumes inv: "quota_inv q" and u: "plain_user u" and held: "gm_get (q_pending q) (quotaReservationKey u a) = Some v"
  shows "quota_inv (created u a q)"
proof -
  let ?k = "quotaReservationKey u a"
  let ?q = "removePendingLocked ?k u q"
  from inv have books: "quota_books q" by (simp add: quota_inv_def)
  note rm = removePending_held [OF books key_user_key [OF u] held]
  have "quota_books (created u a q)"
    using quota_books_count [OF quota_books_remove [OF books key_user_key [OF u]], of a u]
    by (simp add: created_def Let_def)
  moreover have "quota_within (created u a q)"
    using quota_withinD [OF inv] rm(3,4)
    by (auto simp: quota_within_def created_def Let_def removePending_fields)
  ultimately show ?thesis by (simp add: quota_inv_def)
qed

lemma gm_get0_le_sum:
  fixes m :: "('k, int) gomap"
  assumes "gm_wf m" and "\<forall>w. 0 \<le> gm_get0 m w"
  shows "gm_get0 m u \<le> gm_sum m"
proof -
  have "0 \<le> x" if "x \<in> set (map snd (gm_delete u m))" for x
  proof -
    from that obtain k where "(k, x) \<in> set m" by (auto simp: gm_delete_def)
    then have "gm_get0 m k = x" using gm_mem_get [OF assms(1)] by (simp add: gm_get0_def)
    with assms(2) show ?thesis by metis
  qed
  then have "0 \<le> gm_sum (gm_delete u m)" unfolding gm_sum_def by (rule sum_list_nonneg)
  then show ?thesis using gm_sum_delete [OF assms(1), of u] by simp
qed

lemma quota_inv_deleted:
  assumes inv: "quota_inv q" and pos: "0 < gm_get0 (q_byUser q) u"
  shows "quota_inv (deleted u q)"
proof -
  from inv have books: "quota_books q" by (simp add: quota_inv_def)
  have get: "gm_get0 (q_byUser (deleted u q)) w = gm_get0 (q_byUser q) w - (if w = u then 1 else 0)" for w
    using pos by (auto simp: deleted_def)
  have sum: "gm_sum (q_byUser (deleted u q)) = gm_sum (q_byUser q) - 1"
    using pos books by (auto simp: deleted_def gm_sum_set gm_sum_delete quota_books_def)
  have "gm_get0 (q_byUser q) u \<le> q_total q"
    using gm_get0_le_sum [of "q_byUser q" u] books by (simp add: quota_books_def)
  then have tot: "q_total (deleted u q) = q_total q - 1" using pos by (simp add: deleted_def)
  have wf: "gm_wf (q_byUser (deleted u q))" using books by (simp add: deleted_def quota_books_def)
  have same: "q_pending (deleted u q) = q_pending q" "q_pendingByUser (deleted u q) = q_pendingByUser q"
    "q_pendingTotal (deleted u q) = q_pendingTotal q" "q_perUser (deleted u q) = q_perUser q"
    "q_maxTotal (deleted u q) = q_maxTotal q"
    by (simp_all add: deleted_def)
  have "quota_books (deleted u q)"
    using books wf pos unfolding quota_books_def get sum tot same by auto
  moreover have "quota_within (deleted u q)"
    unfolding quota_within_def get tot same
  proof (intro conjI allI)
    fix w
    show "gm_get0 (q_byUser q) w - (if w = u then 1 else 0) + gm_get0 (q_pendingByUser q) w \<le> q_perUser q"
      using quota_withinD(2) [OF inv, of w] by (cases "w = u") simp_all
  qed (use quota_withinD(1) [OF inv] in simp)
  ultimately show ?thesis by (simp add: quota_inv_def)
qed

definition run_inv :: "quota_run \<Rightarrow> bool" where
  "run_inv r \<longleftrightarrow> quota_inv (qr_tracker r) \<and> (\<forall>t \<in> set (qr_timers r). key_user (fst (snd t)) = snd (snd t))"

lemma quota_inv_fire:
  assumes "quota_inv q" and "\<forall>t \<in> set ts. key_user (fst (snd t)) = snd (snd t)"
  shows "quota_inv (fire_due now ts q)"
  unfolding fire_due_def using assms
  by (induction ts arbitrary: q) (auto simp: releasePending_def quota_inv_remove)

lemma run_inv_step: "run_inv r \<Longrightarrow> event_ok r e \<Longrightarrow> run_inv (quota_step r e)"
proof (induction r e rule: quota_step.induct)
  case (1 r u a)
  then show ?case
    using quota_inv_allow [of "qr_tracker r" u a]
    by (auto simp: run_inv_def key_user_key split: prod.splits)
next
  case (2 r u a)
  then show ?case by (auto simp: run_inv_def quota_inv_created)
next
  case (3 r u)
  then show ?case by (auto simp: run_inv_def quota_inv_deleted)
next
  case (4 r d)
  then show ?case by (auto simp: run_inv_def Let_def quota_inv_fire)
qed

lemma run_inv_events: "run_inv r \<Longrightarrow> events_ok r es \<Longrightarrow> run_inv (quota_events r es)"
  by (induction es arbitrary: r) (simp_all add: quota_events_def run_inv_step)

lemma quota_limits_step:
  "q_perUser (qr_tracker (quota_step r e)) = q_perUser (qr_tracker r) \<and>
   q_maxTotal (qr_tracker (quota_step r e)) = q_maxTotal (qr_tracker r)"
proof -
  have fire: "q_perUser (fire_due now ts q) = q_perUser q \<and> q_maxTotal (fire_due now ts q) = q_maxTotal q" for now ts q
    unfolding fire_due_def
    by (induction ts arbitrary: q) (simp_all add: releasePending_def removePending_fields)
  show ?thesis
    by (cases "(r, e)" rule: quota_step.cases)
      (auto simp: fire allow_def created_def deleted_def removePending_fields Let_def split: prod.splits)
qed

lemma quota_limits:
  "q_perUser (qr_tracker (quota_events r es)) = q_perUser (qr_tracker r) \<and>
   q_maxTotal (qr_tracker (quota_events r es)) = q_maxTotal (qr_tracker r)"
  by (induction es arbitrary: r) (simp_all add: quota_events_def quota_limits_step)

section \<open>Properties\<close>

text \<open>C7: The relay's quotas hold. Whatever the order of requests, allocations, releases and
  timer expiries, as long as an allocation is only reported while its reservation is held and
  only released after it was made, the live allocations and the reservations together never
  exceed the total quota, nor the quota of any user, and the counters are exactly the numbers of
  allocations and reservations they stand for.\<close>

theorem quota_never_exceeded:
  assumes "0 \<le> perUser" and "0 \<le> maxTotal" and "events_ok (quota_start perUser maxTotal) es"
    and "q = qr_tracker (quota_events (quota_start perUser maxTotal) es)"
  shows "q_total q + q_pendingTotal q \<le> maxTotal \<and>
    (\<forall>u. gm_get0 (q_byUser q) u + gm_get0 (q_pendingByUser q) u \<le> perUser) \<and>
    q_total q = gm_sum (q_byUser q) \<and> q_pendingTotal q = gm_len (q_pending q) \<and>
    (\<forall>u. gm_get0 (q_pendingByUser q) u = held_by u (q_pending q))"
proof -
  have "run_inv (quota_start perUser maxTotal)"
    using quota_inv_new [OF assms(1,2)] by (simp add: run_inv_def quota_start_def)
  then have "quota_inv q" using run_inv_events [OF _ assms(3)] assms(4) by (simp add: run_inv_def)
  moreover have "q_perUser q = perUser" "q_maxTotal q = maxTotal"
    using quota_limits [of "quota_start perUser maxTotal" es] assms(4)
    by (simp_all add: quota_start_def newQuotaTracker_def)
  ultimately show ?thesis by (auto simp: quota_inv_def quota_books_def quota_within_def)
qed

theorem quota_never_exceeded_witness:
  "\<exists>q. q = qr_tracker (quota_events (quota_start 1 2)
      [Allow ''u'' None, Created ''u'' None, Allow ''u'' None, Allow ''v'' (Some (''udp'', ''x'')), Wait 6000000000]) \<and>
    q_total q + q_pendingTotal q \<le> 2"
proof -
  let ?es = "[Allow ''u'' None, Created ''u'' None, Allow ''u'' None, Allow ''v'' (Some (''udp'', ''x'')), Wait 6000000000]"
  have "events_ok (quota_start 1 2) ?es" by code_simp
  from quota_never_exceeded [OF _ _ this refl] show ?thesis by simp
qed



















end
