(* ===== verification/Remote_Peer.thy ===== *)
theory Remote_Peer
  imports Protocol Turn Float64 Frame_Codec "HOL-Library.Word" "HOL-Library.Sublist"
begin

text \<open>
  A remote participant (\<^verbatim>\<open>internal/rtc/peer.go\<close>) and the framing of video on its data channel
  (\<open>BroadcastFrame\<close>, \<open>parseTaggedFrame\<close> and the candidate filter of
  \<^verbatim>\<open>internal/rtc/mesh.go\<close>). Connections, channels, players and tracks of the WebRTC and audio
  libraries are handles (numbers); what the libraries answer is an argument. Sequence numbers and
  byte counters are 64-bit words.
\<close>

type_synonym u64 = "64 word"

section \<open>State\<close>

definition maxPendingICECandidates :: int where
  "maxPendingICECandidates = 256"

record PeerStats =
  st_OutgoingKBps :: go_float
  st_IncomingKBps :: go_float
  st_AudioOutKBps :: go_float
  st_AudioInKBps :: go_float
  st_PacketsLost :: int
  st_Jitter :: go_float
  st_RTTMs :: go_float
  st_ConnectionState :: string

record RemotePeer =
  rp_lastSeq :: u64
  rp_PeerID :: string
  rp_Username :: string
  rp_PC :: "nat option"
  rp_AudioSender :: "nat option"
  rp_dataChannel :: "nat option"
  rp_player :: "nat option"
  rp_lastFrame :: string
  rp_stats :: PeerStats
  rp_pendingICE :: "ICECandidatePayload list"
  rp_remoteDescriptionSet :: bool
  rp_prevVideoSent :: u64
  rp_prevVideoRecv :: u64
  rp_prevAudioSent :: u64
  rp_prevAudioRecv :: u64
  rp_prevDataSent :: u64
  rp_prevDataRecv :: u64
  rp_closed :: bool

definition zero_stats :: PeerStats where
  "zero_stats = \<lparr>st_OutgoingKBps = Fin 0, st_IncomingKBps = Fin 0, st_AudioOutKBps = Fin 0, st_AudioInKBps = Fin 0,
     st_PacketsLost = 0, st_Jitter = Fin 0, st_RTTMs = Fin 0, st_ConnectionState = []\<rparr>"

definition new_peer :: "string \<Rightarrow> string \<Rightarrow> nat \<Rightarrow> nat option \<Rightarrow> RemotePeer" where
  "new_peer peerID username connection sender =
     \<lparr>rp_lastSeq = 0, rp_PeerID = peerID, rp_Username = username, rp_PC = Some connection, rp_AudioSender = sender,
      rp_dataChannel = None, rp_player = None, rp_lastFrame = [], rp_stats = zero_stats, rp_pendingICE = [],
      rp_remoteDescriptionSet = False, rp_prevVideoSent = 0, rp_prevVideoRecv = 0, rp_prevAudioSent = 0,
      rp_prevAudioRecv = 0, rp_prevDataSent = 0, rp_prevDataRecv = 0, rp_closed = False\<rparr>"

text \<open>Calls of the libraries that have an effect outside.\<close>

datatype rtc_call =
    PlayerClose nat
  | NewConnection nat
  | ConnectionClose nat
  | ChannelClose nat
  | AddCandidate nat ICECandidatePayload
  | RemoteDescription nat string string
  | AddTrack nat nat
  | ReplaceTrack nat nat
  | SendText nat string
  | SendSignal SignalingMessage
  | SignalerClose

datatype peer_error = ErrPeerClosed | TooManyPending | NoConnection | LibraryError

section \<open>Operations\<close>

definition SetDataChannel :: "nat \<Rightarrow> RemotePeer \<Rightarrow> bool \<times> RemotePeer" where
  "SetDataChannel channel p =
     (if rp_closed p then (False, p) else (True, p\<lparr>rp_dataChannel := Some channel\<rparr>))"

definition SetPlayer :: "nat \<Rightarrow> RemotePeer \<Rightarrow> (nat option \<times> bool) \<times> RemotePeer" where
  "SetPlayer player p =
     (if rp_closed p then ((None, False), p) else ((rp_player p, True), p\<lparr>rp_player := Some player\<rparr>))"

definition ClearPlayer :: "nat \<Rightarrow> RemotePeer \<Rightarrow> RemotePeer" where
  "ClearPlayer player p = (if rp_player p = Some player then p\<lparr>rp_player := None\<rparr> else p)"

definition UpdateFrame :: "string \<Rightarrow> RemotePeer \<Rightarrow> RemotePeer" where
  "UpdateFrame frame p = p\<lparr>rp_lastFrame := frame\<rparr>"

text \<open>The loop of \<open>CompareAndUpdateSeq\<close>: the list holds the values that other callers leave in the
  counter between this caller's load and its swap, one for each turn that they disturb.\<close>

fun CompareAndUpdateSeq :: "u64 \<Rightarrow> u64 list \<Rightarrow> u64 \<Rightarrow> bool \<times> u64" where
  "CompareAndUpdateSeq sequence [] lastSeq = (if sequence \<le> lastSeq then (False, lastSeq) else (True, sequence))"
| "CompareAndUpdateSeq sequence (v # vs) lastSeq =
     (if sequence \<le> lastSeq then (False, lastSeq)
      else if v = lastSeq then (True, sequence)
      else CompareAndUpdateSeq sequence vs v)"

definition AllowFrame :: "bool \<Rightarrow> RemotePeer \<Rightarrow> bool" where
  "AllowFrame limiterAllows p = (\<not> rp_closed p \<and> limiterAllows)"

definition AddICECandidate ::
  "bool \<Rightarrow> ICECandidatePayload \<Rightarrow> RemotePeer \<Rightarrow> peer_error option \<times> rtc_call list \<times> RemotePeer" where
  "AddICECandidate libraryOK candidate p =
     (if rp_closed p then (Some ErrPeerClosed, [], p)
      else if \<not> rp_remoteDescriptionSet p then
        (if maxPendingICECandidates \<le> int (length (rp_pendingICE p)) then (Some TooManyPending, [], p)
         else (None, [], p\<lparr>rp_pendingICE := rp_pendingICE p @ [candidate]\<rparr>))
      else (case rp_PC p of
          None \<Rightarrow> (Some LibraryError, [], p)
        | Some pc \<Rightarrow> (if libraryOK then None else Some LibraryError, [AddCandidate pc candidate], p)))"

text \<open>\<open>SetRemoteDescription\<close> is two critical sections: the first reads the peer, then the library is called
  without the lock, and the second takes the candidates that are waiting by then. The error is the
  join of the errors of these candidates.\<close>

definition SetRemoteDescription_begin :: "bool \<Rightarrow> string \<Rightarrow> string \<Rightarrow> RemotePeer \<Rightarrow> (peer_error + nat) \<times> rtc_call list" where
  "SetRemoteDescription_begin libraryOK kind sdp p =
     (if rp_closed p then (Inl ErrPeerClosed, [])
      else (case rp_PC p of
          None \<Rightarrow> (Inl NoConnection, [])
        | Some connection \<Rightarrow>
            (if libraryOK then Inr connection else Inl LibraryError, [RemoteDescription connection kind sdp])))"

definition SetRemoteDescription_finish ::
  "(ICECandidatePayload \<Rightarrow> bool) \<Rightarrow> nat \<Rightarrow> RemotePeer \<Rightarrow> peer_error option \<times> rtc_call list \<times> RemotePeer" where
  "SetRemoteDescription_finish candidateOK connection p =
     (if list_all candidateOK (rp_pendingICE p) then None else Some LibraryError,
      map (AddCandidate connection) (rp_pendingICE p),
      p\<lparr>rp_remoteDescriptionSet := True, rp_pendingICE := []\<rparr>)"

definition peer_Close :: "RemotePeer \<Rightarrow> rtc_call list \<times> RemotePeer" where
  "peer_Close p =
     (if rp_closed p then ([], p)
      else ((case rp_player p of None \<Rightarrow> [] | Some player \<Rightarrow> [PlayerClose player]) @
            (case rp_PC p of None \<Rightarrow> [] | Some connection \<Rightarrow> [ConnectionClose connection]),
            p\<lparr>rp_closed := True, rp_player := None, rp_pendingICE := []\<rparr>))"

section \<open>Statistics\<close>

definition counterDelta :: "u64 \<Rightarrow> u64 \<Rightarrow> u64" where
  "counterDelta current previous = (if current < previous then current else current - previous)"

datatype rtc_stat =
    OutboundRTP string u64
  | InboundRTP string u64 int go_float
  | CandidatePair bool go_float
  | DataChannelStats string u64 u64
  | OtherStats

definition bytesPerSecondToKBps :: "u64 \<Rightarrow> go_float \<Rightarrow> go_float" where
  "bytesPerSecondToKBps bytes seconds = float_quot_pos (fl (float64 (uint bytes) / 1024)) seconds"

text \<open>The rates of the screen, which asks every two seconds, are finite and not negative.\<close>

lemma kbps_range: "\<exists>r. bytesPerSecondToKBps bytes (Fin 2) = Fin r \<and> 0 \<le> r \<and> r \<le> 2 ^ 53"
proof -
  let ?r = "fl (fl (float64 (uint bytes) / 1024) / 2)"
  have "uint bytes \<le> 2 ^ 64" using uint_lt2p [of bytes] by simp
  then have "(of_int (uint bytes) :: rat) \<le> of_int (2 ^ 64)" by (simp only: of_int_le_iff)
  then have "float64 (uint bytes) \<le> two_pow 64" unfolding float64_def by (intro fl_le_two_pow) (simp add: two_pow_def)
  then have "float64 (uint bytes) / 1024 \<le> two_pow 54" by (simp add: two_pow_def)
  then have "fl (float64 (uint bytes) / 1024) / 2 \<le> two_pow 53"
    using fl_le_two_pow [of "float64 (uint bytes) / 1024" 54] by (simp add: two_pow_def)
  then have "?r \<le> 2 ^ 53" using fl_le_two_pow [of "fl (float64 (uint bytes) / 1024) / 2" 53] by (simp add: two_pow_def)
  moreover have "0 \<le> float64 (uint bytes)" unfolding float64_def by (rule fl_nonneg) (simp only: of_int_0_le_iff uint_ge_0)
  then have "0 \<le> ?r" by (intro fl_nonneg divide_nonneg_nonneg) simp_all
  moreover have "(2 ^ 53 :: rat) < 2 ^ 1024" by (intro power_strict_increasing) simp_all
  ultimately show ?thesis by (auto simp: bytesPerSecondToKBps_def to_float_def Let_def)
qed

text \<open>The state of the connection is read twice: for the guard and, later, for the statistics.\<close>

definition updateStat :: "go_float \<Rightarrow> RemotePeer \<Rightarrow> rtc_stat \<Rightarrow> RemotePeer" where
  "updateStat interval p stat =
     (case stat of
        OutboundRTP kind sent \<Rightarrow>
          if kind = ''video'' then
            p\<lparr>rp_stats := (rp_stats p)\<lparr>st_OutgoingKBps := bytesPerSecondToKBps (counterDelta sent (rp_prevVideoSent p)) interval\<rparr>,
              rp_prevVideoSent := sent\<rparr>
          else if kind = ''audio'' then
            p\<lparr>rp_stats := (rp_stats p)\<lparr>st_AudioOutKBps := bytesPerSecondToKBps (counterDelta sent (rp_prevAudioSent p)) interval\<rparr>,
              rp_prevAudioSent := sent\<rparr>
          else p
      | InboundRTP kind received lost jitter \<Rightarrow>
          if kind = ''video'' then
            p\<lparr>rp_stats := (rp_stats p)\<lparr>st_IncomingKBps := bytesPerSecondToKBps (counterDelta received (rp_prevVideoRecv p)) interval\<rparr>,
              rp_prevVideoRecv := received\<rparr>
          else if kind = ''audio'' then
            p\<lparr>rp_stats := (rp_stats p)\<lparr>st_AudioInKBps := bytesPerSecondToKBps (counterDelta received (rp_prevAudioRecv p)) interval,
                st_PacketsLost := (if 0 < lost then lost else 0), st_Jitter := jitter\<rparr>,
              rp_prevAudioRecv := received\<rparr>
          else p
      | CandidatePair succeeded rtt \<Rightarrow>
          if succeeded then p\<lparr>rp_stats := (rp_stats p)\<lparr>st_RTTMs := float_times_pos rtt 1000\<rparr>\<rparr> else p
      | DataChannelStats label sent received \<Rightarrow>
          if label \<noteq> ''video-ascii'' then p
          else p\<lparr>rp_stats := (rp_stats p)\<lparr>
                   st_OutgoingKBps := bytesPerSecondToKBps (counterDelta sent (rp_prevDataSent p)) interval,
                   st_IncomingKBps := bytesPerSecondToKBps (counterDelta received (rp_prevDataRecv p)) interval\<rparr>,
                 rp_prevDataSent := sent, rp_prevDataRecv := received\<rparr>
      | OtherStats \<Rightarrow> p)"

definition UpdateStats :: "string \<Rightarrow> string \<Rightarrow> rtc_stat list \<Rightarrow> go_float \<Rightarrow> RemotePeer \<Rightarrow> RemotePeer" where
  "UpdateStats connectionState stateNow stats interval p =
     (if rp_PC p = None \<or> connectionState \<noteq> ''connected'' then p
      else if float_le interval (Fin 0) then p
      else foldl (updateStat interval) (p\<lparr>rp_stats := (rp_stats p)\<lparr>st_ConnectionState := stateNow\<rparr>\<rparr>) stats)"

section \<open>Frames on the data channel\<close>

definition tagFrame :: "u64 \<Rightarrow> string \<Rightarrow> string" where
  "tagFrame sequence frame = go_format_uint (unat sequence) @ CHR 0x0A # frame"

definition parseTaggedFrame :: "string \<Rightarrow> (u64 \<times> string) option" where
  "parseTaggedFrame raw =
     (if MaxEncodedFrameBytes + 21 < int (length raw) then None
      else (case index_byte (CHR 0x0A) raw of
          None \<Rightarrow> None
        | Some k \<Rightarrow>
            if k < 1 \<or> 20 < k then None
            else (case go_parse_uint (take k raw) of
                None \<Rightarrow> None
              | Some sequence \<Rightarrow>
                  if sequence = 0 then None
                  else let frame = drop (k + 1) raw
                       in if length frame = 0 \<or> MaxEncodedFrameBytes < int (length frame) then None
                          else Some (word_of_nat sequence, frame))))"

text \<open>The handler of a data-channel message: the frame to show, if any.\<close>

definition onMessage :: "bool \<Rightarrow> bool \<Rightarrow> string \<Rightarrow> RemotePeer \<Rightarrow> string option \<times> RemotePeer" where
  "onMessage isString limiterAllows raw p =
     (if \<not> isString \<or> \<not> AllowFrame limiterAllows p then (None, p)
      else (case parseTaggedFrame raw of
          None \<Rightarrow> (None, p)
        | Some (sequence, frame) \<Rightarrow>
            (case CompareAndUpdateSeq sequence [] (rp_lastSeq p) of
               (False, n) \<Rightarrow> (None, p\<lparr>rp_lastSeq := n\<rparr>)
             | (True, n) \<Rightarrow> (Some frame, UpdateFrame frame (p\<lparr>rp_lastSeq := n\<rparr>)))))"

section \<open>Candidate filter\<close>

definition deniedRemoteCandidatePrefixes :: "prefix list" where
  "deniedRemoteCandidatePrefixes =
     [([0, 0, 0, 0], 8), ([100, 64, 0, 0], 10), ([192, 0, 0, 0], 24), ([192, 0, 2, 0], 24),
      ([198, 18, 0, 0], 15), ([198, 51, 100, 0], 24), ([203, 0, 113, 0], 24),
      ([32, 1, 13, 184] @ replicate 12 0, 32)]"

definition remoteCandidateAllowedWithPrivate :: "IP \<Rightarrow> bool \<Rightarrow> bool" where
  "remoteCandidateAllowedWithPrivate ip allowPrivate =
     (case AddrFromSlice ip of
        None \<Rightarrow> False
      | Some a0 \<Rightarrow>
          let address = Unmap a0
          in if \<not> IsGlobalUnicast address \<or> IsLoopback address \<or> IsLinkLocalUnicast address then False
             else if IsPrivate address then allowPrivate
             else \<not> list_ex (\<lambda>p. prefix_contains p address) deniedRemoteCandidatePrefixes)"

definition remoteCandidateAllowed :: "IP \<Rightarrow> bool" where
  "remoteCandidateAllowed ip = remoteCandidateAllowedWithPrivate ip False"

section \<open>Framing\<close>

definition frame_ok :: "string \<Rightarrow> bool" where
  "frame_ok frame \<longleftrightarrow> frame \<noteq> [] \<and> int (length frame) \<le> MaxEncodedFrameBytes"

lemma digits_no_newline: "CHR 0x0A \<notin> set (nat_digits n)"
  using nat_digits_all [of n] by (auto simp: list_all_iff is_digit_def in_range_def byte_val_def)

lemma format_u64_length: "length (go_format_uint (unat s)) \<le> 20" for s :: u64
  using nat_digits_length [of "unat s" 20] unsigned_less [of s, where 'a = nat] by (simp add: go_format_uint_def)

lemma tagFrame_length: "frame_ok frame \<Longrightarrow> int (length (tagFrame s frame)) \<le> MaxEncodedFrameBytes + 21"
  using format_u64_length [of s] by (simp add: tagFrame_def frame_ok_def)

lemma parse_tag:
  assumes "0 < s" "frame_ok frame"
  shows "parseTaggedFrame (tagFrame s frame) = Some (s, frame)"
proof -
  let ?d = "go_format_uint (unat s)"
  have max: "unat s \<le> uint64_max" using unsigned_less [of s, where 'a = nat] by (simp add: uint64_max_def)
  have len: "length ?d \<le> 20" by (rule format_u64_length)
  have ne: "?d \<noteq> []" by (simp add: go_format_uint_def)
  have idx: "index_byte (CHR 0x0A) (tagFrame s frame) = Some (length ?d)"
    unfolding tagFrame_def by (rule index_byte_append) (simp add: go_format_uint_def digits_no_newline)
  have pos: "unat s \<noteq> 0" using assms(1) by (simp add: unat_gt_0 word_neq_0_conv unat_eq_0)
  have size: "\<not> MaxEncodedFrameBytes + 21 < int (length (tagFrame s frame))"
    using tagFrame_length [OF assms(2), of s] by simp
  show ?thesis
    unfolding parseTaggedFrame_def idx using size len ne max pos assms(2)
    by (simp add: tagFrame_def frame_ok_def Let_def Suc_le_eq)
qed

text \<open>The frame tag is lossless: for every sequence number but zero and every frame within the
  size limits, the receiver's parser returns the number and the frame, whatever bytes the frame
  contains.\<close>

theorem tag_roundtrip:
  assumes "0 < s" and "frame \<noteq> []" and "int (length frame) \<le> MaxEncodedFrameBytes"
  shows "parseTaggedFrame (tagFrame s frame) = Some (s, frame)"
  using assms by (intro parse_tag) (simp_all add: frame_ok_def)

theorem tag_roundtrip_witness: "parseTaggedFrame (tagFrame 18446744073709551615 [CHR 0x0A]) = Some (18446744073709551615, [CHR 0x0A])"
  using tag_roundtrip [of 18446744073709551615 "[CHR 0x0A]"] by (simp add: MaxEncodedFrameBytes_def)

section \<open>Order of frames\<close>

text \<open>Messages arrive with whether they are text and whether the rate limiter lets them pass.\<close>

fun receiveAll :: "(bool \<times> bool \<times> string) list \<Rightarrow> RemotePeer \<Rightarrow> string list \<times> RemotePeer" where
  "receiveAll [] p = ([], p)"
| "receiveAll ((isString, allows, raw) # rest) p =
     (case onMessage isString allows raw p of (shown, p1) \<Rightarrow>
        (case receiveAll rest p1 of (frames, p2) \<Rightarrow>
           (case shown of None \<Rightarrow> (frames, p2) | Some f \<Rightarrow> (f # frames, p2))))"

text \<open>The sender numbers the frames that fit from one on.\<close>

definition nextFrame :: "string \<Rightarrow> u64 \<Rightarrow> (string option) \<times> u64" where
  "nextFrame frame frameSeq =
     (if length frame = 0 \<or> MaxEncodedFrameBytes < int (length frame) then (None, frameSeq)
      else (Some (tagFrame (frameSeq + 1) frame), frameSeq + 1))"

fun sendAll :: "string list \<Rightarrow> u64 \<Rightarrow> string list" where
  "sendAll [] frameSeq = []"
| "sendAll (f # fs) frameSeq =
     (case nextFrame f frameSeq of
        (None, n) \<Rightarrow> sendAll fs n
      | (Some tagged, n) \<Rightarrow> tagged # sendAll fs n)"

lemma sendAll_eq:
  "sendAll fs s = map (\<lambda>i. tagFrame (s + word_of_nat (Suc i)) (filter frame_ok fs ! i)) [0..<length (filter frame_ok fs)]"
proof (induction fs arbitrary: s)
  case (Cons f fs)
  show ?case
  proof (cases "frame_ok f")
    case True
    then have n: "nextFrame f s = (Some (tagFrame (s + 1) f), s + 1)" by (auto simp: nextFrame_def frame_ok_def)
    have "[0..<length (filter frame_ok (f # fs))] = 0 # map Suc [0..<length (filter frame_ok fs)]"
      using True by (simp add: upt_conv_Cons map_Suc_upt del: upt_Suc)
    with True n Cons.IH [of "s + 1"] show ?thesis by (simp add: comp_def algebra_simps)
  next
    case False
    then have "nextFrame f s = (None, s)" by (auto simp: nextFrame_def frame_ok_def)
    with False Cons.IH [of s] show ?thesis by simp
  qed
qed simp

lemma onMessage_tag:
  assumes "0 < s" "frame_ok f"
  shows "onMessage isString allows (tagFrame s f) p =
    (if isString \<and> allows \<and> \<not> rp_closed p \<and> rp_lastSeq p < s
     then (Some f, p\<lparr>rp_lastSeq := s, rp_lastFrame := f\<rparr>) else (None, p))"
  using parse_tag [OF assms] by (auto simp: onMessage_def AllowFrame_def UpdateFrame_def)

lemma receive_increasing:
  assumes "list_all frame_ok fs" "length fs < 2 ^ 64"
    and "\<forall>x \<in> set arrivals. \<exists>i < length fs. snd (snd x) = tagFrame (word_of_nat (Suc i)) (fs ! i)"
  shows "\<exists>is. sorted_wrt (<) is \<and> (\<forall>i \<in> set is. unat (rp_lastSeq p) \<le> i \<and> i < length fs) \<and>
    fst (receiveAll arrivals p) = map ((!) fs) is"
  using assms(3)
proof (induction arrivals arbitrary: p)
  case (Cons x arrivals)
  obtain isString allows raw where x: "x = (isString, allows, raw)" by (cases x)
  from Cons.prems x obtain i where i: "i < length fs" "raw = tagFrame (word_of_nat (Suc i)) (fs ! i)" by auto
  let ?s = "word_of_nat (Suc i) :: u64"
  have s: "unat ?s = Suc i" using i(1) assms(2) by (simp add: unsigned_of_nat take_bit_nat_eq_self del: of_nat_Suc)
  then have pos: "0 < ?s" by (metis unat_gt_0 word_neq_0_conv zero_less_Suc)
  have f: "frame_ok (fs ! i)" using assms(1) i(1) by (simp add: list_all_length)
  have rest: "\<forall>x \<in> set arrivals. \<exists>i < length fs. snd (snd x) = tagFrame (word_of_nat (Suc i)) (fs ! i)"
    using Cons.prems by simp
  show ?case
  proof (cases "isString \<and> allows \<and> \<not> rp_closed p \<and> rp_lastSeq p < ?s")
    case True
    let ?p = "p\<lparr>rp_lastSeq := ?s, rp_lastFrame := fs ! i\<rparr>"
    have m: "onMessage isString allows raw p = (Some (fs ! i), ?p)"
      unfolding i(2) onMessage_tag [OF pos f] using True by simp
    from Cons.IH [OF rest, of ?p] obtain js where
      js: "sorted_wrt (<) js" "\<forall>j \<in> set js. Suc i \<le> j \<and> j < length fs" "fst (receiveAll arrivals ?p) = map ((!) fs) js"
      using s by auto
    have "unat (rp_lastSeq p) \<le> i" using True s by (simp add: word_less_nat_alt)
    with js i(1) m show ?thesis by (intro exI [of _ "i # js"]) (auto simp: x split: prod.splits)
  next
    case False
    then have "onMessage isString allows raw p = (None, p)" unfolding i(2) onMessage_tag [OF pos f] by auto
    with Cons.IH [OF rest, of p] show ?thesis by (auto simp: x split: prod.splits)
  qed
qed (intro exI [of _ "[]"], simp)

lemma increasing_subseq:
  assumes "sorted_wrt (<) is" "\<forall>i \<in> set is. i < length xs"
  shows "subseq (map ((!) xs) is) xs"
proof -
  have "is = filter (\<lambda>i. i \<in> set is) [0..<length xs]"
  proof (rule sorted_distinct_set_unique)
    show "sorted is" "distinct is" using assms(1) by (simp_all add: strict_sorted_iff)
    show "sorted (filter (\<lambda>i. i \<in> set is) [0..<length xs])" by (rule sorted_wrt_filter) simp
  qed (use assms(2) in auto)
  then have "subseq is [0..<length xs]" by (metis subseq_filter_left)
  then have "subseq (map ((!) xs) is) (map ((!) xs) [0..<length xs])" by (rule subseq_map)
  then show ?thesis by (simp add: map_nth)
qed

text \<open>C10: The video of a participant is never shown out of order. Over a channel that loses,
  duplicates and reorders messages, and with any messages dropped by the rate limiter, the frames
  that a receiver shows are a subsequence of the frames that the sender broadcast: each at most
  once and none after a later one.\<close>

theorem frames_in_order:
  assumes "set (map (snd \<circ> snd) arrivals) \<subseteq> set (sendAll frames 0)"
    and "length frames < 2 ^ 64" and "rp_lastSeq p = 0"
  shows "subseq (fst (receiveAll arrivals p)) frames"
proof -
  let ?fs = "filter frame_ok frames"
  have small: "length ?fs < 2 ^ 64" using assms(2) length_filter_le [of frame_ok frames] by linarith
  have ok: "list_all frame_ok ?fs" by (auto simp: list_all_iff)
  have "\<forall>x \<in> set arrivals. \<exists>i < length ?fs. snd (snd x) = tagFrame (word_of_nat (Suc i)) (?fs ! i)"
  proof
    fix x assume "x \<in> set arrivals"
    then have "snd (snd x) \<in> set (sendAll frames 0)" using assms(1) by auto
    then show "\<exists>i < length ?fs. snd (snd x) = tagFrame (word_of_nat (Suc i)) (?fs ! i)"
      unfolding sendAll_eq by auto
  qed
  from receive_increasing [OF ok small this, of p] obtain js where
    js: "sorted_wrt (<) js" "\<forall>i \<in> set js. i < length ?fs" "fst (receiveAll arrivals p) = map ((!) ?fs) js" by auto
  from increasing_subseq [OF js(1,2)] js(3) have "subseq (fst (receiveAll arrivals p)) ?fs" by simp
  then show ?thesis using subseq_filter_left subseq_order.trans by blast
qed

theorem frames_in_order_witness:
  "subseq (fst (receiveAll [(True, True, tagFrame 2 ''b''), (True, True, tagFrame 1 ''a''), (True, True, tagFrame 2 ''b'')]
      (new_peer ''p'' ''u'' 0 None))) [''a'', ''b''] \<and>
   fst (receiveAll [(True, True, tagFrame 2 ''b''), (True, True, tagFrame 1 ''a''), (True, True, tagFrame 2 ''b'')]
      (new_peer ''p'' ''u'' 0 None)) = [''b'']"
proof
  let ?xs = "[(True, True, tagFrame 2 ''b''), (True, True, tagFrame 1 ''a''), (True, True, tagFrame 2 ''b'')]"
  have "sendAll [''a'', ''b''] 0 = [tagFrame 1 ''a'', tagFrame 2 ''b'']"
    by (simp add: nextFrame_def MaxEncodedFrameBytes_def)
  then show "subseq (fst (receiveAll ?xs (new_peer ''p'' ''u'' 0 None))) [''a'', ''b'']"
    by (intro frames_in_order) (simp_all add: new_peer_def)
  show "fst (receiveAll ?xs (new_peer ''p'' ''u'' 0 None)) = [''b'']"
    by (simp add: onMessage_tag frame_ok_def MaxEncodedFrameBytes_def new_peer_def)
qed

section \<open>Candidates\<close>

text \<open>A description is two operations, between which candidates may arrive.\<close>

datatype peer_op = Candidate bool ICECandidatePayload | Description bool string string | DescriptionSet nat

definition peer_do :: "(ICECandidatePayload \<Rightarrow> bool) \<Rightarrow> peer_op \<Rightarrow> RemotePeer \<Rightarrow> peer_error option \<times> rtc_call list \<times> RemotePeer" where
  "peer_do candidateOK x p =
     (case x of
        Candidate ok c \<Rightarrow> AddICECandidate ok c p
      | Description ok kind sdp \<Rightarrow>
          (case SetRemoteDescription_begin ok kind sdp p of (r, calls) \<Rightarrow>
             ((case r of Inl e \<Rightarrow> Some e | Inr _ \<Rightarrow> None), calls, p))
      | DescriptionSet connection \<Rightarrow> SetRemoteDescription_finish candidateOK connection p)"

text \<open>A run: the candidates that were taken, the calls and the peer.\<close>

fun peer_run ::
  "(ICECandidatePayload \<Rightarrow> bool) \<Rightarrow> peer_op list \<Rightarrow> RemotePeer \<Rightarrow> ICECandidatePayload list \<times> rtc_call list \<times> RemotePeer" where
  "peer_run candidateOK [] p = ([], [], p)"
| "peer_run candidateOK (x # xs) p =
     (case peer_do candidateOK x p of (err, calls, p1) \<Rightarrow>
        (case peer_run candidateOK xs p1 of (cs, calls', p2) \<Rightarrow>
           ((case x of Candidate _ c \<Rightarrow> if err = Some TooManyPending then cs else c # cs | _ \<Rightarrow> cs),
            calls @ calls', p2)))"

definition added :: "rtc_call list \<Rightarrow> ICECandidatePayload list" where
  "added calls = concat (map (\<lambda>x. case x of AddCandidate _ c \<Rightarrow> [c] | _ \<Rightarrow> []) calls)"

lemma added_simps [simp]:
  "added [] = []" "added (xs @ ys) = added xs @ added ys" "added (map (AddCandidate pc) cs) = cs"
  "added (AddCandidate pc c # xs) = c # added xs" "added (RemoteDescription pc k d # xs) = added xs"
  by (simp_all add: added_def comp_def)

definition peer_open :: "RemotePeer \<Rightarrow> bool" where
  "peer_open p \<longleftrightarrow> \<not> rp_closed p \<and> rp_PC p \<noteq> None \<and>
     int (length (rp_pendingICE p)) \<le> maxPendingICECandidates \<and> (rp_remoteDescriptionSet p \<longrightarrow> rp_pendingICE p = [])"

lemma peer_do_open:
  assumes "peer_open p" "peer_do candidateOK x p = (err, calls, p1)"
  shows "peer_open p1 \<and> added calls @ rp_pendingICE p1 = rp_pendingICE p @
    (case x of Candidate _ c \<Rightarrow> if err = Some TooManyPending then [] else [c] | _ \<Rightarrow> [])"
  using assms
  by (auto simp: peer_do_def peer_open_def AddICECandidate_def SetRemoteDescription_begin_def SetRemoteDescription_finish_def
      maxPendingICECandidates_def split: peer_op.splits if_splits option.splits)

text \<open>C26: No ICE candidate is lost, repeated or reordered. Whatever order candidates and session
  descriptions arrive in, the candidates handed to the connection followed by those still waiting
  are the ones that arrived, in order, except those that were refused because 256 were already
  waiting; never more than 256 wait, and none once the remote description is set. Candidates may also
  arrive while the library is given a description.\<close>

theorem candidates_kept:
  assumes "\<not> rp_closed p" and "rp_PC p = Some pc" and "rp_pendingICE p = []"
    and "peer_run candidateOK xs p = (taken, calls, p')"
  shows "added calls @ rp_pendingICE p' = taken \<and>
    int (length (rp_pendingICE p')) \<le> maxPendingICECandidates \<and>
    (rp_remoteDescriptionSet p' \<longrightarrow> rp_pendingICE p' = [])"
proof -
  have "peer_open p" using assms(1-3) by (simp add: peer_open_def maxPendingICECandidates_def)
  then have "peer_open p' \<and> added calls @ rp_pendingICE p' = rp_pendingICE p @ taken"
    using assms(4)
  proof (induction xs arbitrary: p taken calls)
    case (Cons x xs)
    obtain err calls1 p1 where d: "peer_do candidateOK x p = (err, calls1, p1)" by (metis prod_cases3)
    obtain taken2 calls2 where r: "peer_run candidateOK xs p1 = (taken2, calls2, p')"
      using Cons.prems(2) d by (auto split: prod.splits)
    note here = peer_do_open [OF Cons.prems(1) d]
    from Cons.IH [of p1 taken2 calls2] here r
    have "peer_open p'" "added calls2 @ rp_pendingICE p' = rp_pendingICE p1 @ taken2" by auto
    moreover have "calls = calls1 @ calls2"
      "taken = (case x of Candidate _ c \<Rightarrow> if err = Some TooManyPending then [] else [c] | _ \<Rightarrow> []) @ taken2"
      using Cons.prems(2) d r by (auto split: peer_op.splits)
    moreover have "(added calls1 @ rp_pendingICE p1) @ taken2 = rp_pendingICE p @ taken"
      using here calculation(4) by simp
    ultimately show ?case by simp
  qed simp
  with assms(3) show ?thesis by (simp add: peer_open_def)
qed

theorem candidates_kept_witness:
  "let c = (\<lambda>n. \<lparr>cand_Candidate = n, cand_SDPMid = None, cand_SDPMLineIndex = None, cand_UsernameFragment = None\<rparr>);
       r = peer_run (\<lambda>_. True) [Candidate True (c ''a''), Description True ''offer'' ''v=0'', Candidate True (c ''b''), DescriptionSet 7, Candidate True (c ''c'')] (new_peer ''p'' ''u'' 7 None)
   in added (fst (snd r)) @ rp_pendingICE (snd (snd r)) = fst r \<and> fst r = [c ''a'', c ''b'', c ''c'']"
proof -
  let ?c = "\<lambda>n. \<lparr>cand_Candidate = n, cand_SDPMid = None, cand_SDPMLineIndex = None, cand_UsernameFragment = None\<rparr>"
  let ?r = "peer_run (\<lambda>_. True) [Candidate True (?c ''a''), Description True ''offer'' ''v=0'', Candidate True (?c ''b''), DescriptionSet 7, Candidate True (?c ''c'')] (new_peer ''p'' ''u'' 7 None)"
  have "fst ?r = [?c ''a'', ?c ''b'', ?c ''c'']" by code_simp
  moreover have "added (fst (snd ?r)) @ rp_pendingICE (snd (snd ?r)) = fst ?r"
  proof -
    have "\<not> rp_closed (new_peer ''p'' ''u'' 7 None)" "rp_PC (new_peer ''p'' ''u'' 7 None) = Some 7"
      "rp_pendingICE (new_peer ''p'' ''u'' 7 None) = []" by (simp_all add: new_peer_def)
    moreover have "?r = (fst ?r, fst (snd ?r), snd (snd ?r))" by (simp only: prod.collapse)
    ultimately show ?thesis by (blast dest: candidates_kept)
  qed
  ultimately show ?thesis unfolding Let_def by blast
qed

section \<open>Address filters\<close>

text \<open>The address filters of the program agree. A remote candidate is used exactly when the relay
  would relay to its address, and allowing private networks adds exactly the private addresses.\<close>

lemma candidate_filter_agrees:
  "remoteCandidateAllowed ip = peerAllowed ip False \<and>
   (remoteCandidateAllowedWithPrivate ip True \<longleftrightarrow>
      remoteCandidateAllowed ip \<or>
      (AddrFromSlice ip = Some ip \<and> IsPrivate (Unmap ip) \<and> IsGlobalUnicast (Unmap ip)))"
proof -
  have "deniedRemoteCandidatePrefixes = deniedPeerPrefixes"
    by (simp add: deniedRemoteCandidatePrefixes_def deniedPeerPrefixes_def)
  moreover have "AddrFromSlice ip = None \<or> AddrFromSlice ip = Some ip" by (simp add: AddrFromSlice_def)
  ultimately show ?thesis
    by (auto simp: remoteCandidateAllowed_def remoteCandidateAllowedWithPrivate_def peerAllowed_def Let_def
        IsGlobalUnicast_def split: option.splits)
qed

end
