(* ===== verification/Grid_Layout.thy ===== *)
theory Grid_Layout
  imports Prelude "HOL-Library.Signed_Division"
begin

text \<open>
  The layout of the call screen: \<open>computeGrid\<close> of \<^verbatim>\<open>src/internal/tui/grid.go\<close> chooses the number of
  columns by scoring every possibility, and the loop of \<open>View\<close> (\<^verbatim>\<open>call.go\<close>) cuts the tiles into
  rows. Integer division truncates as in Go. Scores are computed without wrap-around: for windows of less
  than \<^verbatim>\<open>2^31\<close> columns and rows they fit Go's 64-bit \<^verbatim>\<open>int\<close> (\<open>gridScore_fits\<close>).
\<close>

section \<open>Definitions\<close>

definition maxSendWidth :: int where
  "maxSendWidth = 100"

text \<open>The space inside a tile, never below 10 by 5.\<close>

definition innerSize :: "int \<Rightarrow> int \<Rightarrow> int \<times> int" where
  "innerSize boxW boxH =
     (let w = boxW - 2; h = boxH - 3
      in (if w < 10 then 10 else w, if h < 5 then 5 else h))"

definition gridRowsFor :: "int \<Rightarrow> int \<Rightarrow> int" where
  "gridRowsFor peerCount c = (peerCount + c - 1) sdiv c"

definition gridScore :: "int \<Rightarrow> int \<Rightarrow> int \<Rightarrow> int \<Rightarrow> int" where
  "gridScore peerCount termW termH c =
     (case innerSize (termW sdiv c) (termH sdiv gridRowsFor peerCount c) of (w, h) \<Rightarrow>
        w * h + (if maxSendWidth \<le> w then 1000000 else w * 1000))"

definition gridStep :: "int \<Rightarrow> int \<Rightarrow> int \<Rightarrow> int \<times> int \<times> int \<Rightarrow> int \<Rightarrow> int \<times> int \<times> int" where
  "gridStep peerCount termW termH best c =
     (case best of (bestScore, bestCols, bestRows) \<Rightarrow>
        let score = gridScore peerCount termW termH c
        in if bestScore < score then (score, c, gridRowsFor peerCount c) else best)"

definition computeGrid :: "int \<Rightarrow> int \<Rightarrow> int \<Rightarrow> int \<times> int \<times> int \<times> int \<times> int" where
  "computeGrid peerCount termW termH =
     (if peerCount \<le> 0 then (1, termW, termH, 40, 15)
      else (case foldl (gridStep peerCount termW termH) (-1, 1, peerCount) [1..peerCount] of
          (_, cols, rows) \<Rightarrow>
            let boxW = termW sdiv cols; boxH = termH sdiv rows
            in (case innerSize boxW boxH of (innerW, innerH) \<Rightarrow> (cols, boxW, boxH, innerW, innerH))))"

text \<open>The rows of the grid; with no columns the division before the loop would panic.\<close>

function cutRows :: "nat \<Rightarrow> 'a list \<Rightarrow> 'a list list" where
  "cutRows columns tiles = (if columns = 0 \<or> tiles = [] then [] else take columns tiles # cutRows columns (drop columns tiles))"
  by pat_completeness auto

termination
  by (relation "measure (\<lambda>(columns, tiles). length tiles)") auto

declare cutRows.simps [simp del]

definition gridRows :: "int \<Rightarrow> 'a list \<Rightarrow> 'a list list option" where
  "gridRows columns tiles = (if columns = 0 then None else Some (cutRows (nat columns) tiles))"

section \<open>The search\<close>

lemma sdiv_pos: "0 \<le> a \<Longrightarrow> 0 < b \<Longrightarrow> a sdiv b = a div (b :: int)"
  by (cases "a = 0") (simp_all add: signed_divide_int_def)

lemma innerSize_min: "innerSize w h = (a, b) \<Longrightarrow> 10 \<le> a \<and> 5 \<le> b"
  by (auto simp: innerSize_def Let_def split: if_splits)

lemma gridScore_pos: "-1 < gridScore n w h c"
proof -
  obtain a b where i: "innerSize (w sdiv c) (h sdiv gridRowsFor n c) = (a, b)" by fastforce
  from innerSize_min [OF i] have "0 \<le> a * b" "0 \<le> a" by simp_all
  then show ?thesis by (simp add: gridScore_def i)
qed

lemma gridScore_fits:
  assumes "1 \<le> n" "1 \<le> c" "0 \<le> w" "w < 2 ^ 31" "0 \<le> h" "h < 2 ^ 31"
  shows "gridScore n w h c < 2 ^ 63"
proof -
  let ?r = "gridRowsFor n c"
  have "1 \<le> ?r" using assms(1,2) by (simp add: gridRowsFor_def sdiv_pos pos_imp_zdiv_pos_iff int_one_le_iff_zero_less)
  moreover have shrink: "0 \<le> x div y \<and> x div y \<le> x" if "0 \<le> x" "1 \<le> y" for x y :: int
    using that by (cases "x = 0") (auto simp: pos_imp_zdiv_nonneg_iff intro: int_div_le_self)
  ultimately have sizes: "w sdiv c \<le> w" "h sdiv ?r \<le> h" "0 \<le> w sdiv c" "0 \<le> h sdiv ?r"
    using assms shrink [of w c] shrink [of h ?r] by (simp_all add: sdiv_pos)
  obtain a b where i: "innerSize (w sdiv c) (h sdiv ?r) = (a, b)" by fastforce
  then have ab: "10 \<le> a" "a \<le> 2 ^ 31" "5 \<le> b" "b \<le> 2 ^ 31"
    using sizes assms by (auto simp: innerSize_def Let_def split: if_splits)
  then have "a * b \<le> 2 ^ 31 * 2 ^ 31" by (intro mult_mono) simp_all
  with ab i show ?thesis by (simp add: gridScore_def)
qed

lemma grid_search:
  assumes "\<And>c. c \<in> set cs \<Longrightarrow> 1 \<le> c" "foldl (gridStep n w h) (gridScore n w h b, b, gridRowsFor n b) cs = (s, cols, rows)"
  shows "s = gridScore n w h cols \<and> rows = gridRowsFor n cols \<and> cols \<in> insert b (set cs) \<and>
    (\<forall>c \<in> insert b (set cs). gridScore n w h c \<le> gridScore n w h cols)"
  using assms
proof (induction cs arbitrary: b)
  case (Cons c cs)
  show ?case
  proof (cases "gridScore n w h b < gridScore n w h c")
    case True
    with Cons.IH [of c] Cons.prems show ?thesis by (auto simp: gridStep_def)
  next
    case False
    with Cons.IH [of b] Cons.prems show ?thesis by (force simp: gridStep_def)
  qed
qed simp

lemma computeGrid_eq:
  assumes n: "0 < n" and g: "computeGrid n w h = (cols, boxW, boxH, innerW, innerH)"
  shows "1 \<le> cols \<and> cols \<le> n \<and> boxW = w sdiv cols \<and> boxH = h sdiv gridRowsFor n cols \<and> (innerW, innerH) = innerSize boxW boxH \<and>
    (\<forall>c. 1 \<le> c \<and> c \<le> n \<longrightarrow> gridScore n w h c \<le> gridScore n w h cols)"
proof -
  have list: "[1..n] = 1 # [2..n]" using n by (simp add: upto_rec1)
  obtain s cols' rows where f: "foldl (gridStep n w h) (-1, 1, n) [1..n] = (s, cols', rows)" by (metis prod_cases3)
  then have "foldl (gridStep n w h) (gridScore n w h 1, 1, gridRowsFor n 1) [2..n] = (s, cols', rows)"
    using gridScore_pos [of n w h 1] by (simp add: list gridStep_def)
  from grid_search [OF _ this] have best: "rows = gridRowsFor n cols'" "cols' \<in> insert 1 (set [2..n])"
    "\<forall>c \<in> insert 1 (set [2..n]). gridScore n w h c \<le> gridScore n w h cols'" by auto
  have "c \<in> insert 1 (set [2..n]) \<longleftrightarrow> 1 \<le> c \<and> c \<le> n" for c using n by auto
  moreover have "cols = cols' \<and> boxW = w sdiv cols' \<and> boxH = h sdiv rows \<and> (innerW, innerH) = innerSize boxW boxH"
    using g n f by (auto simp: computeGrid_def Let_def split: prod.splits)
  moreover have "\<forall>c. 1 \<le> c \<and> c \<le> n \<longrightarrow> gridScore n w h c \<le> gridScore n w h cols'" using best(3) calculation(1) by blast
  ultimately show ?thesis using best(1,2) by auto
qed

section \<open>Rows\<close>

lemma cutRows_concat: "0 < k \<Longrightarrow> concat (cutRows k xs) = xs"
  by (induction k xs rule: cutRows.induct) (subst cutRows.simps, simp)

lemma cutRows_width: "row \<in> set (cutRows k xs) \<Longrightarrow> 0 < length row \<and> length row \<le> k"
  by (induction k xs rule: cutRows.induct) (subst (asm) (2) cutRows.simps, auto split: if_splits)

lemma cutRows_count: "0 < k \<Longrightarrow> length (cutRows k xs) = (length xs + k - 1) div k"
proof (induction k xs rule: cutRows.induct)
  case (1 k xs)
  show ?case
  proof (cases "xs = []")
    case True
    then show ?thesis using 1(2) by (subst cutRows.simps) simp
  next
    case False
    have "length (cutRows k xs) = Suc ((length xs - k + k - 1) div k)"
      using 1 False by (subst cutRows.simps) simp
    also have "\<dots> = (length xs + k - 1) div k"
    proof (cases "k \<le> length xs")
      case True
      then have "length xs + k - 1 = (length xs - k + k - 1) + k" using 1(2) False by simp
      then show ?thesis using 1(2) by (simp only: div_add_self2)
    next
      case small: False
      then have "(k - 1) div k = 0" "length xs - k = 0" using 1(2) by simp_all
      moreover have "(length xs + k - 1) div k = 1"
      proof (rule div_nat_eqI)
        have "1 \<le> length xs" using False by (simp add: Suc_leI)
        then show "k * 1 \<le> length xs + k - 1" by linarith
        show "length xs + k - 1 < k * Suc 1" using small by simp
      qed
      ultimately show ?thesis by simp
    qed
    finally show ?thesis .
  qed
qed

text \<open>The rows hold every tile and, with the size of the boxes, fit the terminal.\<close>

lemma grid_rows_fit:
  assumes "tiles \<noteq> []" and "0 \<le> termW" and "0 \<le> termH"
    and "computeGrid (int (length tiles)) termW termH = (cols, boxW, boxH, innerW, innerH)"
  shows "\<exists>rows. gridRows cols tiles = Some rows \<and> concat rows = tiles \<and> (\<forall>row \<in> set rows. row \<noteq> [] \<and> int (length row) \<le> cols) \<and>
      cols * boxW \<le> termW \<and> int (length rows) * boxH \<le> termH"
proof -
  let ?n = "int (length tiles)"
  have n: "0 < ?n" using assms(1) by simp
  note g = computeGrid_eq [OF n assms(4)]
  have cols: "1 \<le> cols" "cols \<le> ?n" using g by blast+
  let ?rows = "cutRows (nat cols) tiles"
  have k: "0 < nat cols" using cols by simp
  have "int (length ?rows) = (?n + cols - 1) div cols"
    using cutRows_count [OF k, of tiles] cols by (simp add: zdiv_int of_nat_diff nat_add_distrib)
  then have rows: "int (length ?rows) = gridRowsFor ?n cols" using cols by (simp add: gridRowsFor_def sdiv_pos)
  have pos: "0 < gridRowsFor ?n cols"
    using cols n by (simp add: gridRowsFor_def sdiv_pos pos_imp_zdiv_pos_iff)
  have width: "cols * boxW \<le> termW" using g cols assms(2) by (simp add: sdiv_pos)
      (metis minus_mod_eq_mult_div le_add_same_cancel1 diff_add_cancel pos_mod_sign zero_less_one order_less_le_trans)
  have height: "int (length ?rows) * boxH \<le> termH" unfolding rows using g pos assms(3) by (simp add: sdiv_pos)
      (metis minus_mod_eq_mult_div le_add_same_cancel1 diff_add_cancel pos_mod_sign)
  have "\<forall>row \<in> set ?rows. row \<noteq> [] \<and> int (length row) \<le> cols" using cutRows_width [of _ "nat cols" tiles] cols by force
  with cutRows_concat [OF k, of tiles] cols width height show ?thesis by (simp add: gridRows_def)
qed

section \<open>Properties\<close>

text \<open>C38: The layout of the call is the best one and holds everybody. For any number of tiles and any
  terminal, the chosen number of columns has the highest score; the rows of the grid
  contain every tile exactly once and in order, no row is empty or wider than the grid, and the
  boxes of all rows and columns fit into the terminal.\<close>

theorem grid_layout_correct:
  assumes "tiles \<noteq> []" and "0 \<le> termW" and "0 \<le> termH"
    and "computeGrid (int (length tiles)) termW termH = (cols, boxW, boxH, innerW, innerH)"
  shows "(\<forall>c. 1 \<le> c \<and> c \<le> int (length tiles) \<longrightarrow>
      gridScore (int (length tiles)) termW termH c \<le> gridScore (int (length tiles)) termW termH cols) \<and>
    (\<exists>rows. gridRows cols tiles = Some rows \<and> concat rows = tiles \<and> (\<forall>row \<in> set rows. row \<noteq> [] \<and> int (length row) \<le> cols) \<and>
      cols * boxW \<le> termW \<and> int (length rows) * boxH \<le> termH)"
  using computeGrid_eq [OF _ assms(4)] grid_rows_fit [OF assms] assms(1) by simp

theorem grid_layout_correct_witness:
  "\<exists>rows. gridRows 2 [''a'', ''b'', ''c'', ''d''] = Some rows \<and> concat rows = [''a'', ''b'', ''c'', ''d'']"
proof -
  have "computeGrid (int (length [''a'', ''b'', ''c'', ''d''])) 205 30 = (2, 102, 15, 100, 12)" by code_simp
  from grid_layout_correct [OF _ _ _ this] show ?thesis by auto
qed

end
