(* ===== verification/Call_Model.thy ===== *)
theory Call_Model
  imports Renderer Remote_Peer Grid_Layout
begin

text \<open>
  The call screen (\<^verbatim>\<open>src/internal/tui/call.go\<close>): the model that the event loop updates with one
  message at a time, and the part of \<open>View\<close> that decides what is shown where. Calls on the mesh and
  the devices are listed in order as effects, and the command that \<open>Update\<close> hands back to the event
  loop is a value. What the periodic messages read from the mesh (statistics, loudness) is
  part of the message; a camera channel is a number. How the parts are styled and put together is
  in \<open>Views\<close>.
\<close>

section \<open>State and messages\<close>

record CallModel =
  cm_cameraFrames :: "nat option"
  cm_camOn :: bool
  cm_micOn :: bool
  cm_camStarting :: bool
  cm_micStarting :: bool
  cm_callError :: string
  cm_width :: int
  cm_height :: int
  cm_peers :: "string list"
  cm_peerCells :: "(string, grid) gomap"
  cm_peerModes :: "(string, RenderMode) gomap"
  cm_peerNames :: "(string, string) gomap"
  cm_peerStats :: "(string, PeerStats) gomap"
  cm_peerVolumes :: "(string, go_float) gomap"
  cm_removedPeers :: "(string, bool) gomap"
  cm_peerDecoders :: "(string, DeltaDecoder) gomap"
  cm_localVolume :: go_float
  cm_localCells :: grid
  cm_renderer :: ColorRenderer
  cm_showStats :: bool
  cm_roomID :: string

definition NewCallModel :: "string \<Rightarrow> CallModel" where
  "NewCallModel roomID =
     \<lparr>cm_cameraFrames = None, cm_camOn = False, cm_micOn = False, cm_camStarting = False, cm_micStarting = False,
      cm_callError = [], cm_width = 0, cm_height = 0, cm_peers = [], cm_peerCells = gm_empty, cm_peerModes = gm_empty,
      cm_peerNames = gm_empty, cm_peerStats = gm_empty, cm_peerVolumes = gm_empty, cm_removedPeers = gm_empty,
      cm_peerDecoders = gm_empty, cm_localVolume = Fin 0, cm_localCells = [],
      cm_renderer = NewColorRenderer ModeHalfBlock, cm_showStats = False, cm_roomID = roomID\<rparr>"

datatype call_msg =
    KeyMsg string
  | WindowSizeMsg int int
  | PeerJoinMsg string string
  | PeerLeaveMsg string
  | PeerFrameMsg string string
  | CameraStartedMsg "nat option" "string option"
  | LocalFrameMsg "Image option" "nat option" bool
  | MicrophoneStartedMsg nat "string option"
  | CallErrorMsg "string option"
  | StatsTickMsg "(string \<times> PeerStats) list"
  | VolumeTickMsg "(string \<times> go_float) list"

datatype call_effect = MeshStart | SetLocalTrack nat | MuteAudio bool | Broadcast string | CameraClose | MicClose

datatype call_cmd =
    CmdNone | CmdQuit | CmdStartMesh | CmdStartCamera | CmdStartMicrophone | CmdWaitFrame "nat option" | CmdTickStats | CmdTickVolume
  | CmdBatch "call_cmd list"

type_synonym call_result = "CallModel \<times> call_effect list \<times> call_cmd"

section \<open>Updates\<close>

definition call_Init :: call_cmd where
  "call_Init = CmdBatch [CmdStartMesh, CmdTickStats, CmdTickVolume]"

fun errorText :: "unicode_tables \<Rightarrow> string \<Rightarrow> nat list \<Rightarrow> string" where
  "errorText U builder [] = builder"
| "errorText U builder (char # rest) =
     (let b = (if is_print U char \<and> \<not> is_control char then builder @ encode_rune char else builder)
      in if 160 \<le> length b then b else errorText U b rest)"

definition setError :: "unicode_tables \<Rightarrow> string option \<Rightarrow> CallModel \<Rightarrow> CallModel" where
  "setError U err m =
     (case err of None \<Rightarrow> m | Some e \<Rightarrow> m\<lparr>cm_callError := errorText U [] (rune_values e)\<rparr>)"

definition AddPeer :: "string \<Rightarrow> string \<Rightarrow> CallModel \<Rightarrow> CallModel" where
  "AddPeer peerID username m =
     m\<lparr>cm_peers := (if gm_get (cm_peerNames m) peerID = None then cm_peers m @ [peerID] else cm_peers m),
       cm_peerNames := gm_set peerID username (cm_peerNames m),
       cm_removedPeers := gm_delete peerID (cm_removedPeers m)\<rparr>"

definition RemovePeer :: "string \<Rightarrow> CallModel \<Rightarrow> CallModel" where
  "RemovePeer peerID m =
     m\<lparr>cm_peers := remove1 peerID (cm_peers m),
       cm_peerNames := gm_delete peerID (cm_peerNames m),
       cm_peerCells := gm_delete peerID (cm_peerCells m),
       cm_peerModes := gm_delete peerID (cm_peerModes m),
       cm_peerStats := gm_delete peerID (cm_peerStats m),
       cm_peerVolumes := gm_delete peerID (cm_peerVolumes m),
       cm_peerDecoders := gm_delete peerID (cm_peerDecoders m),
       cm_removedPeers := gm_set peerID True (cm_removedPeers m)\<rparr>"

definition toggleCamera :: "CallModel \<Rightarrow> call_result" where
  "toggleCamera m =
     (if cm_camStarting m then (m, [], CmdNone)
      else if cm_camOn m then
        (m\<lparr>cm_camOn := False, cm_cameraFrames := None, cm_localCells := [], cm_renderer := renderer_Reset (cm_renderer m)\<rparr>,
         [CameraClose, Broadcast (StatusFrame ''Camera off'')], CmdNone)
      else (m\<lparr>cm_camStarting := True, cm_callError := []\<rparr>, [], CmdStartCamera))"

definition toggleMicrophone :: "CallModel \<Rightarrow> call_result" where
  "toggleMicrophone m =
     (if cm_micStarting m then (m, [], CmdNone)
      else if cm_micOn m then (m\<lparr>cm_micOn := False, cm_localVolume := Fin 0\<rparr>, [MuteAudio True, MicClose], CmdNone)
      else (m\<lparr>cm_micStarting := True, cm_callError := []\<rparr>, [], CmdStartMicrophone))"

definition peerFrameDecode :: "string \<Rightarrow> string \<Rightarrow> CallModel \<Rightarrow> CallModel" where
  "peerFrameDecode peerID frame m =
     (let decoder = (case gm_get (cm_peerDecoders m) peerID of None \<Rightarrow> NewDeltaDecoder | Some d \<Rightarrow> d)
      in case DecodeCells decoder frame of (res, decoder') \<Rightarrow>
           let m1 = m\<lparr>cm_peerDecoders := gm_set peerID decoder' (cm_peerDecoders m)\<rparr>
           in (case res of
                 Inl _ \<Rightarrow> m1\<lparr>cm_callError := ''Dropped an invalid video frame from '' @
                     (case gm_get (cm_peerNames m1) peerID of None \<Rightarrow> [] | Some name \<Rightarrow> name)\<rparr>
               | Inr (cells, mode) \<Rightarrow>
                   m1\<lparr>cm_peerCells := gm_set peerID cells (cm_peerCells m1), cm_peerModes := gm_set peerID mode (cm_peerModes m1)\<rparr>))"

definition handlePeerFrame :: "string \<Rightarrow> string \<Rightarrow> CallModel \<Rightarrow> CallModel" where
  "handlePeerFrame peerID frame m =
     (if gm_get (cm_removedPeers m) peerID = Some True then m
      else
        let m1 = (if gm_get (cm_peerNames m) peerID = None
                  then m\<lparr>cm_peerNames := gm_set peerID (''Peer '' @ peerID) (cm_peerNames m), cm_peers := cm_peers m @ [peerID]\<rparr>
                  else m)
        in if frame = StatusFrame ''Camera off''
           then m1\<lparr>cm_peerCells := gm_delete peerID (cm_peerCells m1), cm_peerModes := gm_delete peerID (cm_peerModes m1)\<rparr>
           else peerFrameDecode peerID frame m1)"

definition handleLocalFrame :: "Image option \<Rightarrow> nat option \<Rightarrow> bool \<Rightarrow> CallModel \<Rightarrow> call_result" where
  "handleLocalFrame rawImage source isClosed m =
     (if source \<noteq> cm_cameraFrames m then (m, [], CmdNone)
      else if isClosed then
        (if cm_camOn m
         then m\<lparr>cm_cameraFrames := None, cm_camOn := False, cm_callError := ''Camera stream stopped''\<rparr>
         else m\<lparr>cm_cameraFrames := None\<rparr>, [], CmdNone)
      else (case (if cm_camOn m then rawImage else None) of
          None \<Rightarrow> (m, [], CmdWaitFrame (cm_cameraFrames m))
        | Some img \<Rightarrow>
            (case ConvertCells img MaxFrameWidth MaxFrameHeight (cm_renderer m) of
               ((cells, encoded), r) \<Rightarrow>
                 let m1 = m\<lparr>cm_renderer := r\<rparr>
                 in if encoded \<noteq> []
                    then (m1\<lparr>cm_localCells := cells\<rparr>, [Broadcast encoded], CmdWaitFrame (cm_cameraFrames m1))
                    else (m1, [], CmdWaitFrame (cm_cameraFrames m1)))))"

definition call_key :: "string \<Rightarrow> CallModel \<Rightarrow> call_result" where
  "call_key key m =
     (if key = ''ctrl+c'' \<or> key = ''q'' then (m, [CameraClose, MicClose], CmdQuit)
      else if key = ''v'' then toggleCamera m
      else if key = ''m'' then toggleMicrophone m
      else if key = ''s'' then (m\<lparr>cm_showStats := \<not> cm_showStats m\<rparr>, [], CmdNone)
      else if key = ''n''
      then (m\<lparr>cm_renderer := SetMode ((cr_mode (cm_renderer m) + 1) mod 3) (cm_renderer m)\<rparr>, [], CmdNone)
      else (m, [], CmdNone))"

definition call_Update :: "unicode_tables \<Rightarrow> call_msg \<Rightarrow> CallModel \<Rightarrow> call_result" where
  "call_Update U message m =
     (case message of
        KeyMsg key \<Rightarrow> call_key key m
      | WindowSizeMsg w h \<Rightarrow> (m\<lparr>cm_width := w, cm_height := h\<rparr>, [], CmdNone)
      | PeerJoinMsg peerID username \<Rightarrow> (AddPeer peerID username m, [], CmdNone)
      | PeerLeaveMsg peerID \<Rightarrow> (RemovePeer peerID m, [], CmdNone)
      | PeerFrameMsg peerID frame \<Rightarrow> (handlePeerFrame peerID frame m, [], CmdNone)
      | CameraStartedMsg frames err \<Rightarrow>
          let m1 = m\<lparr>cm_camStarting := False\<rparr>
          in (case err of
                Some e \<Rightarrow> (setError U (Some (''camera: '' @ e)) m1, [], CmdNone)
              | None \<Rightarrow>
                  (m1\<lparr>cm_cameraFrames := frames, cm_camOn := True, cm_renderer := renderer_Reset (cm_renderer m1), cm_callError := []\<rparr>,
                   [], CmdWaitFrame frames))
      | LocalFrameMsg rawImage source isClosed \<Rightarrow> handleLocalFrame rawImage source isClosed m
      | MicrophoneStartedMsg track err \<Rightarrow>
          let m1 = m\<lparr>cm_micStarting := False\<rparr>
          in (case err of
                Some e \<Rightarrow> (setError U (Some (''microphone: '' @ e)) m1, [], CmdNone)
              | None \<Rightarrow> (m1\<lparr>cm_micOn := True, cm_callError := []\<rparr>, [SetLocalTrack track, MuteAudio False], CmdNone))
      | CallErrorMsg err \<Rightarrow> (setError U err m, [], CmdNone)
      | StatsTickMsg stats \<Rightarrow>
          (m\<lparr>cm_peerStats := fold (\<lambda>(k, s). gm_set k s) stats (cm_peerStats m)\<rparr>, [], CmdTickStats)
      | VolumeTickMsg volumes \<Rightarrow>
          (m\<lparr>cm_localVolume := Fin 0, cm_peerVolumes := fold (\<lambda>(k, v). gm_set k v) volumes (cm_peerVolumes m)\<rparr>, [], CmdTickVolume))"

section \<open>What is shown\<close>

record tile =
  ti_name :: string
  ti_frame :: string
  ti_placeholder :: bool

definition localTile :: "CallModel \<Rightarrow> tile" where
  "localTile m =
     \<lparr>ti_name = ''You (Local)'',
      ti_frame =
        (if cm_camStarting m then ''Starting camera...''
         else if cm_camOn m \<and> cm_localCells m \<noteq> [] then built (SerialiseMode (cm_localCells m) (cr_mode (cm_renderer m)))
         else if cm_camOn m then ''Waiting for camera...''
         else ''Camera off''),
      ti_placeholder = (\<not> cm_camOn m \<and> \<not> cm_camStarting m)\<rparr>"

definition peerTile :: "CallModel \<Rightarrow> string \<Rightarrow> tile" where
  "peerTile m peerID =
     (let name = (case gm_get (cm_peerNames m) peerID of None \<Rightarrow> [] | Some n \<Rightarrow> n);
          cells = (case gm_get (cm_peerCells m) peerID of None \<Rightarrow> [] | Some c \<Rightarrow> c);
          mode = (case gm_get (cm_peerModes m) peerID of None \<Rightarrow> 0 | Some k \<Rightarrow> k)
      in if cells \<noteq> [] then \<lparr>ti_name = name, ti_frame = built (SerialiseMode cells mode), ti_placeholder = False\<rparr>
         else \<lparr>ti_name = name, ti_frame = ''Camera off'', ti_placeholder = True\<rparr>)"

definition viewTiles :: "CallModel \<Rightarrow> tile list" where
  "viewTiles m = localTile m # map (peerTile m) (cm_peers m)"

text \<open>The lines of a frame inside a tile; \<open>shorten\<close> is the terminal library's truncation to a width.\<close>

definition cropFrame :: "(string \<Rightarrow> int \<Rightarrow> string) \<Rightarrow> int \<Rightarrow> int \<Rightarrow> string \<Rightarrow> string" where
  "cropFrame shorten maxInnerWidth maxInnerHeight frame =
     (let lines = split_on (CHR 0x0A) frame;
          kept = (if maxInnerHeight < int (length lines) then take (nat maxInnerHeight) lines else lines)
      in join_on (CHR 0x0A) (map (\<lambda>line. shorten line maxInnerWidth) kept))"

text \<open>The loudness bars (\<^verbatim>\<open>voice.go\<close>): the positions in the table of eight bars, or \<open>None\<close> for silence.
  The loudness is a finite value.\<close>

definition voiceBar :: "rat \<Rightarrow> nat \<Rightarrow> nat" where
  "voiceBar scaled i =
     (let dist = \<bar>float64 (int i - 2)\<bar>;
          val0 = fl (scaled - fl (dist * fl (1 / 5)));
          val1 = (if val0 < fl (1 / 20) then fl (1 / 20) else val0);
          val = (if 1 < val1 then 1 else val1);
          idx = go_trunc (fl (val * 7))
      in if idx < 0 then 0 else if 8 \<le> idx then 7 else nat idx)"

definition renderVoiceActivity :: "rat \<Rightarrow> nat list option" where
  "renderVoiceActivity rms =
     (let scaled0 = fl (rms * 10); scaled = (if 1 < scaled0 then 1 else scaled0)
      in if rms < fl (5 / 1000) then None else Some (map (voiceBar scaled) [0..<5]))"

lemma voiceBar_in_table: "renderVoiceActivity rms = Some bars \<Longrightarrow> length bars = 5 \<and> list_all (\<lambda>i. i < 8) bars"
proof -
  have "voiceBar scaled i < 8" for scaled i by (auto simp: voiceBar_def Let_def)
  then show "renderVoiceActivity rms = Some bars \<Longrightarrow> length bars = 5 \<and> list_all (\<lambda>i. i < 8) bars"
    by (auto simp: renderVoiceActivity_def Let_def list_all_iff split: if_splits)
qed

text \<open>The rows of tiles; \<open>bars\<close> is the height of the title, status and control bars.\<close>

definition viewRows :: "int \<Rightarrow> CallModel \<Rightarrow> tile list list option" where
  "viewRows bars m =
     (if cm_width m = 0 \<or> cm_height m = 0 then None
      else
        let availableHeight = (if cm_height m - bars < 0 then 0 else cm_height m - bars)
        in (case computeGrid (int (length (cm_peers m)) + 1) (cm_width m) availableHeight of
              (columns, _) \<Rightarrow> gridRows columns (viewTiles m)))"

text \<open>The totals of the status bar: the largest round trip, the lost packets (32 bits) and the
  largest outgoing rates.\<close>

definition addStats :: "go_float \<times> 32 word \<times> go_float \<times> go_float \<Rightarrow> PeerStats \<Rightarrow> go_float \<times> 32 word \<times> go_float \<times> go_float" where
  "addStats acc stats =
     (case acc of (maxPing, totalLoss, outgoing, audioOut) \<Rightarrow>
        (if float_less maxPing (st_RTTMs stats) then st_RTTMs stats else maxPing,
         totalLoss + of_int (st_PacketsLost stats),
         if float_less outgoing (st_OutgoingKBps stats) then st_OutgoingKBps stats else outgoing,
         if float_less outgoing (st_OutgoingKBps stats) then st_AudioOutKBps stats else audioOut))"

definition viewStats :: "CallModel \<Rightarrow> go_float \<times> 32 word \<times> go_float \<times> go_float" where
  "viewStats m =
     foldl addStats (Fin 0, 0, Fin 0, Fin 0)
       (map (\<lambda>k. case gm_get (cm_peerStats m) k of None \<Rightarrow> zero_stats | Some s \<Rightarrow> s) (cm_peers m))"

end
