(* ===== verification/Mesh.thy ===== *)
theory Mesh
  imports Remote_Peer
begin

text \<open>
  The mesh of peer connections (\<^verbatim>\<open>internal/rtc/mesh.go\<close>). Remote peers are heap objects; the map
  \<open>ms_Peers\<close> holds pointers. What the WebRTC library answers to a handler is the record
  \<open>rtc_lib\<close>; calls with an outside effect and callbacks to the user interface are appended to
  \<open>ms_calls\<close> and \<open>ms_events\<close>. \<open>handlePeerJoined\<close> checks, creates a connection without
  holding the lock and then registers it, so it is two steps between which callbacks of other
  connections and \<open>Stop\<close> can run; the same holds for a description that is handed to the library
  and for the loop that replaces the tracks of the senders.
\<close>

section \<open>State\<close>

datatype mesh_error =
    ProtocolFailure proto_error
  | CreatePeer string
  | VideoChannel string
  | CreateOffer string
  | LocalOffer string
  | CreateAnswer string
  | LocalAnswer string
  | SendFailure MessageType string
  | UnknownPeer MessageType string
  | InvalidPayload MessageType string
  | RemoteFailure MessageType string peer_error
  | SignalingFailure string string
  | UnexpectedMessage MessageType
  | AudioTrackFailure string
  | PlayerFailure string
  | ConnectionClosed
  | TransportFailure

datatype mesh_event =
    PeerJoin string string
  | PeerLeave string
  | FrameShown string string
  | MeshError mesh_error

text \<open>The part of the WebRTC library's settings that the program chooses: which addresses of remote
  candidates are let through, and the sizes of the data channel.\<close>

record webrtc_api =
  api_remoteIPFilter :: "IP \<Rightarrow> bool"
  api_maxMessageSize :: "32 word"
  api_maxReceiveBuffer :: "32 word"

record MeshOptions =
  mo_AllowPrivateCandidates :: bool

record MeshManager =
  ms_frameSeq :: u64
  ms_LocalPeerID :: string
  ms_Peers :: "(string, nat) gomap"
  ms_heap :: "nat \<Rightarrow> RemotePeer"
  ms_next :: nat
  ms_webrtcAPI :: webrtc_api
  ms_iceServers :: "ICEServer list"
  ms_initialPeers :: "PeerInfo list"
  ms_localAudioTrack :: "nat option"
  ms_silentAudioTrack :: nat
  ms_isMuted :: bool
  ms_cancelled :: bool
  ms_started :: bool
  ms_stopped :: bool
  ms_events :: "mesh_event list"
  ms_calls :: "rtc_call list"

record rtc_lib =
  lib_connection :: "nat option"
  lib_sender :: "nat option"
  lib_channel :: "nat option"
  lib_offer :: "string option"
  lib_answer :: "string option"
  lib_local :: bool
  lib_remote :: bool
  lib_candidate :: "ICECandidatePayload \<Rightarrow> bool"
  lib_send :: bool

datatype new_mesh_error = NoTransport | LocalPeerIDError proto_error | CodecError | TrackError

definition webrtc_settings :: "MeshOptions \<Rightarrow> webrtc_api" where
  "webrtc_settings options =
     \<lparr>api_remoteIPFilter = (\<lambda>ip. remoteCandidateAllowedWithPrivate ip (mo_AllowPrivateCandidates options)),
      api_maxMessageSize = word_of_int (MaxEncodedFrameBytes + 21),
      api_maxReceiveBuffer = 1024 * 1024\<rparr>"

definition NewMeshManagerWithOptions ::
  "unicode_tables \<Rightarrow> bool \<Rightarrow> bool \<Rightarrow> nat option \<Rightarrow> JoinAcceptedPayload \<Rightarrow> MeshOptions \<Rightarrow> (new_mesh_error, MeshManager) res" where
  "NewMeshManagerWithOptions U hasSignaler codecsOK silentTrack admission options =
     (if \<not> hasSignaler then Inl NoTransport
      else (case ValidatePeerID U (ja_PeerID admission) of
          Some e \<Rightarrow> Inl (LocalPeerIDError e)
        | None \<Rightarrow>
            if \<not> codecsOK then Inl CodecError
            else (case silentTrack of
                None \<Rightarrow> Inl TrackError
              | Some silent \<Rightarrow>
                  Inr \<lparr>ms_frameSeq = 0, ms_LocalPeerID = ja_PeerID admission, ms_Peers = gm_empty,
                       ms_heap = (\<lambda>_. new_peer [] [] 0 None), ms_next = 0,
                       ms_webrtcAPI = webrtc_settings options,
                       ms_iceServers = ja_ICEServers admission, ms_initialPeers = ja_Peers admission,
                       ms_localAudioTrack = None, ms_silentAudioTrack = silent, ms_isMuted = True,
                       ms_cancelled = False, ms_started = False, ms_stopped = False,
                       ms_events = [], ms_calls = []\<rparr>)))"

definition NewMeshManager ::
  "unicode_tables \<Rightarrow> bool \<Rightarrow> bool \<Rightarrow> nat option \<Rightarrow> JoinAcceptedPayload \<Rightarrow> (new_mesh_error, MeshManager) res" where
  "NewMeshManager U hasSignaler codecsOK silentTrack admission =
     NewMeshManagerWithOptions U hasSignaler codecsOK silentTrack admission \<lparr>mo_AllowPrivateCandidates = False\<rparr>"

definition emit_event :: "mesh_event \<Rightarrow> MeshManager \<Rightarrow> MeshManager" where
  "emit_event e m = m\<lparr>ms_events := ms_events m @ [e]\<rparr>"

definition notifyError :: "mesh_error \<Rightarrow> MeshManager \<Rightarrow> MeshManager" where
  "notifyError e m = emit_event (MeshError e) m"

definition log_calls :: "rtc_call list \<Rightarrow> MeshManager \<Rightarrow> MeshManager" where
  "log_calls cs m = m\<lparr>ms_calls := ms_calls m @ cs\<rparr>"

definition set_remote :: "nat \<Rightarrow> RemotePeer \<Rightarrow> MeshManager \<Rightarrow> MeshManager" where
  "set_remote a p m = m\<lparr>ms_heap := (ms_heap m)(a := p)\<rparr>"

definition mesh_peer :: "string \<Rightarrow> MeshManager \<Rightarrow> nat option" where
  "mesh_peer peerID m = gm_get (ms_Peers m) peerID"

definition close_remote :: "nat \<Rightarrow> MeshManager \<Rightarrow> MeshManager" where
  "close_remote a m = (case peer_Close (ms_heap m a) of (calls, p) \<Rightarrow> log_calls calls (set_remote a p m))"

text \<open>The order of Go strings is the order of their bytes.\<close>

fun go_less :: "string \<Rightarrow> string \<Rightarrow> bool" where
  "go_less s [] = False"
| "go_less [] (d # t) = True"
| "go_less (c # s) (d # t) = (byte_val c < byte_val d \<or> c = d \<and> go_less s t)"

section \<open>Peers come and go\<close>

text \<open>\<open>handlePeerLeft\<close> takes the peer out under the lock, and closes it and reports it without.\<close>

definition handlePeerLeft_finish :: "string \<Rightarrow> nat \<Rightarrow> MeshManager \<Rightarrow> MeshManager" where
  "handlePeerLeft_finish peerID a m = emit_event (PeerLeave peerID) (close_remote a m)"

definition remove_peer :: "string \<Rightarrow> MeshManager \<Rightarrow> MeshManager" where
  "remove_peer peerID m = m\<lparr>ms_Peers := gm_delete peerID (ms_Peers m)\<rparr>"

definition handlePeerLeft :: "string \<Rightarrow> MeshManager \<Rightarrow> MeshManager" where
  "handlePeerLeft peerID m =
     (case gm_get (ms_Peers m) peerID of
        None \<Rightarrow> m
      | Some a \<Rightarrow> handlePeerLeft_finish peerID a (remove_peer peerID m))"

definition outgoingTrack :: "MeshManager \<Rightarrow> nat" where
  "outgoingTrack m =
     (if ms_isMuted m then ms_silentAudioTrack m
      else (case ms_localAudioTrack m of None \<Rightarrow> ms_silentAudioTrack m | Some t \<Rightarrow> t))"

text \<open>\<open>createPeerConnection\<close>: a connection and a sender for the outgoing track, or nothing.\<close>

definition createPeerConnection :: "rtc_lib \<Rightarrow> MeshManager \<Rightarrow> (nat \<times> nat) option \<times> MeshManager" where
  "createPeerConnection lib m =
     (case lib_connection lib of
        None \<Rightarrow> (None, m)
      | Some connection \<Rightarrow>
          (case lib_sender lib of
             None \<Rightarrow> (None, log_calls [NewConnection connection, AddTrack connection (outgoingTrack m), ConnectionClose connection] m)
           | Some sender \<Rightarrow> (Some (connection, sender), log_calls [NewConnection connection, AddTrack connection (outgoingTrack m)] m)))"

text \<open>The first half of \<open>handlePeerJoined\<close>: the new peer, not yet registered.\<close>

definition handlePeerJoined_create ::
  "unicode_tables \<Rightarrow> rtc_lib \<Rightarrow> SignalingMessage \<Rightarrow> MeshManager \<Rightarrow> nat option \<times> MeshManager" where
  "handlePeerJoined_create U lib message m =
     (if ms_cancelled m then (None, m)
      else (case ValidatePeerID U (m_PeerID message) of
          Some e \<Rightarrow> (None, notifyError (ProtocolFailure e) m)
        | None \<Rightarrow>
            (case NormalizeUsername U (m_Username message) of
               Inl e \<Rightarrow> (None, notifyError (ProtocolFailure e) m)
             | Inr username \<Rightarrow>
                 if mesh_peer (m_PeerID message) m \<noteq> None then (None, m)
                 else (case createPeerConnection lib m of
                     (None, m1) \<Rightarrow> (None, notifyError (CreatePeer (m_PeerID message)) m1)
                   | (Some (connection, sender), m1) \<Rightarrow>
                       (Some (ms_next m1),
                        (set_remote (ms_next m1) (new_peer (m_PeerID message) username connection (Some sender)) m1)
                          \<lparr>ms_next := Suc (ms_next m1)\<rparr>)))))"

definition registerDataChannel :: "nat \<Rightarrow> nat \<Rightarrow> string \<Rightarrow> MeshManager \<Rightarrow> MeshManager" where
  "registerDataChannel a channel label m =
     (if label \<noteq> ''video-ascii'' then log_calls [ChannelClose channel] m
      else (case SetDataChannel channel (ms_heap m a) of
          (False, _) \<Rightarrow> log_calls [ChannelClose channel] m
        | (True, p) \<Rightarrow> set_remote a p m))"

definition sendSDP :: "rtc_lib \<Rightarrow> MessageType \<Rightarrow> string \<Rightarrow> string \<Rightarrow> MeshManager \<Rightarrow> MeshManager" where
  "sendSDP lib kind sdp peerID m =
     (case MarshalPayload (Some (marshal_sdp \<lparr>sdp_SDP = sdp, sdp_Type = kind\<rparr>)) of
        Inl e \<Rightarrow> notifyError (ProtocolFailure e) m
      | Inr payload \<Rightarrow>
          let message = (NewMessage kind)\<lparr>m_PeerID := peerID, m_Payload := payload\<rparr>;
              m1 = log_calls [SendSignal message] m
          in if lib_send lib then m1 else notifyError (SendFailure kind peerID) m1)"

text \<open>The second half: registration under the lock, the callback, and, on the side with the smaller
  identifier, the offer. \<open>handlePeerJoined_offer\<close> says whether the peer is to be removed again.\<close>

definition handlePeerJoined_register :: "nat \<Rightarrow> MeshManager \<Rightarrow> bool \<times> MeshManager" where
  "handlePeerJoined_register a m =
     (let peerID = rp_PeerID (ms_heap m a)
      in if gm_get (ms_Peers m) peerID \<noteq> None \<or> ms_cancelled m then (False, close_remote a m)
         else (True, m\<lparr>ms_Peers := gm_set peerID a (ms_Peers m)\<rparr>))"

definition handlePeerJoined_announce :: "nat \<Rightarrow> MeshManager \<Rightarrow> MeshManager" where
  "handlePeerJoined_announce a m = emit_event (PeerJoin (rp_PeerID (ms_heap m a)) (rp_Username (ms_heap m a))) m"

definition handlePeerJoined_offer :: "rtc_lib \<Rightarrow> nat \<Rightarrow> MeshManager \<Rightarrow> bool \<times> MeshManager" where
  "handlePeerJoined_offer lib a m =
     (let peerID = rp_PeerID (ms_heap m a)
      in if go_less peerID (ms_LocalPeerID m) then (False, m)
         else (case lib_channel lib of
             None \<Rightarrow> (True, notifyError (VideoChannel peerID) m)
           | Some channel \<Rightarrow>
               let m1 = registerDataChannel a channel ''video-ascii'' m
               in (False,
                   case lib_offer lib of
                     None \<Rightarrow> notifyError (CreateOffer peerID) m1
                   | Some sdp \<Rightarrow>
                       if \<not> lib_local lib then notifyError (LocalOffer peerID) m1
                       else sendSDP lib MsgOffer sdp peerID m1)))"

definition handlePeerJoined_commit :: "rtc_lib \<Rightarrow> nat \<Rightarrow> MeshManager \<Rightarrow> MeshManager" where
  "handlePeerJoined_commit lib a m =
     (case handlePeerJoined_register a m of
        (False, m1) \<Rightarrow> m1
      | (True, m1) \<Rightarrow>
          (case handlePeerJoined_offer lib a (handlePeerJoined_announce a m1) of
             (False, m2) \<Rightarrow> m2
           | (True, m2) \<Rightarrow> handlePeerLeft (rp_PeerID (ms_heap m2 a)) m2))"

definition handlePeerJoined :: "unicode_tables \<Rightarrow> rtc_lib \<Rightarrow> SignalingMessage \<Rightarrow> MeshManager \<Rightarrow> MeshManager" where
  "handlePeerJoined U lib message m =
     (case handlePeerJoined_create U lib message m of
        (None, m1) \<Rightarrow> m1
      | (Some a, m1) \<Rightarrow> handlePeerJoined_commit lib a m1)"

section \<open>Signaling\<close>

text \<open>\<open>handleOffer\<close> and \<open>handleAnswer\<close> hand the description to the library without a lock: each is a first
  half, which ends with the library's verdict, and a second half with the peer and its connection.\<close>

definition receiveDescription ::
  "MessageType \<Rightarrow> rtc_lib \<Rightarrow> SignalingMessage \<Rightarrow> MeshManager \<Rightarrow> (nat \<times> nat) option \<times> MeshManager" where
  "receiveDescription kind lib message m =
     (let peerID = m_PeerID message
      in case mesh_peer peerID m of
           None \<Rightarrow> (None, notifyError (UnknownPeer kind peerID) m)
         | Some a \<Rightarrow>
             (case DecodePayload sdp_fields zero_sdp (m_Payload message) of
                Inl _ \<Rightarrow> (None, notifyError (InvalidPayload kind peerID) m)
              | Inr payload \<Rightarrow>
                  if sdp_Type payload \<noteq> kind \<or> sdp_SDP payload = []
                  then (None, notifyError (InvalidPayload kind peerID) m)
                  else (case SetRemoteDescription_begin (lib_remote lib) kind (sdp_SDP payload) (ms_heap m a) of
                      (Inl e, calls) \<Rightarrow> (None, notifyError (RemoteFailure kind peerID e) (log_calls calls m))
                    | (Inr connection, calls) \<Rightarrow> (Some (a, connection), log_calls calls m))))"

definition handleOffer_begin :: "rtc_lib \<Rightarrow> SignalingMessage \<Rightarrow> MeshManager \<Rightarrow> (nat \<times> nat) option \<times> MeshManager" where
  "handleOffer_begin = receiveDescription MsgOffer"

definition handleAnswer_begin :: "rtc_lib \<Rightarrow> SignalingMessage \<Rightarrow> MeshManager \<Rightarrow> (nat \<times> nat) option \<times> MeshManager" where
  "handleAnswer_begin = receiveDescription MsgAnswer"

definition handleOffer_finish :: "rtc_lib \<Rightarrow> string \<Rightarrow> nat \<times> nat \<Rightarrow> MeshManager \<Rightarrow> MeshManager" where
  "handleOffer_finish lib peerID x m =
     (case SetRemoteDescription_finish (lib_candidate lib) (snd x) (ms_heap m (fst x)) of
        (err, calls, p) \<Rightarrow>
          let m1 = log_calls calls (set_remote (fst x) p m)
          in (case err of
                Some e \<Rightarrow> notifyError (RemoteFailure MsgOffer peerID e) m1
              | None \<Rightarrow>
                  (case lib_answer lib of
                     None \<Rightarrow> notifyError (CreateAnswer peerID) m1
                   | Some sdp \<Rightarrow>
                       if \<not> lib_local lib then notifyError (LocalAnswer peerID) m1
                       else sendSDP lib MsgAnswer sdp peerID m1)))"

definition handleAnswer_finish :: "rtc_lib \<Rightarrow> string \<Rightarrow> nat \<times> nat \<Rightarrow> MeshManager \<Rightarrow> MeshManager" where
  "handleAnswer_finish lib peerID x m =
     (case SetRemoteDescription_finish (lib_candidate lib) (snd x) (ms_heap m (fst x)) of
        (err, calls, p) \<Rightarrow>
          let m1 = log_calls calls (set_remote (fst x) p m)
          in (case err of Some e \<Rightarrow> notifyError (RemoteFailure MsgAnswer peerID e) m1 | None \<Rightarrow> m1))"

definition handleOffer :: "rtc_lib \<Rightarrow> SignalingMessage \<Rightarrow> MeshManager \<Rightarrow> MeshManager" where
  "handleOffer lib message m =
     (case handleOffer_begin lib message m of
        (None, m1) \<Rightarrow> m1
      | (Some x, m1) \<Rightarrow> handleOffer_finish lib (m_PeerID message) x m1)"

definition handleAnswer :: "rtc_lib \<Rightarrow> SignalingMessage \<Rightarrow> MeshManager \<Rightarrow> MeshManager" where
  "handleAnswer lib message m =
     (case handleAnswer_begin lib message m of
        (None, m1) \<Rightarrow> m1
      | (Some x, m1) \<Rightarrow> handleAnswer_finish lib (m_PeerID message) x m1)"

definition handleICECandidate :: "rtc_lib \<Rightarrow> SignalingMessage \<Rightarrow> MeshManager \<Rightarrow> MeshManager" where
  "handleICECandidate lib message m =
     (let peerID = m_PeerID message
      in case mesh_peer peerID m of
           None \<Rightarrow> notifyError (UnknownPeer MsgICECandidate peerID) m
         | Some a \<Rightarrow>
             (case DecodePayload candidate_fields zero_candidate (m_Payload message) of
                Inl _ \<Rightarrow> notifyError (InvalidPayload MsgICECandidate peerID) m
              | Inr payload \<Rightarrow>
                  if cand_Candidate payload = [] then notifyError (InvalidPayload MsgICECandidate peerID) m
                  else (case AddICECandidate (lib_candidate lib payload) payload (ms_heap m a) of
                      (err, calls, p) \<Rightarrow>
                        let m1 = log_calls calls (set_remote a p m)
                        in (case err of Some e \<Rightarrow> notifyError (RemoteFailure MsgICECandidate peerID e) m1 | None \<Rightarrow> m1))))"

definition handleError :: "SignalingMessage \<Rightarrow> MeshManager \<Rightarrow> MeshManager" where
  "handleError message m =
     (case DecodePayload error_fields zero_error (m_Payload message) of
        Inl e \<Rightarrow> notifyError (ProtocolFailure e) m
      | Inr failure \<Rightarrow> notifyError (SignalingFailure (ep_Code failure) (ep_Message failure)) m)"

text \<open>Messages other than the one that announces a peer are handled in one go.\<close>

definition handleOther :: "rtc_lib \<Rightarrow> SignalingMessage \<Rightarrow> MeshManager \<Rightarrow> MeshManager" where
  "handleOther lib message m =
     (if m_Type message = MsgPeerLeft then handlePeerLeft (m_PeerID message) m
      else if m_Type message = MsgOffer then handleOffer lib message m
      else if m_Type message = MsgAnswer then handleAnswer lib message m
      else if m_Type message = MsgICECandidate then handleICECandidate lib message m
      else if m_Type message = MsgError then handleError message m
      else notifyError (UnexpectedMessage (m_Type message)) m)"

definition handleSignalingMessage :: "unicode_tables \<Rightarrow> rtc_lib \<Rightarrow> SignalingMessage \<Rightarrow> MeshManager \<Rightarrow> MeshManager" where
  "handleSignalingMessage U lib message m =
     (if m_Type message = MsgPeerJoined then handlePeerJoined U lib message m else handleOther lib message m)"

text \<open>What the loop reads: a message or a closed channel, an error or a closed channel, or that the
  context is done. The flags say which channels are still read.\<close>

datatype loop_input = LoopDone | LoopError bool | LoopErrorsClosed | LoopMessage SignalingMessage | LoopMessagesClosed

fun readSignalingLoop ::
  "unicode_tables \<Rightarrow> (rtc_lib \<times> loop_input) list \<Rightarrow> bool \<Rightarrow> bool \<Rightarrow> MeshManager \<Rightarrow> MeshManager" where
  "readSignalingLoop U [] messages errors0 m = m"
| "readSignalingLoop U ((lib, x) # xs) messages errors0 m =
     (if \<not> messages \<and> \<not> errors0 then m
      else (case x of
          LoopDone \<Rightarrow> m
        | LoopError present \<Rightarrow>
            readSignalingLoop U xs messages errors0 (if present then notifyError TransportFailure m else m)
        | LoopErrorsClosed \<Rightarrow> readSignalingLoop U xs messages False m
        | LoopMessage message \<Rightarrow> readSignalingLoop U xs messages errors0 (handleSignalingMessage U lib message m)
        | LoopMessagesClosed \<Rightarrow>
            readSignalingLoop U xs False errors0 (if \<not> ms_cancelled m then notifyError ConnectionClosed m else m)))"

section \<open>Start, stop and media\<close>

fun joinInitial :: "unicode_tables \<Rightarrow> (PeerInfo \<Rightarrow> rtc_lib) \<Rightarrow> PeerInfo list \<Rightarrow> MeshManager \<Rightarrow> MeshManager" where
  "joinInitial U lib [] m = m"
| "joinInitial U lib (peer # peers) m =
     joinInitial U lib peers
       (handlePeerJoined U (lib peer)
         ((NewMessage MsgPeerJoined)\<lparr>m_PeerID := pi_PeerID peer, m_Username := pi_Username peer\<rparr>) m)"

definition Start :: "unicode_tables \<Rightarrow> (PeerInfo \<Rightarrow> rtc_lib) \<Rightarrow> MeshManager \<Rightarrow> MeshManager" where
  "Start U lib m =
     (if ms_started m then m
      else (joinInitial U lib (ms_initialPeers m) (m\<lparr>ms_started := True\<rparr>))\<lparr>ms_initialPeers := []\<rparr>)"

fun close_all :: "nat list \<Rightarrow> MeshManager \<Rightarrow> MeshManager" where
  "close_all [] m = m"
| "close_all (a # as) m = close_all as (close_remote a m)"

text \<open>\<open>Stop\<close>: first the context is cancelled and the signaling connection closed, then the peers are taken out under the lock and closed.\<close>

definition Stop_cancel :: "MeshManager \<Rightarrow> MeshManager" where
  "Stop_cancel m = log_calls [SignalerClose] (m\<lparr>ms_cancelled := True\<rparr>)"

definition Stop_take :: "MeshManager \<Rightarrow> nat list \<times> MeshManager" where
  "Stop_take m = (map snd (ms_Peers m), m\<lparr>ms_Peers := gm_empty, ms_stopped := True\<rparr>)"

definition Stop :: "MeshManager \<Rightarrow> MeshManager" where
  "Stop m =
     (if ms_stopped m then m
      else (case Stop_take (Stop_cancel m) of (peers, m1) \<Rightarrow> close_all peers m1))"

text \<open>The callback of \<open>RLockPeers\<close> gets a copy of the map.\<close>

definition RLockPeers :: "((string, nat) gomap \<Rightarrow> 'r) \<Rightarrow> MeshManager \<Rightarrow> 'r" where
  "RLockPeers callback m = callback (ms_Peers m)"

definition SetLocalAudioTrack :: "nat option \<Rightarrow> MeshManager \<Rightarrow> MeshManager" where
  "SetLocalAudioTrack track m = m\<lparr>ms_localAudioTrack := track\<rparr>"

text \<open>The loop over the peers of \<open>SetMuteAudio\<close>; \<open>replaceOK\<close> is the library's answer.\<close>

fun replaceTracks :: "(nat \<Rightarrow> bool) \<Rightarrow> nat \<Rightarrow> nat list \<Rightarrow> MeshManager \<Rightarrow> MeshManager" where
  "replaceTracks replaceOK track [] m = m"
| "replaceTracks replaceOK track (a # as) m =
     replaceTracks replaceOK track as
       (case rp_AudioSender (ms_heap m a) of
          None \<Rightarrow> m
        | Some sender \<Rightarrow>
            let m1 = log_calls [ReplaceTrack sender track] m
            in if replaceOK sender then m1 else notifyError (AudioTrackFailure (rp_PeerID (ms_heap m a))) m1)"

text \<open>\<open>SetMuteAudio\<close>: the flag is set and the peers are listed under the lock; the loop runs without it.\<close>

definition SetMuteAudio_begin :: "bool \<Rightarrow> MeshManager \<Rightarrow> (nat \<times> nat list) \<times> MeshManager" where
  "SetMuteAudio_begin muted m =
     (let m1 = m\<lparr>ms_isMuted := muted\<rparr>
      in ((outgoingTrack m1, map snd (ms_Peers m1)), m1))"

definition SetMuteAudio :: "(nat \<Rightarrow> bool) \<Rightarrow> bool \<Rightarrow> MeshManager \<Rightarrow> MeshManager" where
  "SetMuteAudio replaceOK muted m =
     (case SetMuteAudio_begin muted m of ((track, peers), m1) \<Rightarrow> replaceTracks replaceOK track peers m1)"

definition maxBufferedAmount :: int where
  "maxBufferedAmount = 64 * 1024"

text \<open>Sending a frame: for every channel, whether it is open and how much it has buffered.\<close>

definition sendFrame :: "(nat \<Rightarrow> bool \<times> int) \<Rightarrow> string \<Rightarrow> MeshManager \<Rightarrow> nat \<Rightarrow> rtc_call list" where
  "sendFrame channels tagged m a =
     (case rp_dataChannel (ms_heap m a) of
        None \<Rightarrow> []
      | Some channel \<Rightarrow>
          if \<not> fst (channels channel) then []
          else if maxBufferedAmount < snd (channels channel) then []
          else [SendText channel tagged])"

definition BroadcastFrame :: "(nat \<Rightarrow> bool \<times> int) \<Rightarrow> string \<Rightarrow> MeshManager \<Rightarrow> MeshManager" where
  "BroadcastFrame channels frame m =
     (case nextFrame frame (ms_frameSeq m) of
        (None, _) \<Rightarrow> m
      | (Some tagged, sequence) \<Rightarrow>
          log_calls (concat (map (sendFrame channels tagged m) (map snd (ms_Peers m)))) (m\<lparr>ms_frameSeq := sequence\<rparr>))"

definition onChannelMessage :: "nat \<Rightarrow> bool \<Rightarrow> bool \<Rightarrow> string \<Rightarrow> MeshManager \<Rightarrow> MeshManager" where
  "onChannelMessage a isString limiterAllows raw m =
     (case onMessage isString limiterAllows raw (ms_heap m a) of
        (None, p) \<Rightarrow> set_remote a p m
      | (Some frame, p) \<Rightarrow> emit_event (FrameShown (rp_PeerID p) frame) (set_remote a p m))"

text \<open>An audio track of a peer arrives; \<open>player\<close> is the new player, if one could be made.\<close>

definition onTrack :: "string \<Rightarrow> nat option \<Rightarrow> MeshManager \<Rightarrow> MeshManager" where
  "onTrack peerID player m =
     (case player of
        None \<Rightarrow> notifyError (PlayerFailure peerID) m
      | Some pl \<Rightarrow>
          (case mesh_peer peerID m of
             None \<Rightarrow> log_calls [PlayerClose pl] m
           | Some a \<Rightarrow>
               (case SetPlayer pl (ms_heap m a) of
                  ((_, False), _) \<Rightarrow> log_calls [PlayerClose pl] m
                | ((None, True), p) \<Rightarrow> set_remote a p m
                | ((Some previous, True), p) \<Rightarrow> log_calls [PlayerClose previous] (set_remote a p m))))"

text \<open>The goroutine that plays the track ends when the track does.\<close>

definition playTrackEnd :: "nat \<Rightarrow> nat \<Rightarrow> MeshManager \<Rightarrow> MeshManager" where
  "playTrackEnd a player m = log_calls [PlayerClose player] (set_remote a (ClearPlayer player (ms_heap m a)) m)"

definition onICECandidate :: "rtc_lib \<Rightarrow> string \<Rightarrow> ICECandidatePayload option \<Rightarrow> MeshManager \<Rightarrow> MeshManager" where
  "onICECandidate lib peerID candidate m =
     (case candidate of
        None \<Rightarrow> m
      | Some c \<Rightarrow>
          (case MarshalPayload (Some (marshal_candidate c)) of
             Inl e \<Rightarrow> notifyError (ProtocolFailure e) m
           | Inr payload \<Rightarrow>
               let message = (NewMessage MsgICECandidate)\<lparr>m_PeerID := peerID, m_Payload := payload\<rparr>;
                   m1 = log_calls [SendSignal message] m
               in if lib_send lib then m1 else notifyError (SendFailure MsgICECandidate peerID) m1))"

datatype connection_state = Connected | Disconnected | Failed | Closed | OtherState

text \<open>The state of a connection changes; a disconnected peer is looked at again after the grace
  period, unless the context ends first, with the state the connection then has.\<close>

definition onConnectionStateChange :: "string \<Rightarrow> connection_state \<Rightarrow> MeshManager \<Rightarrow> MeshManager" where
  "onConnectionStateChange peerID state m =
     (if state = Failed \<or> state = Closed then handlePeerLeft peerID m else m)"

definition removeIfStillDisconnected :: "bool \<Rightarrow> string \<Rightarrow> connection_state \<Rightarrow> MeshManager \<Rightarrow> MeshManager" where
  "removeIfStillDisconnected timerFirst peerID state m =
     (if \<not> timerFirst then m
      else if state = Disconnected \<or> state = Failed then handlePeerLeft peerID m else m)"

end
