(* ===== verification/Capture.thy ===== *)
theory Capture
  imports Prelude "HOL-Library.Word"
begin

text \<open>
  The camera and the microphone (\<^verbatim>\<open>src/internal/capture\<close>). Opening a device blocks in the media
  library without holding the lock, so \<open>Start\<close> is several steps, between which \<open>Close\<close> and the end
  of the stream can happen; a generation counter tells \<open>Start\<close> that it was cancelled. Tracks
  are numbered in the order in which the library hands them out; the world records which are open.
\<close>

section \<open>What the media library answers\<close>

text \<open>An error, or a number of tracks, with the position of the first one of the wanted kind and whether
  its type is supported.\<close>

datatype media = MediaError | MediaTracks nat "nat option" bool

datatype capture_error = AlreadyRunning | ContextDone | MediaFailure | NoTracks | UnsupportedTrack | Canceled

datatype start_pc = NotStarting | Opening "64 word" | Opened "64 word" nat | Ending

section \<open>The camera\<close>

record camera =
  ca_session :: "nat option"
  ca_starting :: bool
  ca_generation :: "64 word"
  ca_pc :: start_pc
  ca_open :: "nat list"
  ca_next :: nat
  ca_closing :: "nat list"
  ca_readers :: "nat list"
  ca_clearing :: "nat list"
  ca_error :: "capture_error option"

definition NewCamera :: camera where
  "NewCamera = \<lparr>ca_session = None, ca_starting = False, ca_generation = 0, ca_pc = NotStarting, ca_open = [], ca_next = 0,
     ca_closing = [], ca_readers = [], ca_clearing = [], ca_error = None\<rparr>"

definition close_tracks :: "nat list \<Rightarrow> nat list \<Rightarrow> nat list" where
  "close_tracks ts opened = filter (\<lambda>t. t \<notin> set ts) opened"

definition camera_begin :: "camera \<Rightarrow> camera" where
  "camera_begin c =
     (if ca_session c \<noteq> None \<or> ca_starting c then c\<lparr>ca_error := Some AlreadyRunning\<rparr>
      else c\<lparr>ca_starting := True, ca_pc := Opening (ca_generation c), ca_error := None\<rparr>)"

definition camera_fail :: "capture_error \<Rightarrow> camera \<Rightarrow> camera" where
  "camera_fail e c = c\<lparr>ca_pc := Ending, ca_error := Some e\<rparr>"

definition camera_open :: "bool \<Rightarrow> media \<Rightarrow> 64 word \<Rightarrow> camera \<Rightarrow> camera" where
  "camera_open ctxDone answer generation c =
     (if ctxDone then camera_fail ContextDone c
      else (case answer of
          MediaError \<Rightarrow> camera_fail MediaFailure c
        | MediaTracks n video supported \<Rightarrow>
            let tracks = [ca_next c..<ca_next c + n];
                c1 = c\<lparr>ca_open := ca_open c @ tracks, ca_next := ca_next c + n\<rparr>
            in (case video of
                  None \<Rightarrow> camera_fail NoTracks (c1\<lparr>ca_open := close_tracks tracks (ca_open c1)\<rparr>)
                | Some i \<Rightarrow>
                    let track = ca_next c + i
                    in if \<not> supported then camera_fail UnsupportedTrack (c1\<lparr>ca_open := close_tracks tracks (ca_open c1)\<rparr>)
                       else c1\<lparr>ca_open := close_tracks (filter (\<lambda>t. t \<noteq> track) tracks) (ca_open c1),
                               ca_pc := Opened generation track\<rparr>)))"

definition camera_commit :: "bool \<Rightarrow> 64 word \<Rightarrow> nat \<Rightarrow> camera \<Rightarrow> camera" where
  "camera_commit ctxDone generation track c =
     (if ca_generation c \<noteq> generation \<or> ctxDone
      then c\<lparr>ca_pc := Ending, ca_error := Some Canceled, ca_closing := track # ca_closing c\<rparr>
      else c\<lparr>ca_session := Some track, ca_pc := Ending, ca_readers := track # ca_readers c\<rparr>)"

definition camera_end :: "camera \<Rightarrow> camera" where
  "camera_end c = c\<lparr>ca_starting := False, ca_pc := NotStarting\<rparr>"

definition camera_Close :: "camera \<Rightarrow> camera" where
  "camera_Close c =
     c\<lparr>ca_generation := ca_generation c + 1, ca_session := None,
       ca_closing := (case ca_session c of None \<Rightarrow> [] | Some s \<Rightarrow> [s]) @ ca_closing c\<rparr>"

definition session_close :: "nat \<Rightarrow> camera \<Rightarrow> camera" where
  "session_close s c = c\<lparr>ca_open := close_tracks [s] (ca_open c)\<rparr>"

definition clearSession :: "nat \<Rightarrow> camera \<Rightarrow> camera" where
  "clearSession s c = (if ca_session c = Some s then c\<lparr>ca_session := None\<rparr> else c)"

inductive camera_step :: "camera \<Rightarrow> camera \<Rightarrow> bool" where
  cam_begin: "camera_step c (camera_begin c)"
| cam_open: "ca_pc c = Opening g \<Longrightarrow> (\<forall>n i b. answer = MediaTracks n (Some i) b \<longrightarrow> i < n) \<Longrightarrow> camera_step c (camera_open done answer g c)"
| cam_commit: "ca_pc c = Opened g t \<Longrightarrow> camera_step c (camera_commit done g t c)"
| cam_end: "ca_pc c = Ending \<Longrightarrow> camera_step c (camera_end c)"
| cam_close: "camera_step c (camera_Close c)"
| cam_closing: "ca_closing c = xs @ s # ys \<Longrightarrow> camera_step c (session_close s (c\<lparr>ca_closing := xs @ ys\<rparr>))"
| cam_reader: "ca_readers c = xs @ s # ys \<Longrightarrow> camera_step c (session_close s (c\<lparr>ca_readers := xs @ ys, ca_clearing := s # ca_clearing c\<rparr>))"
| cam_clear: "ca_clearing c = xs @ s # ys \<Longrightarrow> camera_step c (clearSession s (c\<lparr>ca_clearing := xs @ ys\<rparr>))"

section \<open>The microphone\<close>

record microphone =
  mi_track :: "nat option"
  mi_starting :: bool
  mi_generation :: "64 word"
  mi_pc :: start_pc
  mi_open :: "nat list"
  mi_next :: nat
  mi_closing :: "nat list"
  mi_error :: "capture_error option"

definition NewMicrophone :: microphone where
  "NewMicrophone = \<lparr>mi_track = None, mi_starting = False, mi_generation = 0, mi_pc = NotStarting, mi_open = [], mi_next = 0,
     mi_closing = [], mi_error = None\<rparr>"

definition mic_begin :: "microphone \<Rightarrow> microphone" where
  "mic_begin m =
     (if mi_track m \<noteq> None \<or> mi_starting m then m\<lparr>mi_error := Some AlreadyRunning\<rparr>
      else m\<lparr>mi_starting := True, mi_pc := Opening (mi_generation m), mi_error := None\<rparr>)"

definition mic_fail :: "capture_error \<Rightarrow> microphone \<Rightarrow> microphone" where
  "mic_fail e m = m\<lparr>mi_pc := Ending, mi_error := Some e\<rparr>"

definition mic_open :: "bool \<Rightarrow> media \<Rightarrow> 64 word \<Rightarrow> microphone \<Rightarrow> microphone" where
  "mic_open ctxDone answer generation m =
     (if ctxDone then mic_fail ContextDone m
      else (case answer of
          MediaError \<Rightarrow> mic_fail MediaFailure m
        | MediaTracks n audio supported \<Rightarrow>
            let tracks = [mi_next m..<mi_next m + n];
                m1 = m\<lparr>mi_open := mi_open m @ tracks, mi_next := mi_next m + n\<rparr>
            in (case audio of
                  None \<Rightarrow> mic_fail NoTracks (m1\<lparr>mi_open := close_tracks tracks (mi_open m1)\<rparr>)
                | Some i \<Rightarrow>
                    let track = mi_next m + i
                    in if \<not> supported then mic_fail UnsupportedTrack (m1\<lparr>mi_open := close_tracks tracks (mi_open m1)\<rparr>)
                       else m1\<lparr>mi_open := close_tracks (filter (\<lambda>t. t \<noteq> track) tracks) (mi_open m1),
                               mi_pc := Opened generation track\<rparr>)))"

definition mic_commit :: "bool \<Rightarrow> 64 word \<Rightarrow> nat \<Rightarrow> microphone \<Rightarrow> microphone" where
  "mic_commit ctxDone generation track m =
     (if mi_generation m \<noteq> generation \<or> ctxDone
      then m\<lparr>mi_pc := Ending, mi_error := Some Canceled, mi_closing := track # mi_closing m\<rparr>
      else m\<lparr>mi_track := Some track, mi_pc := Ending\<rparr>)"

definition mic_end :: "microphone \<Rightarrow> microphone" where
  "mic_end m = m\<lparr>mi_starting := False, mi_pc := NotStarting\<rparr>"

definition mic_Close :: "microphone \<Rightarrow> microphone" where
  "mic_Close m =
     m\<lparr>mi_generation := mi_generation m + 1, mi_track := None,
       mi_closing := (case mi_track m of None \<Rightarrow> [] | Some t \<Rightarrow> [t]) @ mi_closing m\<rparr>"

definition track_close :: "nat \<Rightarrow> microphone \<Rightarrow> microphone" where
  "track_close t m = m\<lparr>mi_open := close_tracks [t] (mi_open m)\<rparr>"

inductive mic_step :: "microphone \<Rightarrow> microphone \<Rightarrow> bool" where
  mic_step_begin: "mic_step m (mic_begin m)"
| mic_step_open: "mi_pc m = Opening g \<Longrightarrow> (\<forall>n i b. answer = MediaTracks n (Some i) b \<longrightarrow> i < n) \<Longrightarrow> mic_step m (mic_open done answer g m)"
| mic_step_commit: "mi_pc m = Opened g t \<Longrightarrow> mic_step m (mic_commit done g t m)"
| mic_step_end: "mi_pc m = Ending \<Longrightarrow> mic_step m (mic_end m)"
| mic_step_close: "mic_step m (mic_Close m)"
| mic_step_closing: "mi_closing m = xs @ t # ys \<Longrightarrow> mic_step m (track_close t (m\<lparr>mi_closing := xs @ ys\<rparr>))"

section \<open>The contract of a capture device\<close>

text \<open>A device is busy while a start or a close is under way, \<open>held\<close> is the track it keeps and
  \<open>opened\<close> are the tracks that are open in the media library.\<close>

locale capture_device = transition_invariant init step inv
  for init :: "'s \<Rightarrow> bool" and step :: "'s \<Rightarrow> 's \<Rightarrow> bool" and inv :: "'s \<Rightarrow> bool" +
  fixes busy :: "'s \<Rightarrow> bool" and held :: "'s \<Rightarrow> nat option" and opened :: "'s \<Rightarrow> nat list"
  assumes only_held: "inv s \<Longrightarrow> \<not> busy s \<Longrightarrow> set (opened s) \<subseteq> set_option (held s)"
begin

lemma off_when_closed: "init s \<Longrightarrow> step\<^sup>*\<^sup>* s t \<Longrightarrow> \<not> busy t \<Longrightarrow> held t = None \<Longrightarrow> opened t = []"
  using only_held [OF reach_inv] by fastforce

lemma at_most_one: "init s \<Longrightarrow> step\<^sup>*\<^sup>* s t \<Longrightarrow> \<not> busy t \<Longrightarrow> a \<in> set (opened t) \<Longrightarrow> held t = Some a"
  using only_held [OF reach_inv] by (cases "held t") fastforce+

end

section \<open>The devices keep the contract\<close>

definition camera_inv :: "camera \<Rightarrow> bool" where
  "camera_inv c \<longleftrightarrow>
     (\<forall>t \<in> set (ca_open c). (\<exists>g. ca_pc c = Opened g t) \<or> ca_session c = Some t \<or> t \<in> set (ca_closing c)) \<and>
     (ca_starting c \<longleftrightarrow> ca_pc c \<noteq> NotStarting) \<and> (ca_pc c \<noteq> NotStarting \<and> ca_pc c \<noteq> Ending \<longrightarrow> ca_session c = None) \<and>
     (\<forall>t \<in> set (ca_clearing c). t < ca_next c \<and> t \<notin> set (ca_open c)) \<and> (\<forall>t \<in> set (ca_readers c). t < ca_next c) \<and>
     (\<forall>g t. ca_pc c = Opened g t \<longrightarrow> t < ca_next c)"

definition mic_inv :: "microphone \<Rightarrow> bool" where
  "mic_inv m \<longleftrightarrow>
     (\<forall>t \<in> set (mi_open m). (\<exists>g. mi_pc m = Opened g t) \<or> mi_track m = Some t \<or> t \<in> set (mi_closing m)) \<and>
     (mi_starting m \<longleftrightarrow> mi_pc m \<noteq> NotStarting) \<and> (mi_pc m \<noteq> NotStarting \<and> mi_pc m \<noteq> Ending \<longrightarrow> mi_track m = None)"

lemma set_close_tracks [simp]: "set (close_tracks ts opened) = set opened - set ts"
  by (auto simp: close_tracks_def)

lemma camera_step_inv: "camera_step c d \<Longrightarrow> camera_inv c \<Longrightarrow> camera_inv d"
proof (induction rule: camera_step.induct)
  case (cam_open c g answer ctxDone)
  then show ?case
    by (cases answer) (auto simp: camera_inv_def camera_open_def camera_fail_def Let_def split: option.split)
next
  case (cam_clear c xs s ys)
  then show ?case by (auto simp: camera_inv_def clearSession_def)
qed (auto simp: camera_inv_def camera_begin_def camera_commit_def camera_end_def camera_Close_def session_close_def split: option.splits)

lemma mic_step_inv: "mic_step m n \<Longrightarrow> mic_inv m \<Longrightarrow> mic_inv n"
proof (induction rule: mic_step.induct)
  case (mic_step_open m g answer ctxDone)
  then show ?case
    by (cases answer) (auto simp: mic_inv_def mic_open_def mic_fail_def Let_def split: option.split)
qed (auto simp: mic_inv_def mic_begin_def mic_commit_def mic_end_def mic_Close_def track_close_def split: option.splits)

interpretation cam: capture_device "\<lambda>c. c = NewCamera" camera_step camera_inv
  "\<lambda>c. ca_starting c \<or> ca_closing c \<noteq> []" ca_session ca_open
proof unfold_locales
  show "camera_inv d" if "camera_inv c" "camera_step c d" for c d using that by (blast intro: camera_step_inv)
qed (auto simp: camera_inv_def NewCamera_def)

interpretation mic: capture_device "\<lambda>m. m = NewMicrophone" mic_step mic_inv
  "\<lambda>m. mi_starting m \<or> mi_closing m \<noteq> []" mi_track mi_open
proof unfold_locales
  show "mic_inv n" if "mic_inv m" "mic_step m n" for m n using that by (blast intro: mic_step_inv)
qed (auto simp: mic_inv_def NewMicrophone_def)

section \<open>Builds without cgo\<close>

text \<open>The devices are stubs: starting one always fails.\<close>

definition stub_camera_Start :: "string + nat" where
  "stub_camera_Start = Inl ''camera capture is disabled because TermCall was built without CGO''"

definition stub_microphone_Start :: "string + nat" where
  "stub_microphone_Start =
     Inl ''audio capture is disabled because the application was built without CGO (e.g. cross-compiled for Windows)''"

section \<open>Properties\<close>

text \<open>C23: A device that is off is off. However starting, closing and the end of the stream
  interleave, when no start and no close is under way and the camera (the microphone) holds no
  session, every track that the media library ever opened for it has been closed.\<close>

theorem devices_off:
  assumes "camera_step\<^sup>*\<^sup>* NewCamera c" and "\<not> ca_starting c" and "ca_closing c = []" and "ca_session c = None"
    and "mic_step\<^sup>*\<^sup>* NewMicrophone m" and "\<not> mi_starting m" and "mi_closing m = []" and "mi_track m = None"
  shows "ca_open c = [] \<and> mi_open m = []"
  using cam.off_when_closed [OF refl assms(1)] mic.off_when_closed [OF refl assms(5)] assms by simp

text \<open>The user closes the camera while it is being opened.\<close>

definition capture_camera :: camera where
  "capture_camera = camera_end (session_close 0 ((camera_commit False 0 0 (camera_Close (camera_open False (MediaTracks 2 (Some 0) True) 0
     (camera_begin NewCamera))))\<lparr>ca_closing := []\<rparr>))"

lemma capture_camera_run: "camera_step\<^sup>*\<^sup>* NewCamera capture_camera"
proof -
  let ?c1 = "camera_begin NewCamera" let ?c2 = "camera_open False (MediaTracks 2 (Some 0) True) 0 ?c1"
  let ?c3 = "camera_Close ?c2" let ?c4 = "camera_commit False 0 0 ?c3" let ?c5 = "session_close 0 (?c4\<lparr>ca_closing := []\<rparr>)"
  have pcs: "ca_pc ?c1 = Opening 0" "ca_pc ?c3 = Opened 0 0" "ca_closing ?c4 = [] @ 0 # []" "ca_pc ?c5 = Ending" by code_simp+
  have "camera_step NewCamera ?c1" by (rule cam_begin)
  moreover have "camera_step ?c1 ?c2" by (rule cam_open [OF pcs(1)]) simp
  moreover have "camera_step ?c2 ?c3" by (rule cam_close)
  moreover have "camera_step ?c3 ?c4" by (rule cam_commit [OF pcs(2)])
  moreover have "camera_step ?c4 ?c5" using cam_closing [OF pcs(3)] by simp
  moreover have "camera_step ?c5 capture_camera" unfolding capture_camera_def by (rule cam_end [OF pcs(4)])
  ultimately show ?thesis by (meson r_into_rtranclp rtranclp.rtrancl_into_rtrancl)
qed

theorem devices_off_witness: "ca_open capture_camera = [] \<and> mi_open (mic_Close NewMicrophone) = []"
proof (rule devices_off)
  show "camera_step\<^sup>*\<^sup>* NewCamera capture_camera" by (rule capture_camera_run)
  show "mic_step\<^sup>*\<^sup>* NewMicrophone (mic_Close NewMicrophone)" by (rule r_into_rtranclp) (rule mic_step_close)
  show "\<not> ca_starting capture_camera" "ca_closing capture_camera = []" "ca_session capture_camera = None"
    "\<not> mi_starting (mic_Close NewMicrophone)" "mi_closing (mic_Close NewMicrophone) = []" "mi_track (mic_Close NewMicrophone) = None"
    by code_simp+
qed

text \<open>Closing wins over a start that is under way: a camera that is closed, any number of
  times below the counter's range, between the beginning of a start and its registration does not
  come on; its track is handed to be closed and the start reports that it was cancelled.\<close>

theorem close_cancels_start:
  assumes "ca_generation c = g" and "0 < k" and "k < 2 ^ 64" and "ca_session c = None"
  shows "ca_session (camera_commit ctxDone g t ((camera_Close ^^ k) c)) = None \<and>
    t \<in> set (ca_closing (camera_commit ctxDone g t ((camera_Close ^^ k) c))) \<and>
    ca_error (camera_commit ctxDone g t ((camera_Close ^^ k) c)) = Some Canceled"
proof -
  have closes: "ca_generation ((camera_Close ^^ n) c) = g + of_nat n \<and> ca_session ((camera_Close ^^ n) c) = None" for n
    by (induction n) (simp_all add: assms(1,4) camera_Close_def algebra_simps)
  have "g + of_nat k \<noteq> g"
  proof
    assume "g + of_nat k = g"
    then have "(of_nat k :: 64 word) = 0" by simp
    then have "2 ^ 64 dvd k" by (simp add: word_of_nat_eq_0_iff)
    with assms(2,3) show False using nat_dvd_not_less by blast
  qed
  with closes [of k] show ?thesis by (simp add: camera_commit_def)
qed

theorem close_cancels_start_witness:
  "ca_session (camera_commit False 0 0 ((camera_Close ^^ 1) (camera_open False (MediaTracks 1 (Some 0) True) 0 (camera_begin NewCamera)))) = None"
proof -
  let ?c = "camera_open False (MediaTracks 1 (Some 0) True) 0 (camera_begin NewCamera)"
  have "ca_generation ?c = 0" "ca_session ?c = None" by code_simp+
  then show ?thesis using close_cancels_start [of ?c 0 1 False 0] by simp
qed

end
