(* ===== verification/Call_Facts.thy ===== *)
theory Call_Facts
  imports Call_Model Mesh Capture
begin

text \<open>
  The call screen over any sequence of messages: who is shown, that whatever is shown is
  safe for the terminal, and that the microphone and camera indicators tell the truth about what
  the mesh was told.
\<close>

section \<open>Runs\<close>

fun call_run :: "unicode_tables \<Rightarrow> call_msg list \<Rightarrow> CallModel \<Rightarrow> CallModel \<times> call_effect list" where
  "call_run U [] m = (m, [])"
| "call_run U (x # xs) m =
     (case call_Update U x m of (m1, effects, _) \<Rightarrow>
        (case call_run U xs m1 of (m2, effects2) \<Rightarrow> (m2, effects @ effects2)))"

definition msg_ok :: "call_msg \<Rightarrow> bool" where
  "msg_ok x \<longleftrightarrow> (case x of LocalFrameMsg (Some img) _ _ \<Rightarrow> image_ok img | _ \<Rightarrow> True)"

section \<open>The roster\<close>

definition roster_inv :: "CallModel \<Rightarrow> bool" where
  "roster_inv m \<longleftrightarrow>
     distinct (cm_peers m) \<and>
     (\<forall>k. k \<in> set (cm_peers m) \<longleftrightarrow> gm_get (cm_peerNames m) k \<noteq> None) \<and>
     (\<forall>k g. gm_get (cm_peerCells m) k = Some g \<longrightarrow> (\<exists>mode w h. gm_get (cm_peerModes m) k = Some mode \<and> wf_grid mode w h g)) \<and>
     (\<forall>k d. gm_get (cm_peerDecoders m) k = Some d \<longrightarrow> wf_decoder d) \<and>
     (\<forall>k. gm_get (cm_removedPeers m) k = Some True \<longrightarrow> gm_get (cm_peerNames m) k = None)"

lemma roster_invD:
  assumes "roster_inv m"
  shows roster_distinct: "distinct (cm_peers m)"
    and roster_names: "k \<in> set (cm_peers m) \<longleftrightarrow> gm_get (cm_peerNames m) k \<noteq> None"
    and roster_cells: "gm_get (cm_peerCells m) k = Some g \<Longrightarrow> \<exists>mode w h. gm_get (cm_peerModes m) k = Some mode \<and> wf_grid mode w h g"
    and roster_decoders: "gm_get (cm_peerDecoders m) k = Some d \<Longrightarrow> wf_decoder d"
    and roster_removed: "gm_get (cm_removedPeers m) k = Some True \<Longrightarrow> gm_get (cm_peerNames m) k = None"
  using assms by (auto simp: roster_inv_def)

text \<open>Updates that do not touch the roster.\<close>

definition same_roster :: "CallModel \<Rightarrow> CallModel \<Rightarrow> bool" where
  "same_roster m n \<longleftrightarrow>
     cm_peers n = cm_peers m \<and> cm_peerNames n = cm_peerNames m \<and> cm_peerCells n = cm_peerCells m \<and> cm_peerModes n = cm_peerModes m \<and>
     cm_peerDecoders n = cm_peerDecoders m \<and> cm_removedPeers n = cm_removedPeers m"

lemma same_roster_inv: "same_roster m n \<Longrightarrow> roster_inv m \<Longrightarrow> roster_inv n"
  by (simp add: same_roster_def roster_inv_def)

definition roster_msg :: "call_msg \<Rightarrow> bool" where
  "roster_msg x \<longleftrightarrow> (case x of PeerJoinMsg _ _ \<Rightarrow> True | PeerLeaveMsg _ \<Rightarrow> True | PeerFrameMsg _ _ \<Rightarrow> True | _ \<Rightarrow> False)"

lemma other_messages: "\<not> roster_msg x \<Longrightarrow> call_Update U x m = (n, effects, cmd) \<Longrightarrow> same_roster m n"
  by (auto simp: roster_msg_def call_Update_def call_key_def toggleCamera_def toggleMicrophone_def handleLocalFrame_def setError_def
      same_roster_def Let_def split: call_msg.splits if_splits option.splits prod.splits)

lemma AddPeer_inv: "roster_inv m \<Longrightarrow> roster_inv (AddPeer peerID username m)"
  by (auto simp: roster_inv_def AddPeer_def)

lemma RemovePeer_inv: "roster_inv m \<Longrightarrow> roster_inv (RemovePeer peerID m)"
  by (auto simp: roster_inv_def RemovePeer_def split: if_splits)

lemma peerFrameDecode_inv:
  assumes inv: "roster_inv m"
  shows "roster_inv (peerFrameDecode peerID frame m)"
proof -
  let ?d = "case gm_get (cm_peerDecoders m) peerID of None \<Rightarrow> NewDeltaDecoder | Some d \<Rightarrow> d"
  obtain res d' where dec: "DecodeCells ?d frame = (res, d')" by fastforce
  have wf: "wf_decoder ?d" using roster_decoders [OF inv] wf_NewDeltaDecoder by (simp split: option.split)
  have wf': "wf_decoder d'" using DecodeCells_wf [OF wf, of frame] dec by simp
  show ?thesis
  proof (cases res)
    case (Inl e)
    with dec inv wf' show ?thesis by (auto simp: peerFrameDecode_def Let_def roster_inv_def)
  next
    case (Inr cm)
    then obtain cells mode where res: "res = Inr (cells, mode)" by (cases cm) auto
    with DecodeCells_success [OF wf] dec obtain w h where "wf_grid mode w h cells" by blast
    with res dec inv wf' show ?thesis by (auto simp: peerFrameDecode_def Let_def roster_inv_def)
  qed
qed

lemma handlePeerFrame_inv:
  assumes inv: "roster_inv m"
  shows "roster_inv (handlePeerFrame peerID frame m)"
proof (cases "gm_get (cm_removedPeers m) peerID = Some True")
  case False
  let ?m = "if gm_get (cm_peerNames m) peerID = None
    then m\<lparr>cm_peerNames := gm_set peerID (''Peer '' @ peerID) (cm_peerNames m), cm_peers := cm_peers m @ [peerID]\<rparr> else m"
  have m: "roster_inv ?m" using inv False by (auto simp: roster_inv_def)
  then have off: "roster_inv (?m\<lparr>cm_peerCells := gm_delete peerID (cm_peerCells ?m), cm_peerModes := gm_delete peerID (cm_peerModes ?m)\<rparr>)"
    by (auto simp: roster_inv_def split: if_splits)
  show ?thesis unfolding handlePeerFrame_def Let_def using False off peerFrameDecode_inv [OF m] by simp
qed (simp add: handlePeerFrame_def inv)

section \<open>Who is shown\<close>

text \<open>The participants according to the messages alone: present once announced or seen in a frame,
  gone after a leave, when frames that are still under way no longer count.\<close>

datatype presence = Absent | Present | Gone

fun presence_step :: "string \<Rightarrow> call_msg \<Rightarrow> presence \<Rightarrow> presence" where
  "presence_step k (PeerJoinMsg j _) s = (if j = k then Present else s)"
| "presence_step k (PeerLeaveMsg j) s = (if j = k then Gone else s)"
| "presence_step k (PeerFrameMsg j _) s = (if j = k \<and> s = Absent then Present else s)"
| "presence_step k _ s = s"

definition is_in :: "string \<Rightarrow> presence \<Rightarrow> CallModel \<Rightarrow> bool" where
  "is_in k s m \<longleftrightarrow>
     (gm_get (cm_peerNames m) k \<noteq> None \<longleftrightarrow> s = Present) \<and> (gm_get (cm_removedPeers m) k = Some True \<longleftrightarrow> s = Gone)"

lemma is_in_update:
  assumes "is_in k s m" "call_Update U x m = (n, effects, cmd)"
  shows "is_in k (presence_step k x s) n"
proof (cases "roster_msg x")
  case False
  then have "same_roster m n" "presence_step k x s = s"
    using other_messages [OF False assms(2)] by (auto simp: roster_msg_def split: call_msg.splits)
  with assms(1) show ?thesis by (simp add: is_in_def same_roster_def)
next
  case True
  have frame: "is_in k (presence_step k (PeerFrameMsg j f) s) (handlePeerFrame j f m)" for j f
    using assms(1)
    by (cases s) (auto simp: is_in_def handlePeerFrame_def peerFrameDecode_def Let_def split: sum.splits prod.splits)
  show ?thesis
  proof (cases x)
    case (PeerFrameMsg j f)
    with frame [of j f] assms(2) show ?thesis by (simp add: call_Update_def)
  qed (use True assms in \<open>auto simp: roster_msg_def call_Update_def is_in_def AddPeer_def RemovePeer_def\<close>)
qed

lemma roster_update:
  assumes "roster_inv m" "call_Update U x m = (n, effects, cmd)"
  shows "roster_inv n"
proof (cases "roster_msg x")
  case False
  from other_messages [OF this assms(2)] assms(1) show ?thesis by (rule same_roster_inv)
next
  case True
  with assms show ?thesis
    by (auto simp: roster_msg_def call_Update_def AddPeer_inv RemovePeer_inv handlePeerFrame_inv split: call_msg.splits)
qed

lemma call_run_roster:
  "roster_inv m \<Longrightarrow> is_in k s m \<Longrightarrow> call_run U xs m = (n, effects) \<Longrightarrow>
   roster_inv n \<and> is_in k (fold (presence_step k) xs s) n"
proof (induction xs arbitrary: m s n effects)
  case (Cons x xs)
  obtain m1 e1 c1 where u: "call_Update U x m = (m1, e1, c1)" by (metis prod_cases3)
  obtain n2 e2 where r: "call_run U xs m1 = (n2, e2)" by fastforce
  from Cons.IH [OF roster_update [OF Cons.prems(1) u] is_in_update [OF Cons.prems(2) u] r] Cons.prems(3) u r show ?case by simp
qed simp

lemma roster_start: "roster_inv (NewCallModel room)" "is_in k Absent (NewCallModel room)"
  by (simp_all add: roster_inv_def is_in_def NewCallModel_def)

text \<open>The name of a participant is the one it was announced with.\<close>

definition named_by :: "call_msg list \<Rightarrow> CallModel \<Rightarrow> bool" where
  "named_by xs m \<longleftrightarrow> (\<forall>k u. gm_get (cm_peerNames m) k = Some u \<longrightarrow> u = ''Peer '' @ k \<or> PeerJoinMsg k u \<in> set xs)"

lemma name_update:
  assumes "call_Update U x m = (n, effects, cmd)" and "gm_get (cm_peerNames n) k = Some u"
  shows "gm_get (cm_peerNames m) k = Some u \<or> u = ''Peer '' @ k \<or> x = PeerJoinMsg k u"
proof (cases "roster_msg x")
  case False
  with other_messages [OF False assms(1)] assms(2) show ?thesis by (simp add: same_roster_def)
next
  case True
  have frame: "cm_peerNames (handlePeerFrame j f m) = cm_peerNames m \<or>
      cm_peerNames (handlePeerFrame j f m) = gm_set j (''Peer '' @ j) (cm_peerNames m)" for j f
    by (auto simp: handlePeerFrame_def peerFrameDecode_def Let_def split: sum.splits prod.splits)
  show ?thesis
  proof (cases x)
    case (PeerFrameMsg j f)
    with assms have n: "n = handlePeerFrame j f m" by (simp add: call_Update_def)
    from frame [of j f] assms(2) show ?thesis unfolding n by (auto split: if_splits)
  qed (use True assms in \<open>auto simp: roster_msg_def call_Update_def AddPeer_def RemovePeer_def split: if_splits\<close>)
qed

lemma names_update: "named_by xs m \<Longrightarrow> call_Update U x m = (n, effects, cmd) \<Longrightarrow> named_by (xs @ [x]) n"
  unfolding named_by_def using name_update by fastforce

lemma call_run_names: "named_by ys m \<Longrightarrow> call_run U xs m = (n, effects) \<Longrightarrow> named_by (ys @ xs) n"
proof (induction xs arbitrary: ys m n effects)
  case (Cons x xs)
  obtain m1 e1 c1 where u: "call_Update U x m = (m1, e1, c1)" by (metis prod_cases3)
  obtain n2 e2 where r: "call_run U xs m1 = (n2, e2)" by fastforce
  from Cons.IH [OF names_update [OF Cons.prems(1) u] r] Cons.prems(2) u r show ?case by simp
qed simp

lemma peerTile_name: "ti_name (peerTile m k) = (case gm_get (cm_peerNames m) k of None \<Rightarrow> [] | Some u \<Rightarrow> u)"
  by (simp add: peerTile_def Let_def)

text \<open>C11: The call screen shows exactly the participants of the call. After any sequence of messages,
  in any order, the list of participants has no duplicates and holds a peer exactly when it was
  announced or seen in a frame and has not left since; a frame that arrives after a leave does
  not bring a peer back; the picture in the tile of a participant is text that is safe for the
  terminal, whatever bytes the peers sent as video; and the name in its tile is one that it was
  announced with, or is made from its identifier.\<close>

theorem call_roster:
  assumes "call_run U xs (NewCallModel room) = (m, effects)"
  shows "distinct (cm_peers m) \<and>
    (k \<in> set (cm_peers m) \<longleftrightarrow> fold (presence_step k) xs Absent = Present) \<and>
    (ti_placeholder (peerTile m k) \<or> (\<exists>ts. ti_frame (peerTile m k) = built ts \<and> list_all safe_token ts)) \<and>
    (k \<in> set (cm_peers m) \<longrightarrow>
      ti_name (peerTile m k) = ''Peer '' @ k \<or> PeerJoinMsg k (ti_name (peerTile m k)) \<in> set xs)"
proof -
  have "named_by [] (NewCallModel room)" by (simp add: named_by_def NewCallModel_def)
  from call_run_names [OF this assms] have names: "named_by xs m" by simp
  from call_run_roster [OF roster_start assms] have inv: "roster_inv m"
    and k: "is_in k (fold (presence_step k) xs Absent) m" by blast+
  have safe: "ti_placeholder (peerTile m k) \<or> (\<exists>ts. ti_frame (peerTile m k) = built ts \<and> list_all safe_token ts)"
  proof (cases "gm_get (cm_peerCells m) k")
    case (Some g)
    from roster_cells [OF inv Some] obtain mode w h where mode: "gm_get (cm_peerModes m) k = Some mode" "wf_grid mode w h g" by blast
    with SerialiseMode_safe [OF mode(2)] Some show ?thesis by (auto simp: peerTile_def Let_def)
  qed (simp add: peerTile_def)
  have "ti_name (peerTile m k) = ''Peer '' @ k \<or> PeerJoinMsg k (ti_name (peerTile m k)) \<in> set xs" if "k \<in> set (cm_peers m)"
    using that roster_names [OF inv, of k] names by (auto simp: named_by_def peerTile_name split: option.split)
  with roster_distinct [OF inv] roster_names [OF inv, of k] k safe show ?thesis by (simp add: is_in_def)
qed

theorem call_roster_witness:
  "\<exists>m effects. call_run \<lparr>ut_print = \<lambda>_. False, ut_letter = \<lambda>_. False, ut_digit = \<lambda>_. False, ut_mark = \<lambda>_. False\<rparr>
      [PeerJoinMsg ''a'' ''ann'', PeerFrameMsg ''b'' ''K 1'', PeerLeaveMsg ''a'', PeerFrameMsg ''a'' ''K 1''] (NewCallModel ''r'') = (m, effects) \<and>
    ''b'' \<in> set (cm_peers m) \<and> ''a'' \<notin> set (cm_peers m)"
proof -
  let ?U = "\<lparr>ut_print = \<lambda>_. False, ut_letter = \<lambda>_. False, ut_digit = \<lambda>_. False, ut_mark = \<lambda>_. False\<rparr>"
  let ?xs = "[PeerJoinMsg ''a'' ''ann'', PeerFrameMsg ''b'' ''K 1'', PeerLeaveMsg ''a'', PeerFrameMsg ''a'' ''K 1'']"
  obtain m effects where r: "call_run ?U ?xs (NewCallModel ''r'') = (m, effects)" by fastforce
  from call_roster [OF r, of "''a''"] call_roster [OF r, of "''b''"] r show ?thesis by auto
qed

section \<open>The microphone indicator\<close>

text \<open>What the effects do to the mesh; \<open>ok\<close> and \<open>channels\<close> are the library's answers.\<close>

fun apply_effect :: "(nat \<Rightarrow> bool) \<Rightarrow> (nat \<Rightarrow> bool \<times> int) \<Rightarrow> call_effect \<Rightarrow> MeshManager \<Rightarrow> MeshManager" where
  "apply_effect ok channels (MuteAudio muted) mesh = SetMuteAudio ok muted mesh"
| "apply_effect ok channels (SetLocalTrack track) mesh = SetLocalAudioTrack (Some track) mesh"
| "apply_effect ok channels (Broadcast frame) mesh = BroadcastFrame channels frame mesh"
| "apply_effect ok channels _ mesh = mesh"

definition mic_agrees :: "CallModel \<Rightarrow> MeshManager \<Rightarrow> bool" where
  "mic_agrees m mesh \<longleftrightarrow> (ms_isMuted mesh \<longleftrightarrow> \<not> cm_micOn m) \<and> (cm_micOn m \<longrightarrow> ms_localAudioTrack mesh \<noteq> None)"

lemma replaceTracks_flags:
  "ms_isMuted (replaceTracks ok t as mesh) = ms_isMuted mesh \<and> ms_localAudioTrack (replaceTracks ok t as mesh) = ms_localAudioTrack mesh"
  by (induction as arbitrary: mesh) (auto simp: Let_def log_calls_def notifyError_def emit_event_def split: option.split)

lemma effect_flags [simp]:
  "ms_isMuted (SetMuteAudio ok b mesh) = b" "ms_localAudioTrack (SetMuteAudio ok b mesh) = ms_localAudioTrack mesh"
  "ms_isMuted (SetLocalAudioTrack t mesh) = ms_isMuted mesh" "ms_localAudioTrack (SetLocalAudioTrack t mesh) = t"
  "ms_isMuted (BroadcastFrame ch f mesh) = ms_isMuted mesh" "ms_localAudioTrack (BroadcastFrame ch f mesh) = ms_localAudioTrack mesh"
  by (simp_all add: SetMuteAudio_def SetMuteAudio_begin_def Let_def replaceTracks_flags SetLocalAudioTrack_def BroadcastFrame_def log_calls_def
      split: prod.split option.split)

lemma mic_update:
  "mic_agrees m mesh \<Longrightarrow> call_Update U x m = (n, effects, cmd) \<Longrightarrow> mic_agrees n (fold (apply_effect ok channels) effects mesh)"
  by (auto simp: mic_agrees_def call_Update_def call_key_def toggleCamera_def toggleMicrophone_def handleLocalFrame_def setError_def
      AddPeer_def RemovePeer_def handlePeerFrame_def peerFrameDecode_def Let_def
      split: call_msg.splits if_splits option.splits prod.splits sum.splits)

lemma mic_run:
  "mic_agrees m mesh \<Longrightarrow> call_run U xs m = (n, effects) \<Longrightarrow> mic_agrees n (fold (apply_effect ok channels) effects mesh)"
proof (induction xs arbitrary: m n mesh effects)
  case (Cons x xs)
  obtain m1 e1 c1 where u: "call_Update U x m = (m1, e1, c1)" by (metis prod_cases3)
  obtain n2 e2 where r: "call_run U xs m1 = (n2, e2)" by fastforce
  from Cons.IH [OF mic_update [OF Cons.prems(1) u] r] Cons.prems(2) u r show ?case by auto
qed simp

text \<open>C20: The microphone indicator tells the truth. After any sequence of messages, the mesh that
  carried out the effects of the call screen is muted exactly when the screen shows the microphone
  as off, and it has a microphone track whenever the screen shows it as on; in particular
  the call starts muted.\<close>

theorem mic_indicator_truthful:
  assumes "NewMeshManagerWithOptions U True True (Some silent) admission options = Inr mesh"
    and "call_run U xs (NewCallModel room) = (m, effects)"
  shows "(ms_isMuted (fold (apply_effect ok channels) effects mesh) \<longleftrightarrow> \<not> cm_micOn m) \<and>
    (cm_micOn m \<longrightarrow> ms_localAudioTrack (fold (apply_effect ok channels) effects mesh) \<noteq> None)"
proof -
  have "mic_agrees (NewCallModel room) mesh"
    using assms(1) by (auto simp: mic_agrees_def NewCallModel_def NewMeshManagerWithOptions_def split: option.splits)
  from mic_run [OF this assms(2)] show ?thesis by (simp add: mic_agrees_def)
qed

theorem mic_indicator_truthful_witness:
  "\<exists>mesh m effects.
    NewMeshManagerWithOptions no_tables True True (Some 5)
      \<lparr>ja_RoomID = [], ja_PeerID = ''123e4567-e89b-42d3-a456-426614174000'', ja_Peers = [], ja_ICEServers = []\<rparr> \<lparr>mo_AllowPrivateCandidates = True\<rparr> = Inr mesh \<and>
    call_run no_tables [KeyMsg ''m'', MicrophoneStartedMsg 4 None] (NewCallModel ''r'') = (m, effects) \<and>
    cm_micOn m \<and> \<not> ms_isMuted (fold (apply_effect (\<lambda>_. True) (\<lambda>_. (False, 0))) effects mesh)"
proof -
  let ?adm = "\<lparr>ja_RoomID = [], ja_PeerID = ''123e4567-e89b-42d3-a456-426614174000'', ja_Peers = [], ja_ICEServers = []\<rparr>"
  let ?xs = "[KeyMsg ''m'', MicrophoneStartedMsg 4 None]"
  have "ValidatePeerID no_tables (ja_PeerID ?adm) = None" by code_simp
  then obtain mesh where mesh: "NewMeshManagerWithOptions no_tables True True (Some 5) ?adm \<lparr>mo_AllowPrivateCandidates = True\<rparr> = Inr mesh"
    by (simp add: NewMeshManagerWithOptions_def)
  obtain m effects where run: "call_run no_tables ?xs (NewCallModel ''r'') = (m, effects)" by fastforce
  have "cm_micOn (fst (call_run no_tables ?xs (NewCallModel ''r'')))" by code_simp
  then have "cm_micOn m" by (simp only: run fst_conv)
  with mic_indicator_truthful [OF mesh run] mesh run show ?thesis by blast
qed

text \<open>Video is sent only while the camera is on.\<close>

lemma camera_off_sends_nothing:
  "\<not> cm_camOn m \<Longrightarrow> call_Update U x m = (n, effects, cmd) \<Longrightarrow> Broadcast s \<notin> set effects"
  by (auto simp: call_Update_def call_key_def toggleCamera_def toggleMicrophone_def handleLocalFrame_def setError_def Let_def
      split: call_msg.splits if_splits option.splits prod.splits)

section \<open>Changing the render mode\<close>

lemma makeGrid_first:
  assumes "0 < w" "0 < h"
  shows "makeGrid w h cell \<noteq> []" "length (hd (makeGrid w h cell)) = nat w" "hd (makeGrid w h cell) ! 0 = cell 0 0"
  using assms by (simp_all add: makeGrid_def hd_map)

lemma halfblock_cells:
  fixes img :: Image
  defines "g \<equiv> renderHalfBlockCells img 100 30"
  shows "g \<noteq> []" "0 < length (hd g)" "CharB (hd g ! 0) = CHR 0x00"
  unfolding g_def renderHalfBlockCells_def Let_def defaultWidth_def defaultHeight_def by (simp_all add: makeGrid_first)

lemma ascii_shows_first:
  assumes "g \<noteq> []" "0 < length (hd g)"
  shows "CharB (hd g ! 0) \<in> set (built (serialiseASCII g))"
proof -
  obtain row rows where g: "g = row # rows" using assms(1) by (cases g) auto
  have "TChar (CharB (row ! 0)) \<in> set (asciiRows (length row) (row # rows))"
    using assms(2) by (cases rows) (force simp: g rowCells_def)+
  then show ?thesis by (force simp: g built_def serialiseASCII_def)
qed

text \<open>The mode key changes the mode of the renderer but keeps the cells of the last frame, so until
  the next frame the local tile shows half-block cells, whose character is NUL, as plain text.\<close>

lemma mode_key_shows_nul:
  assumes img: "image_ok img"
  shows "CHR 0x00 \<in> set (ti_frame (localTile (fst (call_run U
    [CameraStartedMsg (Some 1) None, LocalFrameMsg (Some img) (Some 1) False, KeyMsg ''n''] (NewCallModel room)))))"
proof -
  let ?r = "renderer_Reset (NewColorRenderer ModeHalfBlock)"
  let ?g = "renderHalfBlockCells img 100 30"
  have r: "renderer_ok ?r NewDeltaDecoder"
    by (simp add: renderer_ok_def renderer_Reset_def NewColorRenderer_def st_ok_def stabiliser_Reset_def NewStabiliser_def
        NewDeltaEncoder_def encoder_Reset_def synced_def mode_defs)
  obtain cells sent r' where c: "ConvertCells img 100 30 ?r = ((cells, sent), r')" by (metis prod.collapse)
  have "renderCells ?r img 100 30 = ?g" by (simp add: renderCells_def renderer_Reset_def NewColorRenderer_def mode_defs)
  then have cells: "cells = ?g" "cr_mode r' = ModeHalfBlock"
    using c by (auto simp: ConvertCells_def stabilised_def renderer_Reset_def NewColorRenderer_def Stabilise_def stabiliser_Reset_def
        NewStabiliser_def split: prod.splits)
  have "sent \<noteq> []"
  proof
    assume "sent = []"
    with ConvertCells_ok [OF r img _ _ _ _ c] have "\<exists>d' g m. DecodeCells NewDeltaDecoder [] = (Inr (g, m), d')" by auto
    then show False by (auto simp: DecodeCells_def splitFrame_def split: option.splits if_splits prod.splits)
  qed
  with c cells have "localTile (fst (call_run U [CameraStartedMsg (Some 1) None, LocalFrameMsg (Some img) (Some 1) False, KeyMsg ''n''] (NewCallModel room))) =
      \<lparr>ti_name = ''You (Local)'', ti_frame = built (serialiseASCII ?g), ti_placeholder = False\<rparr>"
    using halfblock_cells(1) [of img]
    by (simp add: call_Update_def call_key_def handleLocalFrame_def NewCallModel_def localTile_def frame_limits mode_defs SetMode_def
        SerialiseMode_def)
  with halfblock_cells [of img] ascii_shows_first [of ?g] show ?thesis by simp
qed

section \<open>Commands of the event loop\<close>

text \<open>The messages that the commands of the screen hand back: the outcome of starting a device, and a
  frame of the camera or the end of its stream.\<close>

definition startCamera :: "string + nat \<Rightarrow> call_msg" where
  "startCamera started = (case started of Inl e \<Rightarrow> CameraStartedMsg None (Some e) | Inr frames \<Rightarrow> CameraStartedMsg (Some frames) None)"

definition waitForCameraFrame :: "nat option \<Rightarrow> Image option \<Rightarrow> call_msg" where
  "waitForCameraFrame frames received = LocalFrameMsg received frames (received = None)"

definition startMicrophone :: "string + nat \<Rightarrow> call_msg" where
  "startMicrophone started = (case started of Inl e \<Rightarrow> MicrophoneStartedMsg 0 (Some e) | Inr track \<Rightarrow> MicrophoneStartedMsg track None)"

text \<open>In a build without cgo the screen only receives: camera and microphone never come on, nothing is
  broadcast and the mesh stays muted.\<close>

definition nocgo_msg :: "call_msg \<Rightarrow> bool" where
  "nocgo_msg x \<longleftrightarrow>
     (case x of
        CameraStartedMsg _ _ \<Rightarrow> x = startCamera stub_camera_Start
      | MicrophoneStartedMsg _ _ \<Rightarrow> x = startMicrophone stub_microphone_Start
      | _ \<Rightarrow> True)"

definition sends_nothing :: "call_effect list \<Rightarrow> bool" where
  "sends_nothing effects \<longleftrightarrow> MuteAudio False \<notin> set effects \<and> (\<forall>e \<in> set effects. case e of Broadcast _ \<Rightarrow> False | _ \<Rightarrow> True)"

lemma nocgo_update:
  "nocgo_msg x \<Longrightarrow> \<not> cm_camOn m \<and> \<not> cm_micOn m \<Longrightarrow> call_Update U x m = (n, effects, cmd) \<Longrightarrow>
     \<not> cm_camOn n \<and> \<not> cm_micOn n \<and> sends_nothing effects"
  by (auto simp: nocgo_msg_def sends_nothing_def startCamera_def startMicrophone_def stub_camera_Start_def stub_microphone_Start_def
      call_Update_def call_key_def toggleCamera_def toggleMicrophone_def handleLocalFrame_def setError_def
      AddPeer_def RemovePeer_def handlePeerFrame_def peerFrameDecode_def Let_def
      split: call_msg.splits if_splits option.splits prod.splits sum.splits)

lemma nocgo_run:
  "list_all nocgo_msg xs \<Longrightarrow> \<not> cm_camOn m \<and> \<not> cm_micOn m \<Longrightarrow> call_run U xs m = (n, effects) \<Longrightarrow>
     \<not> cm_camOn n \<and> \<not> cm_micOn n \<and> sends_nothing effects"
proof (induction xs arbitrary: m n effects)
  case (Cons x xs)
  obtain m1 e1 c1 where u: "call_Update U x m = (m1, e1, c1)" by (metis prod_cases3)
  obtain n2 e2 where r: "call_run U xs m1 = (n2, e2)" by fastforce
  from nocgo_update [OF _ Cons.prems(2) u] Cons.IH [OF _ _ r] Cons.prems(1,3) u r show ?case by (auto simp: sends_nothing_def)
qed (simp add: sends_nothing_def)

section \<open>The periodic readings\<close>

text \<open>What the two timers read from the mesh; \<open>lib\<close> is what the WebRTC library reports for a peer, \<open>rms\<close> the
  loudness of a player.\<close>

definition statsTick :: "(nat \<Rightarrow> string \<times> string \<times> rtc_stat list) \<Rightarrow> MeshManager \<Rightarrow> call_msg \<times> MeshManager" where
  "statsTick lib mesh =
     RLockPeers (\<lambda>peers.
       let mesh' = fold (\<lambda>(k, a) m. set_remote a (case lib a of (st, st2, stats) \<Rightarrow> UpdateStats st st2 stats (Fin 2) (ms_heap m a)) m) peers mesh
       in (StatsTickMsg (map (\<lambda>(k, a). (k, rp_stats (ms_heap mesh' a))) peers), mesh')) mesh"

definition volumeTick :: "(nat \<Rightarrow> go_float) \<Rightarrow> MeshManager \<Rightarrow> call_msg" where
  "volumeTick rms mesh =
     RLockPeers (\<lambda>peers. VolumeTickMsg (concat (map (\<lambda>(k, a).
       case rp_player (ms_heap mesh a) of None \<Rightarrow> [] | Some player \<Rightarrow> [(k, rms player)]) peers))) mesh"

text \<open>The rates that reach the screen are finite and not negative, whatever the library counts.\<close>

definition rate_ok :: "go_float \<Rightarrow> bool" where
  "rate_ok x \<longleftrightarrow> (case x of Fin r \<Rightarrow> 0 \<le> r \<and> r \<le> 2 ^ 53 | _ \<Rightarrow> False)"

definition rates_ok :: "PeerStats \<Rightarrow> bool" where
  "rates_ok s \<longleftrightarrow> rate_ok (st_OutgoingKBps s) \<and> rate_ok (st_IncomingKBps s) \<and> rate_ok (st_AudioOutKBps s) \<and> rate_ok (st_AudioInKBps s)"

lemma rate_ok_kbps [simp]: "rate_ok (bytesPerSecondToKBps bytes (Fin 2))"
  using kbps_range [of bytes] by (auto simp: rate_ok_def)

lemma rates_zero: "rates_ok zero_stats"
  by (simp add: rates_ok_def rate_ok_def zero_stats_def)

lemma rates_updateStat: "rates_ok (rp_stats p) \<Longrightarrow> rates_ok (rp_stats (updateStat (Fin 2) p stat))"
  by (auto simp: updateStat_def rates_ok_def split: rtc_stat.split)

lemma rates_UpdateStats: "rates_ok (rp_stats p) \<Longrightarrow> rates_ok (rp_stats (UpdateStats st st2 stats (Fin 2) p))"
proof -
  have "rates_ok (rp_stats q) \<Longrightarrow> rates_ok (rp_stats (foldl (updateStat (Fin 2)) q stats))" for q
    by (induction stats arbitrary: q) (simp_all add: rates_updateStat)
  moreover assume "rates_ok (rp_stats p)"
  ultimately show ?thesis by (simp add: UpdateStats_def rates_ok_def)
qed

lemma statsTick_rates:
  assumes "\<forall>a. rates_ok (rp_stats (ms_heap mesh a))" "statsTick lib mesh = (StatsTickMsg xs, mesh')"
  shows "(\<forall>(k, s) \<in> set xs. rates_ok s) \<and> (\<forall>a. rates_ok (rp_stats (ms_heap mesh' a)))"
proof -
  let ?step = "\<lambda>(k, a) m. set_remote a (case lib a of (st, st2, stats) \<Rightarrow> UpdateStats st st2 stats (Fin 2) (ms_heap m a)) m"
  have "\<forall>a. rates_ok (rp_stats (ms_heap m a)) \<Longrightarrow> \<forall>a. rates_ok (rp_stats (ms_heap (fold ?step peers m) a))" for peers :: "(string \<times> nat) list" and m
    by (induction peers arbitrary: m) (auto simp: set_remote_def rates_UpdateStats split: prod.split)
  then show ?thesis using assms by (auto simp: statsTick_def RLockPeers_def Let_def)
qed

end
