(* ===== verification/Rooms.thy ===== *)
theory Rooms
  imports Protocol "HOL-Library.Multiset"
begin

text \<open>
  The room manager (\<^verbatim>\<open>internal/signaling/room.go\<close>). Rooms and peers are shared by
  pointer between the manager and the connection handlers, and \<open>Leave\<close>, \<open>Route\<close> and
  \<open>roomPeers\<close> compare those pointers, so both live in a heap and a pointer is an address.
  A new identifier (\<^verbatim>\<open>uuid.NewString\<close>) is an argument, and so is the order in which a map
  is iterated (\<open>rng\<close>). Every operation is one critical section of the manager's mutex; the
  creation time of a room is never read and is left out. Lemmas: the invariant \<open>wf_rooms\<close>,
  that a stale pointer has no effect, and who is reached by a broadcast.
\<close>

section \<open>Peers and their queues\<close>

datatype room_error =
    ErrRoomFull
  | ErrPeerNotFound
  | ErrSignalingSlow
  | ErrRoomLimit
  | ErrRoomNotFound
  | ErrAccept proto_error

definition peerQueueSize :: int where
  "peerQueueSize = 256"

record outboundMessage =
  o_message :: SignalingMessage
  o_result :: bool

record Peer =
  p_ID :: string
  p_Username :: string
  p_Send :: "outboundMessage list"
  p_cancelled :: bool

record Room =
  r_ID :: string
  r_MaxPeers :: int
  r_peers :: "(string, nat) gomap"

record RoomManager =
  rm_rooms :: "(string, nat) gomap"
  rm_maxRooms :: int

record world =
  w_manager :: RoomManager
  w_room :: "nat \<Rightarrow> Room"
  w_peer :: "nat \<Rightarrow> Peer"
  w_next :: nat

definition NewRoomManager :: "int \<Rightarrow> RoomManager" where
  "NewRoomManager maxRooms = \<lparr>rm_rooms = gm_empty, rm_maxRooms = maxRooms\<rparr>"

definition set_peer :: "nat \<Rightarrow> Peer \<Rightarrow> world \<Rightarrow> world" where
  "set_peer a p w = w\<lparr>w_peer := (w_peer w)(a := p)\<rparr>"

definition set_room :: "nat \<Rightarrow> Room \<Rightarrow> world \<Rightarrow> world" where
  "set_room a r w = w\<lparr>w_room := (w_room w)(a := r)\<rparr>"

definition set_rooms :: "(string, nat) gomap \<Rightarrow> world \<Rightarrow> world" where
  "set_rooms m w = w\<lparr>w_manager := (w_manager w)\<lparr>rm_rooms := m\<rparr>\<rparr>"

abbreviation rooms :: "world \<Rightarrow> (string, nat) gomap" where
  "rooms w \<equiv> rm_rooms (w_manager w)"

definition peer_Cancel :: "nat \<Rightarrow> world \<Rightarrow> world" where
  "peer_Cancel a w = set_peer a ((w_peer w a)\<lparr>p_cancelled := True\<rparr>) w"

definition enqueue :: "nat \<Rightarrow> SignalingMessage \<Rightarrow> world \<Rightarrow> room_error option \<times> world" where
  "enqueue a message w =
     (let p = w_peer w a
      in if int (length (p_Send p)) < peerQueueSize
         then (None, set_peer a (p\<lparr>p_Send := p_Send p @ [\<lparr>o_message = message, o_result = False\<rparr>]\<rparr>) w)
         else (Some ErrSignalingSlow, peer_Cancel a w))"

text \<open>\<open>enqueueAndWait\<close> up to the point where it waits for the writer. When a context is
  done its select may take that case; \<open>tookDone\<close> says that it did.\<close>

definition enqueueAndWait_queue :: "bool \<Rightarrow> nat \<Rightarrow> SignalingMessage \<Rightarrow> world \<Rightarrow> bool \<times> world" where
  "enqueueAndWait_queue tookDone a message w =
     (let p = w_peer w a
      in if tookDone then (False, w)
         else if int (length (p_Send p)) < peerQueueSize
         then (True, set_peer a (p\<lparr>p_Send := p_Send p @ [\<lparr>o_message = message, o_result = True\<rparr>]\<rparr>) w)
         else (False, peer_Cancel a w))"

section \<open>Snapshots\<close>

definition peerSnapshot :: "((string \<times> nat) list \<Rightarrow> (string \<times> nat) list) \<Rightarrow> (string, nat) gomap \<Rightarrow> string \<Rightarrow> nat list" where
  "peerSnapshot rng peers excludePeerID = map snd (filter (\<lambda>p. fst p \<noteq> excludePeerID) (rng peers))"

definition peerInfoSnapshot ::
  "((string \<times> nat) list \<Rightarrow> (string \<times> nat) list) \<Rightarrow> (nat \<Rightarrow> Peer) \<Rightarrow> (string, nat) gomap \<Rightarrow> string \<Rightarrow> PeerInfo list" where
  "peerInfoSnapshot rng heap peers excludePeerID =
     map (\<lambda>p. \<lparr>pi_PeerID = p_ID (heap (snd p)), pi_Username = p_Username (heap (snd p))\<rparr>)
       (filter (\<lambda>p. fst p \<noteq> excludePeerID) (rng peers))"

text \<open>The pointer that the manager holds for the room's identifier is the given one.\<close>

definition current :: "nat \<Rightarrow> world \<Rightarrow> bool" where
  "current room w \<longleftrightarrow> gm_get (rooms w) (r_ID (w_room w room)) = Some room"

definition roomPeers :: "((string \<times> nat) list \<Rightarrow> (string \<times> nat) list) \<Rightarrow> nat \<Rightarrow> string \<Rightarrow> world \<Rightarrow> nat list" where
  "roomPeers rng room excludePeerID w =
     (if \<not> current room w then [] else peerSnapshot rng (r_peers (w_room w room)) excludePeerID)"

definition Peers :: "((string \<times> nat) list \<Rightarrow> (string \<times> nat) list) \<Rightarrow> nat \<Rightarrow> world \<Rightarrow> PeerInfo list" where
  "Peers rng room w =
     (if \<not> current room w then [] else peerInfoSnapshot rng (w_peer w) (r_peers (w_room w room)) [])"

definition RoomCount :: "world \<Rightarrow> int" where
  "RoomCount w = gm_len (rooms w)"

section \<open>Operations of the manager\<close>

type_synonym acceptor = "string \<Rightarrow> PeerInfo list \<Rightarrow> world \<Rightarrow> room_error option \<times> world"

definition admitInto ::
  "((string \<times> nat) list \<Rightarrow> (string \<times> nat) list) \<Rightarrow> nat \<Rightarrow> nat \<Rightarrow> acceptor option \<Rightarrow> world
    \<Rightarrow> (room_error, nat) res \<times> world" where
  "admitInto rng room peer accept w =
     (if r_MaxPeers (w_room w room) \<le> gm_len (r_peers (w_room w room)) then (Inl ErrRoomFull, w)
      else
        let existingPeers = peerInfoSnapshot rng (w_peer w) (r_peers (w_room w room)) [];
            (err, w1) = (case accept of None \<Rightarrow> (None, w) | Some f \<Rightarrow> f (r_ID (w_room w room)) existingPeers w);
            r = w_room w1 room
        in case err of
             Some e \<Rightarrow>
               (Inl e, if gm_len (r_peers r) = 0 then set_rooms (gm_delete (r_ID r) (rooms w1)) w1 else w1)
           | None \<Rightarrow>
               (Inr room, set_room room (r\<lparr>r_peers := gm_set (p_ID (w_peer w1 peer)) peer (r_peers r)\<rparr>) w1))"

definition Admit ::
  "((string \<times> nat) list \<Rightarrow> (string \<times> nat) list) \<Rightarrow> string \<Rightarrow> string \<Rightarrow> int \<Rightarrow> nat \<Rightarrow> acceptor option \<Rightarrow> world
    \<Rightarrow> (room_error, nat) res \<times> world" where
  "Admit rng newID requestedID maxPeers peer accept w =
     (if requestedID = ''new'' then
        (if rm_maxRooms (w_manager w) \<le> gm_len (rooms w) then (Inl ErrRoomLimit, w)
         else
           let room = w_next w;
               w1 = set_rooms (gm_set newID room (rooms w))
                 (set_room room \<lparr>r_ID = newID, r_MaxPeers = maxPeers, r_peers = gm_empty\<rparr>
                   (w\<lparr>w_next := Suc room\<rparr>))
           in admitInto rng room peer accept w1)
      else (case gm_get (rooms w) requestedID of
          None \<Rightarrow> (Inl ErrRoomNotFound, w)
        | Some room \<Rightarrow> admitInto rng room peer accept w))"

definition Join ::
  "((string \<times> nat) list \<Rightarrow> (string \<times> nat) list) \<Rightarrow> string \<Rightarrow> string \<Rightarrow> int \<Rightarrow> nat \<Rightarrow> world
    \<Rightarrow> (room_error, nat) res \<times> PeerInfo list \<times> world" where
  "Join rng newID requestedID maxPeers peer w =
     (case Admit rng newID requestedID maxPeers peer (Some (\<lambda>_ peers w. (None, w))) w of
        (Inl e, w1) \<Rightarrow> (Inl e, [], w1)
      | (Inr room, w1) \<Rightarrow>
          (Inr room, (if requestedID = ''new'' then []
             else peerInfoSnapshot rng (w_peer w) (r_peers (w_room w room)) []), w1))"

definition Leave ::
  "((string \<times> nat) list \<Rightarrow> (string \<times> nat) list) \<Rightarrow> nat option \<Rightarrow> string \<Rightarrow> world \<Rightarrow> nat list \<times> world" where
  "Leave rng room peerID w =
     (case room of
        None \<Rightarrow> ([], w)
      | Some a \<Rightarrow>
          if \<not> current a w then ([], w)
          else
            let r = w_room w a;
                peers = gm_delete peerID (r_peers r);
                w1 = set_room a (r\<lparr>r_peers := peers\<rparr>) w
            in (peerSnapshot rng peers [],
                if gm_len peers = 0 then set_rooms (gm_delete (r_ID r) (rooms w1)) w1 else w1))"

fun enqueueAll :: "nat list \<Rightarrow> SignalingMessage \<Rightarrow> world \<Rightarrow> nat \<times> world" where
  "enqueueAll [] message w = (0, w)"
| "enqueueAll (a # as) message w =
     (case enqueue a message w of (err, w1) \<Rightarrow>
        (case enqueueAll as message w1 of (n, w2) \<Rightarrow> (if err = None then n else Suc n, w2)))"

definition Broadcast ::
  "((string \<times> nat) list \<Rightarrow> (string \<times> nat) list) \<Rightarrow> nat \<Rightarrow> SignalingMessage \<Rightarrow> string \<Rightarrow> world \<Rightarrow> nat \<times> world" where
  "Broadcast rng room message excludePeerID w = enqueueAll (roomPeers rng room excludePeerID w) message w"

definition Route :: "nat \<Rightarrow> string \<Rightarrow> SignalingMessage \<Rightarrow> world \<Rightarrow> room_error option \<times> world" where
  "Route room targetPeerID message w =
     (if \<not> current room w then (Some ErrPeerNotFound, w)
      else (case gm_get (r_peers (w_room w room)) targetPeerID of
          None \<Rightarrow> (Some ErrPeerNotFound, w)
        | Some target \<Rightarrow> enqueue target message w))"

section \<open>The invariant\<close>

definition wf_room :: "world \<Rightarrow> string \<Rightarrow> nat \<Rightarrow> bool" where
  "wf_room w i a \<longleftrightarrow>
     a < w_next w \<and> r_ID (w_room w a) = i \<and> gm_wf (r_peers (w_room w a)) \<and>
     0 < gm_len (r_peers (w_room w a)) \<and> gm_len (r_peers (w_room w a)) \<le> r_MaxPeers (w_room w a) \<and>
     (\<forall>k p. gm_get (r_peers (w_room w a)) k = Some p \<longrightarrow> p_ID (w_peer w p) = k)"

definition wf_rooms :: "world \<Rightarrow> bool" where
  "wf_rooms w \<longleftrightarrow>
     gm_wf (rooms w) \<and> gm_len (rooms w) \<le> rm_maxRooms (w_manager w) \<and>
     (\<forall>i a. gm_get (rooms w) i = Some a \<longrightarrow> wf_room w i a)"

text \<open>What a callback of \<open>Admit\<close> may do: it runs under the lock and touches queues only.\<close>

definition same_rooms :: "world \<Rightarrow> world \<Rightarrow> bool" where
  "same_rooms w w' \<longleftrightarrow>
     w_manager w' = w_manager w \<and> w_room w' = w_room w \<and> w_next w' = w_next w \<and>
     (\<forall>a. p_ID (w_peer w' a) = p_ID (w_peer w a))"

definition iteration_order :: "((string \<times> nat) list \<Rightarrow> (string \<times> nat) list) \<Rightarrow> bool" where
  "iteration_order rng \<longleftrightarrow> (\<forall>xs. mset (rng xs) = mset xs)"

section \<open>Queue operations do not touch the rooms\<close>

lemma same_rooms_refl [simp]: "same_rooms w w"
  by (simp add: same_rooms_def)

lemma same_rooms_trans: "same_rooms u v \<Longrightarrow> same_rooms v w \<Longrightarrow> same_rooms u w"
  by (simp add: same_rooms_def)

lemma same_rooms_Cancel: "same_rooms w (peer_Cancel a w)"
  by (simp add: same_rooms_def peer_Cancel_def set_peer_def)

lemma same_rooms_enqueue: "same_rooms w (snd (enqueue a m w))"
  by (simp add: same_rooms_def enqueue_def Let_def peer_Cancel_def set_peer_def)

lemma same_rooms_wait: "same_rooms w (snd (enqueueAndWait_queue b a m w))"
  by (simp add: same_rooms_def enqueueAndWait_queue_def Let_def peer_Cancel_def set_peer_def)

lemma same_rooms_enqueueAll: "same_rooms w (snd (enqueueAll as m w))"
proof (induction as m w rule: enqueueAll.induct)
  case (2 a as m w)
  obtain err w1 where e: "enqueue a m w = (err, w1)" by (cases "enqueue a m w")
  with 2 [OF e [symmetric]] same_rooms_enqueue [of w a m] show ?case
    by (auto split: prod.splits intro: same_rooms_trans)
qed simp

lemma same_rooms_wf: "same_rooms w w' \<Longrightarrow> wf_rooms w \<Longrightarrow> wf_rooms w'"
  by (simp add: same_rooms_def wf_rooms_def wf_room_def)

lemma same_rooms_current: "same_rooms w w' \<Longrightarrow> current a w' = current a w"
  by (simp add: same_rooms_def current_def)

section \<open>Operations keep the invariant\<close>

definition wf_opening :: "nat \<Rightarrow> world \<Rightarrow> bool" where
  "wf_opening room w \<longleftrightarrow>
     gm_wf (rooms w) \<and> gm_len (rooms w) \<le> rm_maxRooms (w_manager w) \<and> current room w \<and>
     room < w_next w \<and> gm_wf (r_peers (w_room w room)) \<and>
     (\<forall>k p. gm_get (r_peers (w_room w room)) k = Some p \<longrightarrow> p_ID (w_peer w p) = k) \<and>
     (\<forall>i a. gm_get (rooms w) i = Some a \<longrightarrow> a \<noteq> room \<longrightarrow> wf_room w i a) \<and>
     (\<forall>i. gm_get (rooms w) i = Some room \<longrightarrow> i = r_ID (w_room w room)) \<and>
     gm_len (r_peers (w_room w room)) \<le> r_MaxPeers (w_room w room)"

lemma same_rooms_opening: "same_rooms w w' \<Longrightarrow> wf_opening room w \<Longrightarrow> wf_opening room w'"
  by (simp add: same_rooms_def wf_opening_def wf_room_def current_def)

lemma wf_rooms_opening: "wf_rooms w \<Longrightarrow> gm_get (rooms w) i = Some room \<Longrightarrow> wf_opening room w"
  by (auto simp: wf_rooms_def wf_opening_def wf_room_def current_def)

lemma opening_wf_rooms: "wf_opening room w \<Longrightarrow> 0 < gm_len (r_peers (w_room w room)) \<Longrightarrow> wf_rooms w"
  unfolding wf_rooms_def wf_opening_def
  by (metis (no_types, lifting) wf_room_def)

lemma wf_room_set_rooms [simp]: "wf_room (set_rooms m w) i a = wf_room w i a"
  by (simp add: wf_room_def set_rooms_def)

lemma opening_delete:
  assumes "wf_opening room w"
  shows "wf_rooms (set_rooms (gm_delete (r_ID (w_room w room)) (rooms w)) w)"
proof -
  have "wf_room w i a" if "gm_get (rooms w) i = Some a" "i \<noteq> r_ID (w_room w room)" for i a
    using assms that by (cases "a = room") (auto simp: wf_opening_def)
  moreover have "gm_len (gm_delete (r_ID (w_room w room)) (rooms w)) \<le> rm_maxRooms (w_manager w)"
    using assms by (intro gm.bounded_del) (simp_all add: wf_opening_def)
  ultimately show ?thesis
    using assms unfolding wf_rooms_def wf_room_set_rooms by (simp add: wf_opening_def set_rooms_def)
qed

definition quiet_acceptor :: "acceptor option \<Rightarrow> bool" where
  "quiet_acceptor accept \<longleftrightarrow>
     (case accept of None \<Rightarrow> True | Some f \<Rightarrow> (\<forall>i ps w. same_rooms w (snd (f i ps w))))"

lemma accept_same:
  "quiet_acceptor accept \<Longrightarrow> (case accept of None \<Rightarrow> (None, w) | Some f \<Rightarrow> f i ps w) = (err, w1) \<Longrightarrow> same_rooms w w1"
  by (auto simp: quiet_acceptor_def split: option.splits) (metis snd_conv)

lemma admitInto_wf:
  assumes wf: "wf_opening room w" and room: "gm_len (r_peers (w_room w room)) < r_MaxPeers (w_room w room)"
    and quiet: "quiet_acceptor accept"
  shows "wf_rooms (snd (admitInto rng room peer accept w))"
proof -
  let ?ex = "peerInfoSnapshot rng (w_peer w) (r_peers (w_room w room)) []"
  obtain err w1 where acc: "(case accept of None \<Rightarrow> (None, w) | Some f \<Rightarrow> f (r_ID (w_room w room)) ?ex w) = (err, w1)"
    by fastforce
  have same: "same_rooms w w1"
    by (rule accept_same [OF quiet acc])
  with wf room have wf1: "wf_opening room w1"
    and room1: "gm_len (r_peers (w_room w1 room)) < r_MaxPeers (w_room w1 room)"
    by (auto intro: same_rooms_opening simp: same_rooms_def)
  let ?r = "w_room w1 room"
  show ?thesis
  proof (cases err)
    case None
    let ?w2 = "set_room room (?r\<lparr>r_peers := gm_set (p_ID (w_peer w1 peer)) peer (r_peers ?r)\<rparr>) w1"
    have "gm_len (gm_set (p_ID (w_peer w1 peer)) peer (r_peers ?r)) \<le> r_MaxPeers ?r"
      and "0 < gm_len (gm_set (p_ID (w_peer w1 peer)) peer (r_peers ?r))"
      using gm.bounded_put [of "r_peers ?r"] wf1 room1
      by (auto simp: wf_opening_def gm_len_set gm_set_def gm_len_def)
    with wf1 have "wf_opening room ?w2" "0 < gm_len (r_peers (w_room ?w2 room))"
      by (auto simp: wf_opening_def current_def set_room_def wf_room_def)
    then have "wf_rooms ?w2" by (rule opening_wf_rooms)
    with acc None room show ?thesis by (simp add: admitInto_def Let_def)
  next
    case (Some e)
    show ?thesis
    proof (cases "gm_len (r_peers ?r) = 0")
      case True
      let ?w2 = "set_rooms (gm_delete (r_ID ?r) (rooms w1)) w1"
      have "wf_rooms ?w2" by (rule opening_delete [OF wf1])
      with acc Some True room show ?thesis by (simp add: admitInto_def Let_def)
    next
      case False
      then have "0 < gm_len (r_peers ?r)" using gm_len_nonneg [of "r_peers ?r"] by linarith
      with wf1 have "wf_rooms w1" by (rule opening_wf_rooms)
      with acc Some False room show ?thesis by (simp add: admitInto_def Let_def)
    qed
  qed
qed

lemma new_room_opening:
  assumes wf: "wf_rooms w" and max: "gm_len (rooms w) < rm_maxRooms (w_manager w)" and "0 \<le> maxPeers"
  shows "wf_opening (w_next w)
    (set_rooms (gm_set newID (w_next w) (rooms w))
      (set_room (w_next w) \<lparr>r_ID = newID, r_MaxPeers = maxPeers, r_peers = gm_empty\<rparr> (w\<lparr>w_next := Suc (w_next w)\<rparr>)))"
proof -
  have old: "a < w_next w \<and> wf_room w i a" if "gm_get (rooms w) i = Some a" for i a
    using wf that by (auto simp: wf_rooms_def wf_room_def)
  have "gm_len (gm_set newID (w_next w) (rooms w)) \<le> rm_maxRooms (w_manager w)"
    using wf max by (intro gm.bounded_put) (simp_all add: wf_rooms_def)
  then show ?thesis
    using assms(3) wf
    by (auto simp: wf_opening_def wf_rooms_def wf_room_def current_def set_rooms_def set_room_def
        dest!: old)
qed

lemma Admit_wf:
  assumes "wf_rooms w" and "1 \<le> maxPeers" and "quiet_acceptor accept"
  shows "wf_rooms (snd (Admit rng newID req maxPeers peer accept w))"
proof (cases "req = ''new''")
  case True
  show ?thesis
  proof (cases "rm_maxRooms (w_manager w) \<le> gm_len (rooms w)")
    case False
    let ?w1 = "set_rooms (gm_set newID (w_next w) (rooms w))
      (set_room (w_next w) \<lparr>r_ID = newID, r_MaxPeers = maxPeers, r_peers = gm_empty\<rparr> (w\<lparr>w_next := Suc (w_next w)\<rparr>))"
    have "wf_opening (w_next w) ?w1"
      using assms False by (intro new_room_opening) simp_all
    moreover have "gm_len (r_peers (w_room ?w1 (w_next w))) < r_MaxPeers (w_room ?w1 (w_next w))"
      using assms(2) by (simp add: set_rooms_def set_room_def)
    ultimately have "wf_rooms (snd (admitInto rng (w_next w) peer accept ?w1))"
      using assms(3) by (rule admitInto_wf)
    with True False show ?thesis by (simp add: Admit_def Let_def)
  qed (use assms True in \<open>simp add: Admit_def\<close>)
next
  case False
  show ?thesis
  proof (cases "gm_get (rooms w) req")
    case (Some room)
    then have "wf_opening room w" using assms(1) by (blast intro: wf_rooms_opening)
    then have "wf_rooms (snd (admitInto rng room peer accept w))"
      using admitInto_wf [OF _ _ assms(3), of room w rng peer] assms(1)
      by (cases "r_MaxPeers (w_room w room) \<le> gm_len (r_peers (w_room w room))") (simp_all add: admitInto_def)
    with False Some show ?thesis by (simp add: Admit_def)
  qed (use assms False in \<open>simp add: Admit_def\<close>)
qed

lemma Leave_wf:
  assumes "wf_rooms w"
  shows "wf_rooms (snd (Leave rng room pid w))"
proof (cases "\<exists>a. room = Some a \<and> current a w")
  case True
  then obtain a where a: "room = Some a" "current a w" by blast
  let ?r = "w_room w a"
  let ?ps = "gm_delete pid (r_peers ?r)"
  let ?w1 = "set_room a (?r\<lparr>r_peers := ?ps\<rparr>) w"
  from a(2) assms have op: "wf_opening a w" by (auto simp: current_def intro: wf_rooms_opening)
  have len: "gm_len ?ps \<le> r_MaxPeers ?r"
    using op by (intro gm.bounded_del) (simp_all add: wf_opening_def)
  have op1: "wf_opening a ?w1"
    using op len by (auto simp: wf_opening_def current_def set_room_def wf_room_def split: if_splits)
  show ?thesis
  proof (cases "gm_len ?ps = 0")
    case True
    have "wf_rooms (set_rooms (gm_delete (r_ID ?r) (rooms ?w1)) ?w1)"
      using opening_delete [OF op1] by (simp add: set_room_def)
    with a True show ?thesis by (simp add: Leave_def Let_def)
  next
    case False
    then have "0 < gm_len ?ps" using gm_len_nonneg [of ?ps] by linarith
    then have "wf_rooms ?w1" by (intro opening_wf_rooms [OF op1]) (simp add: set_room_def)
    with a False show ?thesis by (simp add: Leave_def Let_def)
  qed
next
  case False
  then show ?thesis using assms by (auto simp: Leave_def split: option.splits)
qed

lemma Broadcast_same: "same_rooms w (snd (Broadcast rng room m ex w))"
  by (simp add: Broadcast_def same_rooms_enqueueAll)

lemma Route_same: "same_rooms w (snd (Route room target m w))"
  by (simp add: Route_def same_rooms_enqueue split: option.splits)

section \<open>An abstract specification of membership\<close>

text \<open>Abstractly the manager is a map from room identifiers to sets of peer identifiers, in
  which no set is empty.\<close>

type_synonym membership = "string \<Rightarrow> string set option"

definition members :: "world \<Rightarrow> membership" where
  "members w i = map_option (\<lambda>a. {k. gm_get (r_peers (w_room w a)) k \<noteq> None}) (gm_get (rooms w) i)"

definition spec_admit :: "string \<Rightarrow> string \<Rightarrow> membership \<Rightarrow> membership" where
  "spec_admit i p M = M(i \<mapsto> insert p (case M i of None \<Rightarrow> {} | Some ps \<Rightarrow> ps))"

definition spec_leave :: "string \<Rightarrow> string \<Rightarrow> membership \<Rightarrow> membership" where
  "spec_leave i p M =
     (case M i of
        None \<Rightarrow> M
      | Some ps \<Rightarrow> if ps - {p} = {} then M(i := None) else M(i \<mapsto> ps - {p}))"

lemma members_same: "same_rooms w w' \<Longrightarrow> members w' = members w"
  by (rule ext) (simp add: members_def same_rooms_def)

lemma gm_empty_iff: "gm_wf m \<Longrightarrow> gm_len m = 0 \<longleftrightarrow> {k. gm_get m k \<noteq> None} = {}"
  by (cases m) (auto simp: gm_len_def gm_get_def split: if_splits)

lemma wf_rooms_ref: "wf_rooms w \<Longrightarrow> gm_get (rooms w) i = Some a \<Longrightarrow> r_ID (w_room w a) = i \<and> current a w"
  by (auto simp: wf_rooms_def wf_room_def current_def)

lemma opening_ref:
  "wf_opening room w \<Longrightarrow> gm_get (rooms w) i = Some room \<longleftrightarrow> i = r_ID (w_room w room)"
  by (auto simp: wf_opening_def current_def)

lemma members_set_room:
  assumes "wf_opening room w"
  shows "members (set_room room ((w_room w room)\<lparr>r_peers := ps\<rparr>) w) =
    (members w)(r_ID (w_room w room) \<mapsto> {k. gm_get ps k \<noteq> None})"
proof
  fix i
  show "members (set_room room ((w_room w room)\<lparr>r_peers := ps\<rparr>) w) i =
    ((members w)(r_ID (w_room w room) \<mapsto> {k. gm_get ps k \<noteq> None})) i"
    using opening_ref [OF assms, of i]
    by (cases "gm_get (rooms w) i") (auto simp: members_def set_room_def)
qed

lemma members_delete: "members (set_rooms (gm_delete i (rooms w)) w) = (members w)(i := None)"
  by (rule ext) (simp add: members_def set_rooms_def)

lemma admitInto_members:
  assumes op: "wf_opening room w" and quiet: "quiet_acceptor accept"
  shows "admitInto rng room peer accept w = (Inr room', w') \<Longrightarrow>
      room' = room \<and> members w' = spec_admit (r_ID (w_room w room)) (p_ID (w_peer w peer)) (members w)"
    and "admitInto rng room peer accept w = (Inl e, w') \<Longrightarrow>
      members w' = members w \<or>
      r_peers (w_room w room) = [] \<and> members w' = (members w)(r_ID (w_room w room) := None)"
proof -
  let ?ex = "peerInfoSnapshot rng (w_peer w) (r_peers (w_room w room)) []"
  obtain err w1 where acc: "(case accept of None \<Rightarrow> (None, w) | Some f \<Rightarrow> f (r_ID (w_room w room)) ?ex w) = (err, w1)"
    by fastforce
  have same: "same_rooms w w1"
    by (rule accept_same [OF quiet acc])
  then have op1: "wf_opening room w1" by (rule same_rooms_opening [OF _ op])
  have eq: "w_room w1 = w_room w" "p_ID (w_peer w1 a) = p_ID (w_peer w a)" "members w1 = members w" for a
    using same members_same [OF same] by (simp_all add: same_rooms_def)
  have mem: "members w (r_ID (w_room w room)) = Some {k. gm_get (r_peers (w_room w room)) k \<noteq> None}"
    using op by (simp add: members_def wf_opening_def current_def)
  { assume "admitInto rng room peer accept w = (Inr room', w')"
    then have "room' = room" "w' = set_room room ((w_room w1 room)\<lparr>r_peers :=
        gm_set (p_ID (w_peer w1 peer)) peer (r_peers (w_room w1 room))\<rparr>) w1"
      using acc by (auto simp: admitInto_def Let_def split: if_splits option.splits)
    then show "room' = room \<and> members w' = spec_admit (r_ID (w_room w room)) (p_ID (w_peer w peer)) (members w)"
      using members_set_room [OF op1] mem eq
      by (auto simp: spec_admit_def split: if_splits intro!: arg_cong [of _ _ "\<lambda>S. (members w)(r_ID (w_room w room) \<mapsto> S)"]) }
  { assume "admitInto rng room peer accept w = (Inl e, w')"
    then have "w' = w \<or> w' = w1 \<or> gm_len (r_peers (w_room w1 room)) = 0 \<and>
        w' = set_rooms (gm_delete (r_ID (w_room w1 room)) (rooms w1)) w1"
      using acc by (auto simp: admitInto_def Let_def split: if_splits option.splits)
    then show "members w' = members w \<or>
      r_peers (w_room w room) = [] \<and> members w' = (members w)(r_ID (w_room w room) := None)"
      using eq by (auto simp: members_delete gm_len_zero) }
qed

lemma Leave_members:
  assumes wf: "wf_rooms w" and "current a w"
  shows "members (snd (Leave rng (Some a) pid w)) = spec_leave (r_ID (w_room w a)) pid (members w)"
proof -
  let ?r = "w_room w a"
  let ?ps = "gm_delete pid (r_peers ?r)"
  let ?w1 = "set_room a (?r\<lparr>r_peers := ?ps\<rparr>) w"
  from assms have op: "wf_opening a w" by (auto simp: current_def intro: wf_rooms_opening)
  have mem: "members w (r_ID ?r) = Some {k. gm_get (r_peers ?r) k \<noteq> None}"
    using assms(2) by (simp add: members_def current_def)
  have diff: "{k. gm_get ?ps k \<noteq> None} = {k. gm_get (r_peers ?r) k \<noteq> None} - {pid}" by auto
  have m1: "members ?w1 = (members w)(r_ID ?r \<mapsto> {k. gm_get (r_peers ?r) k \<noteq> None} - {pid})"
    using members_set_room [OF op, of ?ps] diff by simp
  have empty: "gm_len ?ps = 0 \<longleftrightarrow> {k. gm_get (r_peers ?r) k \<noteq> None} - {pid} = {}"
    unfolding diff [symmetric] using op by (intro gm_empty_iff) (simp add: wf_opening_def)
  have del: "members (set_rooms (gm_delete (r_ID ?r) (rooms ?w1)) ?w1) = (members w)(r_ID ?r := None)"
    using members_delete [of "r_ID ?r" ?w1] m1 by simp
  from assms(2) empty mem m1 del show ?thesis
    by (simp add: Leave_def Let_def spec_leave_def)
qed

section \<open>Who is reached\<close>

definition delivered :: "SignalingMessage \<Rightarrow> Peer \<Rightarrow> Peer" where
  "delivered m p =
     (if int (length (p_Send p)) < peerQueueSize
      then p\<lparr>p_Send := p_Send p @ [\<lparr>o_message = m, o_result = False\<rparr>]\<rparr>
      else p\<lparr>p_cancelled := True\<rparr>)"

lemma enqueue_delivered: "w_peer (snd (enqueue a m w)) = (w_peer w)(a := delivered m (w_peer w a))"
  by (simp add: enqueue_def delivered_def Let_def set_peer_def peer_Cancel_def)

lemma enqueueAll_delivered:
  "distinct as \<Longrightarrow> w_peer (snd (enqueueAll as m w)) b = (if b \<in> set as then delivered m (w_peer w b) else w_peer w b)"
proof (induction as m w rule: enqueueAll.induct)
  case (2 a as m w)
  obtain err w1 where e: "enqueue a m w = (err, w1)" by (cases "enqueue a m w")
  with enqueue_delivered [of a m w] have "w_peer w1 = (w_peer w)(a := delivered m (w_peer w a))" by simp
  with 2(1) [OF e [symmetric]] 2(2) e show ?case by (auto split: prod.splits)
qed simp

lemma rng_set: "iteration_order rng \<Longrightarrow> set (rng xs) = set xs"
  unfolding iteration_order_def by (metis set_mset_mset)

lemma rng_distinct: "iteration_order rng \<Longrightarrow> distinct (map f xs) \<Longrightarrow> distinct (map f (rng xs))"
  unfolding iteration_order_def by (metis mset_map mset_eq_imp_distinct_iff)

lemma room_refs_distinct:
  assumes "gm_wf ps" and "\<forall>k p. gm_get ps k = Some p \<longrightarrow> p_ID (w_peer w p) = k"
  shows "distinct (map snd ps)"
proof -
  have "inj_on snd (set ps)"
  proof (rule inj_onI)
    fix x y assume xy: "x \<in> set ps" "y \<in> set ps" "snd x = snd y"
    then have "gm_get ps (fst x) = Some (snd x)" "gm_get ps (fst y) = Some (snd x)"
      using gm_mem_get [OF assms(1)] by (metis prod.collapse)+
    with assms(2) have "fst x = fst y" by metis
    with xy show "x = y" by (simp add: prod_eq_iff)
  qed
  moreover have "distinct ps" using assms(1) by (simp add: gm_wf_def distinct_map)
  ultimately show ?thesis by (simp add: distinct_map)
qed

lemma peerSnapshot_distinct:
  "iteration_order rng \<Longrightarrow> distinct (map snd ps) \<Longrightarrow> distinct (peerSnapshot rng ps ex)"
  using rng_distinct [of rng snd ps] by (simp add: peerSnapshot_def distinct_map_filter)

lemma peerSnapshot_set:
  "iteration_order rng \<Longrightarrow> gm_wf ps \<Longrightarrow> set (peerSnapshot rng ps ex) = {p. \<exists>k. k \<noteq> ex \<and> gm_get ps k = Some p}"
proof -
  assume "iteration_order rng" "gm_wf ps"
  then have "(k, p) \<in> set (rng ps) \<longleftrightarrow> gm_get ps k = Some p" for k p
    using rng_set gm_get_mem gm_mem_get by metis
  then show ?thesis by (force simp: peerSnapshot_def image_iff)
qed

section \<open>Effects of an admission\<close>

lemma admitInto_effect:
  assumes quiet: "quiet_acceptor accept"
  shows "admitInto rng room peer accept w = (Inr room', w') \<Longrightarrow>
      room' = room \<and>
      same_rooms (set_room room ((w_room w room)\<lparr>r_peers :=
        gm_set (p_ID (w_peer w peer)) peer (r_peers (w_room w room))\<rparr>) w) w'"
    and "admitInto rng room peer accept w = (Inl e, w') \<Longrightarrow>
      same_rooms w w' \<or>
      r_peers (w_room w room) = [] \<and>
        same_rooms (set_rooms (gm_delete (r_ID (w_room w room)) (rooms w)) w) w'"
proof -
  let ?ex = "peerInfoSnapshot rng (w_peer w) (r_peers (w_room w room)) []"
  obtain err w1 where acc: "(case accept of None \<Rightarrow> (None, w) | Some f \<Rightarrow> f (r_ID (w_room w room)) ?ex w) = (err, w1)"
    by fastforce
  have same: "same_rooms w w1"
    by (rule accept_same [OF quiet acc])
  { assume "admitInto rng room peer accept w = (Inr room', w')"
    then have "room' = room" "w' = set_room room ((w_room w1 room)\<lparr>r_peers :=
        gm_set (p_ID (w_peer w1 peer)) peer (r_peers (w_room w1 room))\<rparr>) w1"
      using acc by (auto simp: admitInto_def Let_def split: if_splits option.splits)
    with same show "room' = room \<and>
      same_rooms (set_room room ((w_room w room)\<lparr>r_peers :=
        gm_set (p_ID (w_peer w peer)) peer (r_peers (w_room w room))\<rparr>) w) w'"
      by (simp add: same_rooms_def set_room_def) }
  { assume "admitInto rng room peer accept w = (Inl e, w')"
    then have "w' = w \<or> w' = w1 \<or> gm_len (r_peers (w_room w1 room)) = 0 \<and>
        w' = set_rooms (gm_delete (r_ID (w_room w1 room)) (rooms w1)) w1"
      using acc by (auto simp: admitInto_def Let_def split: if_splits option.splits)
    with same show "same_rooms w w' \<or>
      r_peers (w_room w room) = [] \<and>
        same_rooms (set_rooms (gm_delete (r_ID (w_room w room)) (rooms w)) w) w'"
      by (auto simp: same_rooms_def set_rooms_def gm_len_zero) }
qed

lemma admitInto_empty:
  assumes quiet: "quiet_acceptor accept" and "admitInto rng room peer accept w = (Inl e, w')"
    and "r_peers (w_room w room) = []" and "\<not> r_MaxPeers (w_room w room) \<le> gm_len (r_peers (w_room w room))"
  shows "same_rooms (set_rooms (gm_delete (r_ID (w_room w room)) (rooms w)) w) w'"
proof -
  let ?ex = "peerInfoSnapshot rng (w_peer w) (r_peers (w_room w room)) []"
  obtain err w1 where acc: "(case accept of None \<Rightarrow> (None, w) | Some f \<Rightarrow> f (r_ID (w_room w room)) ?ex w) = (err, w1)"
    by fastforce
  have same: "same_rooms w w1"
    by (rule accept_same [OF quiet acc])
  then have "gm_len (r_peers (w_room w1 room)) = 0" using assms(3) by (simp add: same_rooms_def gm_len_def)
  with assms(2,4) acc have "w' = set_rooms (gm_delete (r_ID (w_room w1 room)) (rooms w1)) w1"
    by (auto simp: admitInto_def Let_def split: option.splits)
  with same show ?thesis by (simp add: same_rooms_def set_rooms_def)
qed

definition with_new_room :: "string \<Rightarrow> int \<Rightarrow> world \<Rightarrow> world" where
  "with_new_room newID maxPeers w =
     set_rooms (gm_set newID (w_next w) (rooms w))
       (set_room (w_next w) \<lparr>r_ID = newID, r_MaxPeers = maxPeers, r_peers = gm_empty\<rparr> (w\<lparr>w_next := Suc (w_next w)\<rparr>))"

lemma Admit_success:
  assumes "Admit rng newID req maxPeers peer accept w = (Inr room, w')" and "quiet_acceptor accept"
  shows "\<exists>w0. (req = ''new'' \<and> w0 = with_new_room newID maxPeers w \<and> room = w_next w \<or>
               req \<noteq> ''new'' \<and> w0 = w \<and> gm_get (rooms w) req = Some room) \<and>
    same_rooms (set_room room ((w_room w0 room)\<lparr>r_peers :=
      gm_set (p_ID (w_peer w peer)) peer (r_peers (w_room w0 room))\<rparr>) w0) w'"
proof (cases "req = ''new''")
  case True
  let ?w0 = "with_new_room newID maxPeers w"
  from assms(1) True have a: "admitInto rng (w_next w) peer accept ?w0 = (Inr room, w')"
    by (auto simp: Admit_def with_new_room_def Let_def split: if_splits)
  have "p_ID (w_peer ?w0 peer) = p_ID (w_peer w peer)"
    by (simp add: with_new_room_def set_rooms_def set_room_def)
  with admitInto_effect(1) [OF assms(2) a] True show ?thesis by auto
next
  case False
  with assms(1) obtain r where r: "gm_get (rooms w) req = Some r" "admitInto rng r peer accept w = (Inr room, w')"
    by (auto simp: Admit_def split: option.splits)
  with admitInto_effect(1) [OF assms(2) r(2)] False show ?thesis by auto
qed

lemma Admit_failure:
  assumes "Admit rng newID req maxPeers peer accept w = (Inl e, w')" and "quiet_acceptor accept"
    and wf: "wf_rooms w" and fresh: "gm_get (rooms w) newID = None" and "1 \<le> maxPeers"
  shows "same_rooms w w' \<or>
    same_rooms (set_room (w_next w) \<lparr>r_ID = newID, r_MaxPeers = maxPeers, r_peers = gm_empty\<rparr>
      (w\<lparr>w_next := Suc (w_next w)\<rparr>)) w'"
proof (cases "req = ''new'' \<and> \<not> rm_maxRooms (w_manager w) \<le> gm_len (rooms w)")
  case True
  let ?w0 = "with_new_room newID maxPeers w"
  let ?w1 = "set_room (w_next w) \<lparr>r_ID = newID, r_MaxPeers = maxPeers, r_peers = gm_empty\<rparr> (w\<lparr>w_next := Suc (w_next w)\<rparr>)"
  from assms(1) True have a: "admitInto rng (w_next w) peer accept ?w0 = (Inl e, w')"
    by (auto simp: Admit_def with_new_room_def Let_def)
  have room: "w_room ?w0 (w_next w) = \<lparr>r_ID = newID, r_MaxPeers = maxPeers, r_peers = gm_empty\<rparr>"
    by (simp add: with_new_room_def set_rooms_def set_room_def)
  then have "\<not> r_MaxPeers (w_room ?w0 (w_next w)) \<le> gm_len (r_peers (w_room ?w0 (w_next w)))"
    using assms(5) by simp
  then have "same_rooms (set_rooms (gm_delete newID (rooms ?w0)) ?w0) w'"
    using a admitInto_empty [OF assms(2), of rng "w_next w" peer ?w0 e w'] room by (simp add: gm_empty_def)
  moreover have "gm_delete newID (rooms ?w0) = rooms w"
    using gm_delete_absent [OF fresh]
    by (simp add: with_new_room_def set_rooms_def set_room_def gm_set_def gm_delete_def)
  ultimately show ?thesis
    by (auto simp: same_rooms_def set_rooms_def set_room_def with_new_room_def)
next
  case False
  show ?thesis
  proof (cases "req = ''new''")
    case True
    with False assms(1) show ?thesis by (auto simp: Admit_def)
  next
    case new: False
    show ?thesis
    proof (cases "gm_get (rooms w) req")
      case None
      with new assms(1) show ?thesis by (auto simp: Admit_def)
    next
      case (Some r)
      with new assms(1) have a: "admitInto rng r peer accept w = (Inl e, w')" by (simp add: Admit_def)
      have "r_peers (w_room w r) \<noteq> []" using wf Some by (auto simp: wf_rooms_def wf_room_def gm_len_def)
      with admitInto_effect(2) [OF assms(2) a] show ?thesis by blast
    qed
  qed
qed

section \<open>Properties\<close>

lemma members_with_new_room:
  assumes "wf_rooms w" "gm_get (rooms w) newID = None"
  shows "members (with_new_room newID maxPeers w) = (members w)(newID \<mapsto> {})"
proof
  fix i
  have "a \<noteq> w_next w" if "gm_get (rooms w) i = Some a" for a
    using assms(1) that by (auto simp: wf_rooms_def wf_room_def)
  then show "members (with_new_room newID maxPeers w) i = ((members w)(newID \<mapsto> {})) i"
    by (cases "gm_get (rooms w) i") (auto simp: members_def with_new_room_def set_rooms_def set_room_def)
qed

lemma Admit_members_success:
  assumes adm: "Admit rng newID req maxPeers peer accept w = (Inr room, w')" and quiet: "quiet_acceptor accept"
    and wf: "wf_rooms w" and fresh: "gm_get (rooms w) newID = None" and pos: "1 \<le> maxPeers"
  shows "members w' = spec_admit (if req = ''new'' then newID else req) (p_ID (w_peer w peer)) (members w)"
proof (cases "req = ''new''")
  case True
  let ?w0 = "with_new_room newID maxPeers w"
  from adm True have max: "gm_len (rooms w) < rm_maxRooms (w_manager w)"
    and a: "admitInto rng (w_next w) peer accept ?w0 = (Inr room, w')"
    by (auto simp: Admit_def with_new_room_def Let_def split: if_splits)
  have "wf_opening (w_next w) ?w0"
    unfolding with_new_room_def using pos by (intro new_room_opening [OF wf max]) simp
  from admitInto_members(1) [OF this quiet a]
  have "members w' = spec_admit newID (p_ID (w_peer w peer)) ((members w)(newID \<mapsto> {}))"
    using members_with_new_room [OF wf fresh] by (simp add: with_new_room_def set_rooms_def set_room_def)
  with True fresh show ?thesis by (auto simp: spec_admit_def members_def)
next
  case False
  with adm obtain r where r: "gm_get (rooms w) req = Some r" "admitInto rng r peer accept w = (Inr room, w')"
    by (auto simp: Admit_def split: option.splits)
  from admitInto_members(1) [OF wf_rooms_opening [OF wf r(1)] quiet r(2)] wf_rooms_ref [OF wf r(1)] False
  show ?thesis by simp
qed

lemma members_unlisted:
  assumes "wf_rooms w"
  shows "members (set_room (w_next w) r (w\<lparr>w_next := n\<rparr>)) = members w"
proof
  fix i
  have "a \<noteq> w_next w" if "gm_get (rooms w) i = Some a" for a
    using assms that by (auto simp: wf_rooms_def wf_room_def)
  then show "members (set_room (w_next w) r (w\<lparr>w_next := n\<rparr>)) i = members w i"
    by (cases "gm_get (rooms w) i") (auto simp: members_def set_room_def)
qed

text \<open>C15: The room manager refines a map from room identifiers to sets of peer identifiers: an
  admission that succeeds adds the peer to the requested room (to a room of its own when it asks for
  \<^verbatim>\<open>new\<close>), an admission that fails, also because the acceptance could not be sent, leaves
  every room as it was, and both keep the invariant of the manager.\<close>

theorem Admit_refines:
  assumes "wf_rooms w" and "gm_get (rooms w) newID = None" and "1 \<le> maxPeers" and "quiet_acceptor accept"
    and "Admit rng newID req maxPeers peer accept w = (result, w')"
  shows "wf_rooms w' \<and>
    members w' = (case result of
       Inr room \<Rightarrow> spec_admit (if req = ''new'' then newID else req) (p_ID (w_peer w peer)) (members w)
     | Inl e \<Rightarrow> members w)"
proof (cases result)
  case (Inl e)
  from Admit_failure [OF assms(5) [unfolded Inl] assms(4,1,2,3)] have "members w' = members w"
    using members_same members_unlisted [OF assms(1)] by metis
  with Inl assms(5) Admit_wf [OF assms(1,3,4), of rng newID req peer] show ?thesis by simp
next
  case (Inr room)
  with Admit_members_success [OF assms(5) [unfolded Inr] assms(4,1,2,3)]
    assms(5) Admit_wf [OF assms(1,3,4), of rng newID req peer] show ?thesis by simp
qed

text \<open>C16: Leaving refines the same specification. A handler whose room is no longer the
  registered one changes nothing and gets nobody to notify; otherwise the peer is removed, an empty
  room disappears, and the peers to notify are exactly the remaining members, each once.\<close>

theorem Leave_refines:
  assumes wf: "wf_rooms w" and rng: "iteration_order rng" and "Leave rng (Some a) pid w = (remaining, w')"
    and named: "\<forall>k p. gm_get (r_peers (w_room w a)) k = Some p \<longrightarrow> k \<noteq> []"
  shows "if current a w
    then members w' = spec_leave (r_ID (w_room w a)) pid (members w) \<and> distinct remaining \<and>
         set remaining = {p. \<exists>k. k \<noteq> pid \<and> gm_get (r_peers (w_room w a)) k = Some p}
    else w' = w \<and> remaining = []"
proof (cases "current a w")
  case True
  from True wf have r: "wf_room w (r_ID (w_room w a)) a" by (simp add: wf_rooms_def current_def)
  let ?ps = "gm_delete pid (r_peers (w_room w a))"
  have rem: "remaining = peerSnapshot rng ?ps []" using assms(3) True by (auto simp: Leave_def Let_def)
  have d: "distinct (map snd ?ps)"
    using r by (intro room_refs_distinct [of _ w]) (auto simp: wf_room_def split: if_splits)
  have wfp: "gm_wf ?ps" using r by (simp add: wf_room_def)
  show ?thesis
    using Leave_members [OF wf True, of rng pid] assms(3) True named peerSnapshot_distinct [OF rng d]
      peerSnapshot_set [OF rng wfp] unfolding rem by (auto split: if_splits)
next
  case False
  with assms(3) show ?thesis by (simp add: Leave_def)
qed

text \<open>C28: A broadcast appends the message once to the queue of every other member of the room and
  to no other queue; a member whose queue of 256 messages is full is cancelled instead of
  blocking the sender, and every other peer is untouched.\<close>

theorem Broadcast_exact:
  assumes "wf_rooms w" and "iteration_order rng"
  shows "w_peer (snd (Broadcast rng room m ex w)) b =
    (if current room w \<and> (\<exists>k. k \<noteq> ex \<and> gm_get (r_peers (w_room w room)) k = Some b)
     then delivered m (w_peer w b) else w_peer w b)"
proof (cases "current room w")
  case True
  with assms have r: "wf_room w (r_ID (w_room w room)) room" by (simp add: wf_rooms_def current_def)
  let ?ps = "r_peers (w_room w room)"
  have d: "distinct (map snd ?ps)" using r by (intro room_refs_distinct [of _ w]) (auto simp: wf_room_def)
  have "gm_wf ?ps" using r by (simp add: wf_room_def)
  from enqueueAll_delivered [OF peerSnapshot_distinct [OF assms(2) d], of ex m w b] peerSnapshot_set [OF assms(2) this, of ex]
  show ?thesis using True by (simp add: Broadcast_def roomPeers_def)
qed (simp add: Broadcast_def roomPeers_def)

section \<open>A concrete manager\<close>

definition sample_world :: world where
  "sample_world =
     \<lparr>w_manager = \<lparr>rm_rooms = [(''r'', 0)], rm_maxRooms = 2\<rparr>,
      w_room = (\<lambda>_. \<lparr>r_ID = ''r'', r_MaxPeers = 3, r_peers = [(''a'', 0), (''b'', 1)]\<rparr>),
      w_peer = (\<lambda>n. \<lparr>p_ID = (if n = 0 then ''a'' else if n = 1 then ''b'' else ''c''), p_Username = ''u'', p_Send = [], p_cancelled = False\<rparr>),
      w_next = 1\<rparr>"

lemma sample_wf: "wf_rooms sample_world"
  by (auto simp: sample_world_def wf_rooms_def wf_room_def gm_wf_def gm_len_def gm_get_def split: if_splits)

lemma sample_order: "iteration_order (\<lambda>xs. xs)"
  by (simp add: iteration_order_def)

theorem Admit_refines_witness:
  "members (snd (Admit (\<lambda>xs. xs) ''n'' ''r'' 3 2 None sample_world)) =
     spec_admit ''r'' ''c'' (members sample_world)"
proof -
  let ?q = "Admit (\<lambda>xs. xs) ''n'' ''r'' 3 2 None sample_world"
  have "fst ?q = Inr 0" by code_simp
  then have q: "?q = (Inr 0, snd ?q)" by (metis prod.collapse)
  have f: "gm_get (rooms sample_world) ''n'' = None" by code_simp
  show ?thesis
    using Admit_refines [OF sample_wf f _ _ q] by (simp add: quiet_acceptor_def) (simp add: sample_world_def)
qed

theorem Leave_refines_witness:
  "members (snd (Leave (\<lambda>xs. xs) (Some 0) ''a'' sample_world)) = spec_leave ''r'' ''a'' (members sample_world) \<and>
   fst (Leave (\<lambda>xs. xs) (Some 0) ''a'' sample_world) = [1]"
proof -
  let ?q = "Leave (\<lambda>xs. xs) (Some 0) ''a'' sample_world"
  have f: "fst ?q = [1]" by code_simp
  then have q: "?q = ([1], snd ?q)" by (metis prod.collapse)
  have n: "\<forall>k p. gm_get (r_peers (w_room sample_world 0)) k = Some p \<longrightarrow> k \<noteq> []"
    by (simp add: sample_world_def gm_get_def)
  have c: "current 0 sample_world" "r_ID (w_room sample_world 0) = ''r''" by code_simp+
  show ?thesis
    using Leave_refines [OF sample_wf sample_order q n] c f by simp
qed

theorem Broadcast_exact_witness:
  "w_peer (snd (Broadcast (\<lambda>xs. xs) 0 zero_message ''a'' sample_world)) 1 = delivered zero_message (w_peer sample_world 1)"
proof -
  have "current 0 sample_world" by code_simp
  moreover have "gm_get (r_peers (w_room sample_world 0)) ''b'' = Some 1" by code_simp
  ultimately show ?thesis
    using Broadcast_exact [OF sample_wf sample_order, of 0 zero_message "''a''" 1]
    by (auto dest: spec [of _ "''b''"])
qed

end
