(* ===== verification/Signaling_Server.thy ===== *)
theory Signaling_Server
  imports Rooms Turn Go_Float
begin

text \<open>
  The signaling server (\<^verbatim>\<open>internal/signaling/handler.go\<close>). One goroutine per connection runs
  \<open>HandleWebSocket\<close>; they share the room manager and the connection counters. A handler is a
  little machine (\<open>phase\<close>) whose steps are the critical sections and channel operations of
  the code, so that handlers interleave between any two of them. The peer of connection number
  \<open>i\<close> has the address \<open>i\<close> in the heap of \<open>Rooms\<close>. Parameters: the Unicode tables,
  the iteration order of maps, the verdict of the rate limiter (\<^verbatim>\<open>golang.org/x/time/rate\<close>),
  the outcome of the WebSocket library's reads and writes, new UUIDs, the credential issuer, and
  the text of a validation error.
\<close>

section \<open>Configuration and connection limits\<close>

record ServerConfig =
  sc_MaxRoomSize :: int
  sc_MaxRooms :: int
  sc_MaxConnections :: int
  sc_AllowedOrigins :: "string list"
  sc_MaxConnectionsPerIP :: int
  sc_MessageRate :: go_float
  sc_MessageBurst :: int

datatype server_error =
    NoIssuer | SmallRooms | NonPositiveLimits | UncoveredLimits | NonPositivePerIP | NonPositiveRate

record Server =
  sv_world :: world
  sv_config :: ServerConfig
  sv_connections :: "(string, int) gomap"
  sv_totalConnections :: int

definition empty_world :: "int \<Rightarrow> world" where
  "empty_world maxRooms =
     \<lparr>w_manager = NewRoomManager maxRooms,
      w_room = (\<lambda>_. \<lparr>r_ID = [], r_MaxPeers = 0, r_peers = gm_empty\<rparr>),
      w_peer = (\<lambda>_. \<lparr>p_ID = [], p_Username = [], p_Send = [], p_cancelled = False\<rparr>), w_next = 0\<rparr>"

definition NewServer :: "bool \<Rightarrow> ServerConfig \<Rightarrow> (server_error, Server) res" where
  "NewServer hasIssuer config =
     (if \<not> hasIssuer then Inl NoIssuer
      else if sc_MaxRoomSize config < 2 then Inl SmallRooms
      else if sc_MaxRooms config < 1 \<or> sc_MaxConnections config < 1 then Inl NonPositiveLimits
      else if sc_MaxConnections config < sc_MaxConnectionsPerIP config \<or>
              sc_MaxConnections config < sc_MaxRooms config then Inl UncoveredLimits
      else if sc_MaxConnectionsPerIP config < 1 then Inl NonPositivePerIP
      else if float_le (sc_MessageRate config) (Fin 0) \<or> sc_MessageBurst config < 1 then Inl NonPositiveRate
      else Inr \<lparr>sv_world = empty_world (sc_MaxRooms config), sv_config = config,
                sv_connections = gm_empty, sv_totalConnections = 0\<rparr>)"

definition acquireConnection :: "string \<Rightarrow> Server \<Rightarrow> bool \<times> Server" where
  "acquireConnection clientAddress s =
     (if sc_MaxConnections (sv_config s) \<le> sv_totalConnections s \<or>
         sc_MaxConnectionsPerIP (sv_config s) \<le> gm_get0 (sv_connections s) clientAddress
      then (False, s)
      else (True, s\<lparr>sv_connections :=
               gm_set clientAddress (gm_get0 (sv_connections s) clientAddress + 1) (sv_connections s),
             sv_totalConnections := sv_totalConnections s + 1\<rparr>))"

definition releaseConnection :: "string \<Rightarrow> Server \<Rightarrow> Server" where
  "releaseConnection clientAddress s =
     s\<lparr>sv_connections :=
         (if gm_get0 (sv_connections s) clientAddress \<le> 1 then gm_delete clientAddress (sv_connections s)
          else gm_set clientAddress (gm_get0 (sv_connections s) clientAddress - 1) (sv_connections s)),
       sv_totalConnections :=
         (if 0 < sv_totalConnections s then sv_totalConnections s - 1 else sv_totalConnections s)\<rparr>"

text \<open>\<open>clientIP\<close>: \<open>splitHostPort\<close> and \<open>parseIP\<close> are the library's.\<close>

definition clientIP :: "(string \<Rightarrow> string option) \<Rightarrow> (string \<Rightarrow> IP) \<Rightarrow> string \<Rightarrow> string \<Rightarrow> string" where
  "clientIP splitHostPort parseIP remoteAddr forwardedFor =
     (let host = (case splitHostPort remoteAddr of Some h \<Rightarrow> h | None \<Rightarrow> remoteAddr);
          remoteIP = parseIP host
      in if remoteIP = [] \<or> \<not> IsLoopback (Unmap remoteIP) then host
         else let candidate = go_trim_space (hd (split_on (CHR '','') forwardedFor))
              in if parseIP candidate = [] then host else candidate)"

section \<open>Messages to a peer\<close>

definition errorMessage :: "string \<Rightarrow> string \<Rightarrow> (proto_error, SignalingMessage) res" where
  "errorMessage code message =
     (case MarshalPayload (Some (marshal_error \<lparr>ep_Code = code, ep_Message = message\<rparr>)) of
        Inl e \<Rightarrow> Inl e
      | Inr payload \<Rightarrow> Inr ((NewMessage MsgError)\<lparr>m_Payload := payload\<rparr>))"

definition sendError :: "nat \<Rightarrow> string \<Rightarrow> string \<Rightarrow> world \<Rightarrow> world" where
  "sendError peer code message w =
     (case errorMessage code message of
        Inl _ \<Rightarrow> peer_Cancel peer w
      | Inr response \<Rightarrow> snd (enqueue peer response w))"

definition sendFatalError :: "bool \<Rightarrow> nat \<Rightarrow> string \<Rightarrow> string \<Rightarrow> world \<Rightarrow> world" where
  "sendFatalError tookDone peer code message w =
     (case errorMessage code message of
        Inl _ \<Rightarrow> peer_Cancel peer w
      | Inr response \<Rightarrow> snd (enqueueAndWait_queue tookDone peer response w))"

section \<open>The handler\<close>

datatype phase =
    Reading
  | Announcing nat
  | Routing "nat option" SignalingMessage
  | Delivering "nat list" SignalingMessage phase
  | Waiting
  | Exiting
  | Closing
  | Gone

record conn =
  c_addr :: string
  c_room :: "nat option"
  c_phase :: phase

record sys =
  y_server :: Server
  y_conns :: "conn list"

record env =
  v_tables :: unicode_tables
  v_rng :: "(string \<times> nat) list \<Rightarrow> (string \<times> nat) list"
  v_error_text :: "proto_error \<Rightarrow> string"

text \<open>What one read of the connection yields.\<close>

datatype incoming = ReadFailed | NotText | Text string

definition set_world :: "world \<Rightarrow> sys \<Rightarrow> sys" where
  "set_world w y = y\<lparr>y_server := (y_server y)\<lparr>sv_world := w\<rparr>\<rparr>"

definition set_conn :: "nat \<Rightarrow> conn \<Rightarrow> sys \<Rightarrow> sys" where
  "set_conn i c y = y\<lparr>y_conns := (y_conns y)[i := c]\<rparr>"

abbreviation wld :: "sys \<Rightarrow> world" where "wld y \<equiv> sv_world (y_server y)"
abbreviation cfg :: "sys \<Rightarrow> ServerConfig" where "cfg y \<equiv> sv_config (y_server y)"

definition acceptJoin :: "nat \<Rightarrow> ICEServer \<Rightarrow> acceptor" where
  "acceptJoin peer iceServer roomID existingPeers w =
     (case MarshalPayload (Some (marshal_accepted
         \<lparr>ja_RoomID = roomID, ja_PeerID = p_ID (w_peer w peer), ja_Peers = existingPeers, ja_ICEServers = [iceServer]\<rparr>)) of
        Inl e \<Rightarrow> (Some (ErrAccept e), w)
      | Inr payload \<Rightarrow>
          enqueue peer ((NewMessage MsgJoinAccepted)\<lparr>m_RoomID := roomID, m_PeerID := p_ID (w_peer w peer), m_Payload := payload\<rparr>) w)"

text \<open>The branch for \<^verbatim>\<open>join_room\<close>: the room that becomes current, if any, and the world.\<close>

definition handleJoin ::
  "env \<Rightarrow> ServerConfig \<Rightarrow> string \<Rightarrow> (turn_error, ICEServer) res \<Rightarrow> nat \<Rightarrow> nat option \<Rightarrow> SignalingMessage \<Rightarrow> world
    \<Rightarrow> nat option \<times> world" where
  "handleJoin E config newID issued peer currentRoom message w =
     (case currentRoom of
        Some r \<Rightarrow> (None, sendError peer ''already_joined'' ''leave the current room before joining another'' w)
      | None \<Rightarrow>
          (case NormalizeUsername (v_tables E) (m_Username message) of
             Inl _ \<Rightarrow> (None, sendError peer ''invalid_username'' ''username must contain printable characters'' w)
           | Inr username \<Rightarrow>
               let w1 = set_peer peer ((w_peer w peer)\<lparr>p_Username := username\<rparr>) w
               in (case issued of
                     Inl _ \<Rightarrow> (None, sendError peer ''turn_unavailable'' ''relay credentials are unavailable'' w1)
                   | Inr iceServer \<Rightarrow>
                       (case Admit (v_rng E) newID (m_RoomID message) (sc_MaxRoomSize config) peer
                            (Some (acceptJoin peer iceServer)) w1 of
                          (Inr room, w2) \<Rightarrow> (Some room, w2)
                        | (Inl err, w2) \<Rightarrow>
                            (None,
                             if err = ErrRoomFull then sendError peer ''room_full'' ''room is full'' w2
                             else if err = ErrRoomLimit then
                               sendError peer ''server_busy'' ''the server has reached its room limit'' w2
                             else if err = ErrRoomNotFound then
                               sendError peer ''room_not_found'' ''room does not exist'' w2
                             else sendError peer ''join_failed'' ''could not join room'' w2)))))"

text \<open>The message that is forwarded to the target of an offer, an answer or a candidate.\<close>

definition forwarded :: "string \<Rightarrow> SignalingMessage \<Rightarrow> SignalingMessage" where
  "forwarded peerID message =
     message\<lparr>m_Version := Version, m_PeerID := peerID, m_RoomID := [], m_Username := []\<rparr>"

definition routeTarget :: "nat \<Rightarrow> string \<Rightarrow> world \<Rightarrow> nat option" where
  "routeTarget room targetPeerID w =
     (if \<not> current room w then None else gm_get (r_peers (w_room w room)) targetPeerID)"

text \<open>A message that passed validation.\<close>

definition dispatch ::
  "env \<Rightarrow> string \<Rightarrow> (turn_error, ICEServer) res \<Rightarrow> nat \<Rightarrow> SignalingMessage \<Rightarrow> sys \<Rightarrow> sys" where
  "dispatch E newID issued i message y =
     (let c = y_conns y ! i; w = wld y
      in if m_Type message = MsgJoinRoom then
           (case handleJoin E (cfg y) newID issued i (c_room c) message w of
              (Some room, w1) \<Rightarrow> set_conn i (c\<lparr>c_room := Some room, c_phase := Announcing room\<rparr>) (set_world w1 y)
            | (None, w1) \<Rightarrow> set_world w1 y)
         else if m_Type message = MsgOffer \<or> m_Type message = MsgAnswer \<or> m_Type message = MsgICECandidate then
           (case c_room c of
              None \<Rightarrow> set_world (sendError i ''not_joined'' ''join a room before signaling a peer'' w) y
            | Some room \<Rightarrow>
                set_conn i (c\<lparr>c_phase := Routing (routeTarget room (m_PeerID message) w)
                  (forwarded (p_ID (w_peer w i)) message)\<rparr>) y)
         else if m_Type message = MsgLeaveRoom then
           (case c_room c of
              None \<Rightarrow> y
            | Some room \<Rightarrow>
                (case Leave (v_rng E) (Some room) (p_ID (w_peer w i)) w of (remaining, w1) \<Rightarrow>
                   set_conn i (c\<lparr>c_room := None,
                       c_phase := Delivering remaining ((NewMessage MsgPeerLeft)\<lparr>m_PeerID := p_ID (w_peer w i)\<rparr>) Reading\<rparr>)
                     (set_world w1 y)))
         else y)"

definition fatal :: "bool \<Rightarrow> nat \<Rightarrow> string \<Rightarrow> string \<Rightarrow> sys \<Rightarrow> sys" where
  "fatal tookDone i code message y =
     set_conn i ((y_conns y ! i)\<lparr>c_phase := Waiting\<rparr>) (set_world (sendFatalError tookDone i code message (wld y)) y)"

text \<open>One turn of the handler's loop.\<close>

definition readLoop ::
  "env \<Rightarrow> bool \<Rightarrow> bool \<Rightarrow> string \<Rightarrow> (turn_error, ICEServer) res \<Rightarrow> nat \<Rightarrow> incoming \<Rightarrow> sys \<Rightarrow> sys" where
  "readLoop E rateOK tookDone newID issued i incoming y =
     (case incoming of
        ReadFailed \<Rightarrow> set_conn i ((y_conns y ! i)\<lparr>c_phase := Exiting\<rparr>) y
      | NotText \<Rightarrow> fatal tookDone i ''invalid_message'' ''signaling messages must be UTF-8 JSON text'' y
      | Text data \<Rightarrow>
          (case DecodeMessage data of
             Inl _ \<Rightarrow> fatal tookDone i ''invalid_message'' ''signaling message is not valid protocol JSON'' y
           | Inr message \<Rightarrow>
               if \<not> rateOK then fatal tookDone i ''rate_limited'' ''signaling message rate exceeded'' y
               else (case ValidateClientMessage (v_tables E) message of
                   Some e \<Rightarrow>
                     fatal tookDone i (if e = ErrProtocolVersion then ''unsupported_version'' else ''invalid_message'')
                       (v_error_text E e) y
                 | None \<Rightarrow> dispatch E newID issued i message y)))"

text \<open>The steps that follow a turn of the loop.\<close>

definition announce :: "env \<Rightarrow> nat \<Rightarrow> nat \<Rightarrow> sys \<Rightarrow> sys" where
  "announce E i room y =
     (let w = wld y; p = w_peer w i
      in set_conn i ((y_conns y ! i)\<lparr>c_phase :=
            Delivering (roomPeers (v_rng E) room (p_ID p) w)
              ((NewMessage MsgPeerJoined)\<lparr>m_PeerID := p_ID p, m_Username := p_Username p\<rparr>) Reading\<rparr>) y)"

definition deliverNext :: "nat \<Rightarrow> nat \<Rightarrow> nat list \<Rightarrow> SignalingMessage \<Rightarrow> phase \<Rightarrow> sys \<Rightarrow> sys" where
  "deliverNext i a as m k y =
     set_conn i ((y_conns y ! i)\<lparr>c_phase := Delivering as m k\<rparr>) (set_world (snd (enqueue a m (wld y))) y)"

definition routeNext :: "nat \<Rightarrow> nat option \<Rightarrow> SignalingMessage \<Rightarrow> sys \<Rightarrow> sys" where
  "routeNext i target m y =
     (let w = wld y;
          (err, w1) = (case target of None \<Rightarrow> (Some ErrPeerNotFound, w) | Some a \<Rightarrow> enqueue a m w);
          w2 = (if err \<noteq> None then sendError i ''peer_unavailable'' ''target peer is unavailable'' w1 else w1)
      in set_conn i ((y_conns y ! i)\<lparr>c_phase := Reading\<rparr>) (set_world w2 y))"

text \<open>The deferred functions of the handler: leave the room, stop the writer, release the slot.\<close>

definition exitLeave :: "env \<Rightarrow> nat \<Rightarrow> sys \<Rightarrow> sys" where
  "exitLeave E i y =
     (let c = y_conns y ! i; w = wld y
      in case c_room c of
           None \<Rightarrow> set_conn i (c\<lparr>c_phase := Closing\<rparr>) y
         | Some room \<Rightarrow>
             (case Leave (v_rng E) (Some room) (p_ID (w_peer w i)) w of (remaining, w1) \<Rightarrow>
                set_conn i (c\<lparr>c_room := None,
                    c_phase := Delivering remaining ((NewMessage MsgPeerLeft)\<lparr>m_PeerID := p_ID (w_peer w i)\<rparr>) Closing\<rparr>)
                  (set_world w1 y)))"

definition closeConn :: "nat \<Rightarrow> sys \<Rightarrow> sys" where
  "closeConn i y =
     (let y1 = set_world (peer_Cancel i (wld y)) y;
          s = releaseConnection (c_addr (y_conns y ! i)) (y_server y1)
      in set_conn i ((y_conns y ! i)\<lparr>c_phase := Gone\<rparr>) (y1\<lparr>y_server := s\<rparr>))"

text \<open>A new request, with the identifier of its peer and whether the handshake succeeds.\<close>

definition connect :: "string \<Rightarrow> string \<Rightarrow> bool \<Rightarrow> sys \<Rightarrow> sys" where
  "connect addr newID handshake y =
     (case acquireConnection addr (y_server y) of
        (False, _) \<Rightarrow> y
      | (True, s) \<Rightarrow>
          let i = length (y_conns y);
              y1 = y\<lparr>y_server := s, y_conns := y_conns y @
                 [\<lparr>c_addr = addr, c_room = None, c_phase = (if handshake then Reading else Closing)\<rparr>]\<rparr>
          in set_world (set_peer i \<lparr>p_ID = newID, p_Username = [], p_Send = [], p_cancelled = False\<rparr> (wld y1)) y1)"

text \<open>The writer of connection \<open>i\<close> takes the first message of the queue; a failed write cancels
  the peer. A heartbeat that fails cancels it too.\<close>

definition writePump :: "nat \<Rightarrow> bool \<Rightarrow> sys \<Rightarrow> sys" where
  "writePump i written y =
     (let p = w_peer (wld y) i
      in case p_Send p of
           [] \<Rightarrow> y
         | _ # rest \<Rightarrow>
             let w1 = set_peer i (p\<lparr>p_Send := rest\<rparr>) (wld y)
             in set_world (if written then w1 else peer_Cancel i w1) y)"

definition heartbeat :: "nat \<Rightarrow> bool \<Rightarrow> sys \<Rightarrow> sys" where
  "heartbeat i alive y = (if alive then y else set_world (peer_Cancel i (wld y)) y)"

text \<open>\<open>Close\<close> cancels the server's context, from which the contexts of all connections derive.\<close>

definition server_Close :: "sys \<Rightarrow> sys" where
  "server_Close y = set_world (fold peer_Cancel [0..<length (y_conns y)] (wld y)) y"

section \<open>Interleaved execution\<close>

text \<open>A UUID is not the identifier of a peer or a room that was ever made.\<close>

definition fresh_id :: "string \<Rightarrow> sys \<Rightarrow> bool" where
  "fresh_id u y \<longleftrightarrow>
     uuid_shape u \<and> (\<forall>i < length (y_conns y). p_ID (w_peer (wld y) i) \<noteq> u) \<and>
     (\<forall>a < w_next (wld y). r_ID (w_room (wld y) a) \<noteq> u)"

inductive sys_step :: "env \<Rightarrow> sys \<Rightarrow> sys \<Rightarrow> bool" for E :: env where
  step_connect: "fresh_id u y \<Longrightarrow> sys_step E y (connect addr u handshake y)"
| step_read: "i < length (y_conns y) \<Longrightarrow> c_phase (y_conns y ! i) = Reading \<Longrightarrow> fresh_id u y \<Longrightarrow>
    sys_step E y (readLoop E rateOK tookDone u issued i inc y)"
| step_announce: "i < length (y_conns y) \<Longrightarrow> c_phase (y_conns y ! i) = Announcing room \<Longrightarrow>
    sys_step E y (announce E i room y)"
| step_deliver: "i < length (y_conns y) \<Longrightarrow> c_phase (y_conns y ! i) = Delivering (a # as) m k \<Longrightarrow>
    sys_step E y (deliverNext i a as m k y)"
| step_delivered: "i < length (y_conns y) \<Longrightarrow> c_phase (y_conns y ! i) = Delivering [] m k \<Longrightarrow>
    sys_step E y (set_conn i ((y_conns y ! i)\<lparr>c_phase := k\<rparr>) y)"
| step_route: "i < length (y_conns y) \<Longrightarrow> c_phase (y_conns y ! i) = Routing target m \<Longrightarrow>
    sys_step E y (routeNext i target m y)"
| step_waited: "i < length (y_conns y) \<Longrightarrow> c_phase (y_conns y ! i) = Waiting \<Longrightarrow>
    sys_step E y (set_conn i ((y_conns y ! i)\<lparr>c_phase := Exiting\<rparr>) y)"
| step_exit: "i < length (y_conns y) \<Longrightarrow> c_phase (y_conns y ! i) = Exiting \<Longrightarrow>
    sys_step E y (exitLeave E i y)"
| step_close: "i < length (y_conns y) \<Longrightarrow> c_phase (y_conns y ! i) = Closing \<Longrightarrow>
    sys_step E y (closeConn i y)"
| step_write: "i < length (y_conns y) \<Longrightarrow> sys_step E y (writePump i written y)"
| step_heartbeat: "i < length (y_conns y) \<Longrightarrow> sys_step E y (heartbeat i alive y)"

inductive_cases sys_stepE: "sys_step E y y'"

text \<open>Closing the server is a sequence of steps in which every connection loses its peer.\<close>

lemma server_Close_steps: "(sys_step E)\<^sup>*\<^sup>* y (server_Close y)"
proof -
  have "(sys_step E)\<^sup>*\<^sup>* y (set_world (fold peer_Cancel is (wld y)) y)" if "set is \<subseteq> {..<length (y_conns y)}" for "is" and y
    using that
  proof (induction "is" arbitrary: y)
    case (Cons i "is")
    let ?y = "set_world (peer_Cancel i (wld y)) y"
    have "sys_step E y ?y" using step_heartbeat [of i y E False] Cons.prems by (simp add: heartbeat_def)
    moreover have "(sys_step E)\<^sup>*\<^sup>* ?y (set_world (fold peer_Cancel is (wld ?y)) ?y)"
      using Cons.IH [of ?y] Cons.prems by (simp add: set_world_def)
    ultimately show ?case by (simp add: set_world_def converse_rtranclp_into_rtranclp)
  qed (simp add: set_world_def)
  then show ?thesis by (simp add: server_Close_def lessThan_atLeast0)
qed

inductive reachable :: "env \<Rightarrow> ServerConfig \<Rightarrow> sys \<Rightarrow> bool" for E :: env and config :: ServerConfig where
  reach_start: "NewServer True config = Inr s \<Longrightarrow> reachable E config \<lparr>y_server = s, y_conns = []\<rparr>"
| reach_step: "reachable E config y \<Longrightarrow> sys_step E y y' \<Longrightarrow> reachable E config y'"

section \<open>Membership is consistent\<close>

text \<open>The rooms of the manager against the current rooms of the handlers (\<open>rs\<close>): a handler
  with a current room is a member of that room, and every member of a room is a handler with that
  current room.\<close>

definition inv_rooms :: "ServerConfig \<Rightarrow> world \<Rightarrow> nat option list \<Rightarrow> bool" where
  "inv_rooms config w rs \<longleftrightarrow>
     wf_rooms w \<and> rm_maxRooms (w_manager w) = sc_MaxRooms config \<and>
     (\<forall>a < w_next w. r_MaxPeers (w_room w a) = sc_MaxRoomSize config) \<and>
     (\<forall>i < length rs. \<forall>j < length rs. p_ID (w_peer w i) = p_ID (w_peer w j) \<longrightarrow> i = j) \<and>
     (\<forall>i < length rs. \<forall>r. rs ! i = Some r \<longrightarrow>
        r < w_next w \<and> current r w \<and> gm_get (r_peers (w_room w r)) (p_ID (w_peer w i)) = Some i) \<and>
     (\<forall>r k p. current r w \<longrightarrow> gm_get (r_peers (w_room w r)) k = Some p \<longrightarrow> p < length rs \<and> rs ! p = Some r)"

lemma inv_roomsI:
  assumes "wf_rooms w" "rm_maxRooms (w_manager w) = sc_MaxRooms config"
    and "\<And>a. a < w_next w \<Longrightarrow> r_MaxPeers (w_room w a) = sc_MaxRoomSize config"
    and "\<And>i j. i < length rs \<Longrightarrow> j < length rs \<Longrightarrow> p_ID (w_peer w i) = p_ID (w_peer w j) \<Longrightarrow> i = j"
    and "\<And>i r. i < length rs \<Longrightarrow> rs ! i = Some r \<Longrightarrow>
      r < w_next w \<and> current r w \<and> gm_get (r_peers (w_room w r)) (p_ID (w_peer w i)) = Some i"
    and "\<And>r k p. current r w \<Longrightarrow> gm_get (r_peers (w_room w r)) k = Some p \<Longrightarrow> p < length rs \<and> rs ! p = Some r"
  shows "inv_rooms config w rs"
  using assms unfolding inv_rooms_def by blast

lemma inv_roomsD:
  assumes "inv_rooms config w rs"
  shows inv_wf: "wf_rooms w" and inv_max: "rm_maxRooms (w_manager w) = sc_MaxRooms config"
    and inv_size: "\<And>a. a < w_next w \<Longrightarrow> r_MaxPeers (w_room w a) = sc_MaxRoomSize config"
    and inv_ids: "\<And>i j. i < length rs \<Longrightarrow> j < length rs \<Longrightarrow> p_ID (w_peer w i) = p_ID (w_peer w j) \<Longrightarrow> i = j"
    and inv_joined: "\<And>i r. i < length rs \<Longrightarrow> rs ! i = Some r \<Longrightarrow>
      r < w_next w \<and> current r w \<and> gm_get (r_peers (w_room w r)) (p_ID (w_peer w i)) = Some i"
    and inv_member: "\<And>r k p. current r w \<Longrightarrow> gm_get (r_peers (w_room w r)) k = Some p \<Longrightarrow> p < length rs \<and> rs ! p = Some r"
  using assms unfolding inv_rooms_def by blast+

lemma inv_rooms_same:
  assumes same: "same_rooms w w'" and inv: "inv_rooms config w rs"
  shows "inv_rooms config w' rs"
proof -
  have eqs: "w_room w' = w_room w" "w_next w' = w_next w" "w_manager w' = w_manager w"
    "\<And>a. p_ID (w_peer w' a) = p_ID (w_peer w a)"
    using same by (simp_all add: same_rooms_def)
  show ?thesis
    by (rule inv_roomsI; (rule same_rooms_wf [OF same inv_wf [OF inv]])?;
        simp only: eqs same_rooms_current [OF same])
      (rule inv_max [OF inv] inv_size [OF inv] inv_ids [OF inv] inv_joined [OF inv] inv_member [OF inv]; assumption)+
qed

lemma wf_rooms_below: "wf_rooms w \<Longrightarrow> gm_get (rooms w) i = Some a \<Longrightarrow> a < w_next w"
  by (simp add: wf_rooms_def wf_room_def)

lemma current_below: "wf_rooms w \<Longrightarrow> current a w \<Longrightarrow> a < w_next w"
  unfolding current_def by (rule wf_rooms_below)

lemma current_set_peers: "current a (set_room r ((w_room w r)\<lparr>r_peers := ps\<rparr>) w) = current a w"
  by (simp add: current_def set_room_def)

lemma inv_rooms_new_room:
  assumes inv: "inv_rooms config w rs"
  shows "inv_rooms config (set_room (w_next w) \<lparr>r_ID = newID, r_MaxPeers = sc_MaxRoomSize config, r_peers = gm_empty\<rparr>
      (w\<lparr>w_next := Suc (w_next w)\<rparr>)) rs" (is "inv_rooms config ?w rs")
proof (rule inv_roomsI)
  note wf = inv_wf [OF inv]
  have cur: "current r ?w \<longleftrightarrow> current r w" if "r \<noteq> w_next w" for r
    using that by (simp add: current_def set_room_def)
  have new: "\<not> current (w_next w) ?w"
    using wf_rooms_below [OF wf, of newID "w_next w"] by (auto simp: current_def set_room_def)
  have wfr: "wf_room ?w i a" if "gm_get (rooms w) i = Some a" for i a
  proof -
    have "wf_room w i a" "a < w_next w" using wf that by (simp_all add: wf_rooms_def wf_room_def)
    then show ?thesis by (simp add: wf_room_def set_room_def)
  qed
  have same: "rooms ?w = rooms w" "rm_maxRooms (w_manager ?w) = rm_maxRooms (w_manager w)"
    by (simp_all add: set_room_def)
  show "wf_rooms ?w"
    unfolding wf_rooms_def same using wf [unfolded wf_rooms_def]
    using wfr by simp
  show "rm_maxRooms (w_manager ?w) = sc_MaxRooms config" using inv_max [OF inv] same by simp
  show "r_MaxPeers (w_room ?w a) = sc_MaxRoomSize config" if "a < w_next ?w" for a
    using that inv_size [OF inv, of a] by (auto simp: set_room_def less_Suc_eq)
  show "i = j" if "i < length rs" "j < length rs" "p_ID (w_peer ?w i) = p_ID (w_peer ?w j)" for i j
    using inv_ids [OF inv that(1,2)] that(3) by (simp add: set_room_def)
  show "r < w_next ?w \<and> current r ?w \<and> gm_get (r_peers (w_room ?w r)) (p_ID (w_peer ?w i)) = Some i"
    if "i < length rs" "rs ! i = Some r" for i r
    using inv_joined [OF inv that] cur [of r] by (simp add: set_room_def)
  show "p < length rs \<and> rs ! p = Some r" if "current r ?w" "gm_get (r_peers (w_room ?w r)) k = Some p" for r k p
  proof -
    have "r \<noteq> w_next w" using that(1) new by blast
    with that cur [of r] inv_member [OF inv, of r k p] show ?thesis by (simp add: set_room_def)
  qed
qed

lemma admitted_inv:
  assumes inv: "inv_rooms config w rs" and i: "i < length rs" "rs ! i = None"
    and wf: "wf_rooms w2" and max: "rm_maxRooms (w_manager w2) = sc_MaxRooms config"
    and size: "\<And>a. a < w_next w2 \<Longrightarrow> r_MaxPeers (w_room w2 a) = sc_MaxRoomSize config"
    and peers: "\<And>a. p_ID (w_peer w2 a) = p_ID (w_peer w a)"
    and room: "current room w2" "room < w_next w2" "gm_get (r_peers (w_room w2 room)) (p_ID (w_peer w i)) = Some i"
    and others: "\<And>r k. r \<noteq> room \<or> k \<noteq> p_ID (w_peer w i) \<Longrightarrow> current r w2 \<Longrightarrow>
      gm_get (r_peers (w_room w2 r)) k \<noteq> None \<Longrightarrow> current r w \<and> gm_get (r_peers (w_room w2 r)) k = gm_get (r_peers (w_room w r)) k"
    and kept: "\<And>r k. r \<noteq> room \<or> k \<noteq> p_ID (w_peer w i) \<Longrightarrow> current r w \<Longrightarrow>
      r < w_next w2 \<and> current r w2 \<and> gm_get (r_peers (w_room w2 r)) k = gm_get (r_peers (w_room w r)) k"
  shows "inv_rooms config w2 (rs[i := Some room])"
proof (rule inv_roomsI)
  show "x = y" if "x < length (rs[i := Some room])" "y < length (rs[i := Some room])"
    "p_ID (w_peer w2 x) = p_ID (w_peer w2 y)" for x y
    using inv_ids [OF inv, of x y] that peers by simp
  show "r < w_next w2 \<and> current r w2 \<and> gm_get (r_peers (w_room w2 r)) (p_ID (w_peer w2 j)) = Some j"
    if "j < length (rs[i := Some room])" "rs[i := Some room] ! j = Some r" for j r
  proof (cases "j = i")
    case True
    with that i room peers show ?thesis by simp
  next
    case False
    with that have j: "j < length rs" "rs ! j = Some r" by simp_all
    then have "p_ID (w_peer w j) \<noteq> p_ID (w_peer w i)" using inv_ids [OF inv j(1) i(1)] False by blast
    with kept [of r "p_ID (w_peer w j)"] inv_joined [OF inv j] peers show ?thesis by simp
  qed
  show "p < length (rs[i := Some room]) \<and> rs[i := Some room] ! p = Some r"
    if "current r w2" "gm_get (r_peers (w_room w2 r)) k = Some p" for r k p
  proof (cases "r = room \<and> k = p_ID (w_peer w i)")
    case True
    with that room i show ?thesis by simp
  next
    case False
    with others [of r k] that have "current r w" "gm_get (r_peers (w_room w r)) k = Some p" by auto
    from inv_member [OF inv this] i show ?thesis by (auto simp: nth_list_update)
  qed
qed (use wf max size in auto)

lemma Admit_inv:
  assumes inv: "inv_rooms config w rs" and i: "i < length rs" "rs ! i = None"
    and fresh: "\<forall>a < w_next w. r_ID (w_room w a) \<noteq> newID" and quiet: "quiet_acceptor accept"
    and pos: "1 \<le> sc_MaxRoomSize config"
  shows "Admit rng newID req (sc_MaxRoomSize config) i accept w = (Inr room, w') \<Longrightarrow>
      inv_rooms config w' (rs[i := Some room])"
    and "Admit rng newID req (sc_MaxRoomSize config) i accept w = (Inl e, w') \<Longrightarrow> inv_rooms config w' rs"
proof -
  note wf = inv_wf [OF inv]
  { assume adm: "Admit rng newID req (sc_MaxRoomSize config) i accept w = (Inr room, w')"
    from Admit_success [OF adm quiet] obtain w0 where
      w0: "req = ''new'' \<and> w0 = with_new_room newID (sc_MaxRoomSize config) w \<and> room = w_next w \<or>
           req \<noteq> ''new'' \<and> w0 = w \<and> gm_get (rooms w) req = Some room"
      and same: "same_rooms (set_room room ((w_room w0 room)\<lparr>r_peers :=
        gm_set (p_ID (w_peer w i)) i (r_peers (w_room w0 room))\<rparr>) w0) w'" (is "same_rooms ?w2 w'") by blast
    have wf': "wf_rooms w'" using Admit_wf [OF wf pos quiet, of rng newID req i] adm by simp
    from same have wf2: "wf_rooms ?w2" using wf' by (simp add: same_rooms_def wf_rooms_def wf_room_def)
    have "inv_rooms config ?w2 (rs[i := Some room])"
    proof (cases "req = ''new''")
      case True
      with w0 have w0: "w0 = with_new_room newID (sc_MaxRoomSize config) w" and room: "room = w_next w" by auto
      have heap: "w_room ?w2 a = (if a = room then
          \<lparr>r_ID = newID, r_MaxPeers = sc_MaxRoomSize config, r_peers = gm_set (p_ID (w_peer w i)) i gm_empty\<rparr> else w_room w a)"
        "w_peer ?w2 = w_peer w" "w_next ?w2 = Suc (w_next w)" "rooms ?w2 = gm_set newID room (rooms w)"
        "rm_maxRooms (w_manager ?w2) = rm_maxRooms (w_manager w)" for a
        by (simp_all add: w0 room with_new_room_def set_room_def set_rooms_def)
      have cur: "current a ?w2 \<longleftrightarrow> a = room \<or> current a w" for a
        using fresh current_below [OF wf, of a] wf_rooms_below [OF wf, of newID a] room
        unfolding current_def heap by (auto split: if_splits)
      show ?thesis
      proof (rule admitted_inv [OF inv i wf2])
        show "r_MaxPeers (w_room ?w2 a) = sc_MaxRoomSize config" if "a < w_next ?w2" for a
          using that inv_size [OF inv, of a] room unfolding heap by (auto simp: less_Suc_eq)
        show "current r w \<and> gm_get (r_peers (w_room ?w2 r)) k = gm_get (r_peers (w_room w r)) k"
          if "r \<noteq> room \<or> k \<noteq> p_ID (w_peer w i)" "current r ?w2" "gm_get (r_peers (w_room ?w2 r)) k \<noteq> None" for r k
          using that unfolding cur heap by (auto split: if_splits)
        show "r < w_next ?w2 \<and> current r ?w2 \<and> gm_get (r_peers (w_room ?w2 r)) k = gm_get (r_peers (w_room w r)) k"
          if "r \<noteq> room \<or> k \<noteq> p_ID (w_peer w i)" "current r w" for r k
          using that current_below [OF wf, of r] room unfolding cur heap by auto
      qed (use inv_max [OF inv] room cur heap in auto)
    next
      case False
      with w0 have w0: "w0 = w" and room: "gm_get (rooms w) req = Some room" by auto
      from wf_rooms_ref [OF wf room] have curr: "current room w" by blast
      have heap: "r_peers (w_room ?w2 a) = (if a = room then gm_set (p_ID (w_peer w i)) i (r_peers (w_room w room))
          else r_peers (w_room w a))" "r_MaxPeers (w_room ?w2 a) = r_MaxPeers (w_room w a)"
        "w_peer ?w2 = w_peer w" "w_next ?w2 = w_next w" "w_manager ?w2 = w_manager w" for a
        by (simp_all add: w0 set_room_def)
      have cur: "current a ?w2 = current a w" for a unfolding w0 by (rule current_set_peers)
      show ?thesis
      proof (rule admitted_inv [OF inv i wf2])
        show "current r w \<and> gm_get (r_peers (w_room ?w2 r)) k = gm_get (r_peers (w_room w r)) k"
          if "r \<noteq> room \<or> k \<noteq> p_ID (w_peer w i)" "current r ?w2" for r k
          using that unfolding cur heap by auto
        show "r < w_next ?w2 \<and> current r ?w2 \<and> gm_get (r_peers (w_room ?w2 r)) k = gm_get (r_peers (w_room w r)) k"
          if "r \<noteq> room \<or> k \<noteq> p_ID (w_peer w i)" "current r w" for r k
          using that current_below [OF wf, of r] unfolding cur heap by auto
      qed (use inv_max [OF inv] inv_size [OF inv] curr current_below [OF wf curr] cur heap in auto)
    qed
    with same show "inv_rooms config w' (rs[i := Some room])" by (rule inv_rooms_same) }
  { assume adm: "Admit rng newID req (sc_MaxRoomSize config) i accept w = (Inl e, w')"
    have "gm_get (rooms w) newID = None"
    proof (rule ccontr)
      assume "gm_get (rooms w) newID \<noteq> None"
      then obtain a where a: "gm_get (rooms w) newID = Some a" by blast
      with wf_rooms_ref [OF wf a] wf_rooms_below [OF wf a] fresh show False by blast
    qed
    from Admit_failure [OF adm quiet wf this pos] show "inv_rooms config w' rs"
      using inv_rooms_same inv inv_rooms_new_room [OF inv, of newID] by blast }
qed

lemma Leave_inv:
  assumes inv: "inv_rooms config w rs" and i: "i < length rs" "rs ! i = Some room"
  shows "inv_rooms config (snd (Leave rng (Some room) (p_ID (w_peer w i)) w)) (rs[i := None])"
proof -
  let ?pid = "p_ID (w_peer w i)"
  let ?ps = "gm_delete ?pid (r_peers (w_room w room))"
  let ?w1 = "set_room room ((w_room w room)\<lparr>r_peers := ?ps\<rparr>) w"
  define w2 where "w2 = snd (Leave rng (Some room) ?pid w)"
  note wf = inv_wf [OF inv]
  from inv_joined [OF inv i] have curr: "current room w" by blast
  then have w2: "w2 = (if ?ps = [] then set_rooms (gm_delete (r_ID (w_room w room)) (rooms w)) ?w1 else ?w1)"
    by (simp add: w2_def Leave_def Let_def gm_len_zero set_room_def)
  have heap: "r_peers (w_room w2 a) = (if a = room then ?ps else r_peers (w_room w a))"
    "r_MaxPeers (w_room w2 a) = r_MaxPeers (w_room w a)" "r_ID (w_room w2 a) = r_ID (w_room w a)"
    "w_peer w2 = w_peer w" "w_next w2 = w_next w" "rm_maxRooms (w_manager w2) = rm_maxRooms (w_manager w)"
    "rooms w2 = (if ?ps = [] then gm_delete (r_ID (w_room w room)) (rooms w) else rooms w)" for a
    by (simp_all add: w2 set_room_def set_rooms_def)
  have cur2: "current a w2 \<longleftrightarrow> current a w \<and> (a = room \<longrightarrow> ?ps \<noteq> [])" for a
    using curr unfolding current_def heap by (auto split: if_splits)
  have key: "p_ID (w_peer w p) = k" if "current r w" "gm_get (r_peers (w_room w r)) k = Some p" for r k p
    using wf that by (auto simp: wf_rooms_def wf_room_def current_def)
  have "inv_rooms config w2 (rs[i := None])"
  proof (rule inv_roomsI)
    show "wf_rooms w2" unfolding w2_def by (rule Leave_wf [OF wf])
    show "p < length (rs[i := None]) \<and> rs[i := None] ! p = Some r"
      if "current r w2" "gm_get (r_peers (w_room w2 r)) k = Some p" for r k p
    proof -
      from that have r: "current r w" "gm_get (r_peers (w_room w r)) k = Some p" "r = room \<longrightarrow> k \<noteq> ?pid"
        unfolding cur2 heap by (auto split: if_splits)
      with inv_member [OF inv r(1,2)] key [OF r(1,2)] i show ?thesis by (auto simp: nth_list_update)
    qed
    show "r < w_next w2 \<and> current r w2 \<and> gm_get (r_peers (w_room w2 r)) (p_ID (w_peer w2 j)) = Some j"
      if "j < length (rs[i := None])" "rs[i := None] ! j = Some r" for j r
    proof -
      from that i have j: "j \<noteq> i" "j < length rs" "rs ! j = Some r" by (auto simp: nth_list_update split: if_splits)
      have "p_ID (w_peer w j) \<noteq> ?pid" using inv_ids [OF inv j(2) i(1)] j(1) by blast
      with inv_joined [OF inv j(2,3)]
      have g: "gm_get (r_peers (w_room w2 r)) (p_ID (w_peer w j)) = Some j" unfolding heap by auto
      then have "r_peers (w_room w2 r) \<noteq> []" by (auto simp: gm_get_def)
      then have "r = room \<longrightarrow> ?ps \<noteq> []" unfolding heap by auto
      with g inv_joined [OF inv j(2,3)] show ?thesis unfolding cur2 heap(4,5) by simp
    qed
    show "x = y" if "x < length (rs[i := None])" "y < length (rs[i := None])"
      "p_ID (w_peer w2 x) = p_ID (w_peer w2 y)" for x y
      using that inv_ids [OF inv, of x y] heap(4) by simp
  qed (use inv_max [OF inv] inv_size [OF inv] heap in auto)
  then show ?thesis by (simp add: w2_def)
qed

lemma connect_inv:
  assumes inv: "inv_rooms config w rs" and fresh: "\<forall>j < length rs. p_ID (w_peer w j) \<noteq> p_ID p"
  shows "inv_rooms config (set_peer (length rs) p w) (rs @ [None])" (is "inv_rooms config ?w _")
proof (rule inv_roomsI)
  have cur: "current a ?w = current a w" for a by (simp add: current_def set_peer_def)
  have ids: "p_ID (w_peer ?w j) = (if j = length rs then p_ID p else p_ID (w_peer w j))"
    "w_room ?w = w_room w" "w_next ?w = w_next w" "w_manager ?w = w_manager w" for j
    by (simp_all add: set_peer_def)
  note wf = inv_wf [OF inv]
  show "wf_rooms ?w"
    unfolding wf_rooms_def
  proof (intro conjI allI impI)
    fix k a assume "gm_get (rooms ?w) k = Some a"
    then have a: "gm_get (rooms w) k = Some a" by (simp add: ids)
    then have wfa: "wf_room w k a" using wf by (simp add: wf_rooms_def)
    have "q < length rs" if "gm_get (r_peers (w_room w a)) x = Some q" for x q
      using inv_member [OF inv _ that] wf_rooms_ref [OF wf a] by blast
    with wfa show "wf_room ?w k a" unfolding wf_room_def ids by fastforce
  qed (use wf in \<open>simp_all add: wf_rooms_def ids\<close>)
  show "x = y" if "x < length (rs @ [None])" "y < length (rs @ [None])" "p_ID (w_peer ?w x) = p_ID (w_peer ?w y)" for x y
    using that inv_ids [OF inv, of x y] fresh unfolding ids by (auto simp: less_Suc_eq split: if_splits)
  show "r < w_next ?w \<and> current r ?w \<and> gm_get (r_peers (w_room ?w r)) (p_ID (w_peer ?w j)) = Some j"
    if "j < length (rs @ [None])" "(rs @ [None]) ! j = Some r" for j r
  proof -
    from that have "j < length rs" "rs ! j = Some r" by (auto simp: nth_append less_Suc_eq split: if_splits)
    with inv_joined [OF inv this] show ?thesis unfolding cur ids by simp
  qed
  show "q < length (rs @ [None]) \<and> (rs @ [None]) ! q = Some r"
    if "current r ?w" "gm_get (r_peers (w_room ?w r)) k = Some q" for r k q
    using that inv_member [OF inv, of r k q] unfolding cur ids by (simp add: nth_append)
qed (use inv_max [OF inv] inv_size [OF inv] in \<open>simp_all add: set_peer_def\<close>)

section \<open>The system invariant\<close>

definition live :: "conn \<Rightarrow> bool" where
  "live c \<longleftrightarrow> c_phase c \<noteq> Gone"

definition phase_ok :: "conn \<Rightarrow> bool" where
  "phase_ok c \<longleftrightarrow>
     (case c_phase c of
        Closing \<Rightarrow> c_room c = None
      | Gone \<Rightarrow> c_room c = None
      | Delivering _ _ k \<Rightarrow> k = Reading \<or> k = Closing \<and> c_room c = None
      | Announcing r \<Rightarrow> c_room c = Some r
      | _ \<Rightarrow> True)"

definition inv_count :: "Server \<Rightarrow> conn list \<Rightarrow> bool" where
  "inv_count s cs \<longleftrightarrow>
     gm_wf (sv_connections s) \<and>
     sv_totalConnections s = int (length (filter live cs)) \<and>
     (\<forall>a. gm_get0 (sv_connections s) a = int (length (filter (\<lambda>c. live c \<and> c_addr c = a) cs))) \<and>
     sv_totalConnections s \<le> sc_MaxConnections (sv_config s) \<and>
     (\<forall>a. gm_get0 (sv_connections s) a \<le> sc_MaxConnectionsPerIP (sv_config s))"

definition sys_inv :: "ServerConfig \<Rightarrow> sys \<Rightarrow> bool" where
  "sys_inv config y \<longleftrightarrow>
     cfg y = config \<and> inv_rooms config (wld y) (map c_room (y_conns y)) \<and>
     list_all phase_ok (y_conns y) \<and> inv_count (y_server y) (y_conns y)"

lemma sys_proj [simp]:
  "wld (set_world w y) = w" "y_conns (set_world w y) = y_conns y" "cfg (set_world w y) = cfg y"
  "sv_connections (y_server (set_world w y)) = sv_connections (y_server y)"
  "sv_totalConnections (y_server (set_world w y)) = sv_totalConnections (y_server y)"
  "y_server (set_conn i c y) = y_server y" "y_conns (set_conn i c y) = (y_conns y)[i := c]"
  by (simp_all add: set_world_def set_conn_def)

lemma inv_count_cong:
  assumes "sv_connections s' = sv_connections s" "sv_totalConnections s' = sv_totalConnections s"
    and "sv_config s' = sv_config s"
  shows "inv_count s' cs = inv_count s cs"
  unfolding inv_count_def assms by (rule refl)

lemma inv_count_set_world [simp]: "inv_count (y_server (set_world w y)) cs = inv_count (y_server y) cs"
  by (rule inv_count_cong) simp_all

lemma inv_count_same:
  assumes "inv_count s cs" and "sv_connections s' = sv_connections s"
    and "sv_totalConnections s' = sv_totalConnections s" and "sv_config s' = sv_config s"
    and "i < length cs" and "live c = live (cs ! i)" and "c_addr c = c_addr (cs ! i)"
  shows "inv_count s' (cs[i := c])"
proof -
  have counts: "int (length (filter live (cs[i := c]))) = int (length (filter live cs))"
    "int (length (filter (\<lambda>c. live c \<and> c_addr c = a) (cs[i := c]))) = int (length (filter (\<lambda>c. live c \<and> c_addr c = a) cs))" for a
    using assms(5-7) by (simp_all add: length_filter_update)
  show ?thesis using assms(1) unfolding inv_count_def assms(2-4) counts .
qed

text \<open>A step of handler \<open>i\<close> that keeps its room and only touches queues.\<close>

lemma sys_inv_local:
  assumes inv: "sys_inv config y" and i: "i < length (y_conns y)" and alive: "c_phase (y_conns y ! i) \<noteq> Gone"
    and same: "same_rooms (wld y) w" and ph: "ph \<noteq> Gone" "phase_ok ((y_conns y ! i)\<lparr>c_phase := ph\<rparr>)"
  shows "sys_inv config (set_conn i ((y_conns y ! i)\<lparr>c_phase := ph\<rparr>) (set_world w y))"
proof -
  let ?c = "(y_conns y ! i)\<lparr>c_phase := ph\<rparr>"
  have "map c_room ((y_conns y)[i := ?c]) = map c_room (y_conns y)"
    using i by (simp add: map_update list_update_same_conv)
  moreover have "inv_count (y_server (set_world w y)) ((y_conns y)[i := ?c])"
    using inv i alive ph by (intro inv_count_same [of "y_server y"]) (simp_all add: sys_inv_def live_def)
  moreover have "list_all phase_ok ((y_conns y)[i := ?c])"
    using inv ph by (intro list_all_update) (simp_all add: sys_inv_def)
  ultimately show ?thesis
    using inv inv_rooms_same [OF same] by (simp add: sys_inv_def)
qed

lemma sys_inv_queues: "sys_inv config y \<Longrightarrow> same_rooms (wld y) w \<Longrightarrow> sys_inv config (set_world w y)"
  using inv_rooms_same by (auto simp: sys_inv_def inv_count_def)

lemma same_rooms_set_peer: "p_ID p = p_ID (w_peer w i) \<Longrightarrow> same_rooms w (set_peer i p w)"
  by (simp add: same_rooms_def set_peer_def)

lemma same_rooms_sendError: "same_rooms w (sendError i code m w)"
  by (simp add: sendError_def same_rooms_Cancel same_rooms_enqueue split: sum.splits)

lemma same_rooms_sendFatal: "same_rooms w (sendFatalError b i code m w)"
  by (simp add: sendFatalError_def same_rooms_Cancel same_rooms_wait split: sum.splits)

lemma quiet_acceptJoin: "quiet_acceptor (Some (acceptJoin i ice))"
  by (simp add: quiet_acceptor_def acceptJoin_def same_rooms_enqueue split: sum.splits)

text \<open>A step of handler \<open>i\<close> that changes its current room.\<close>

lemma sys_inv_room:
  assumes inv: "sys_inv config y" and i: "i < length (y_conns y)" and alive: "c_phase (y_conns y ! i) \<noteq> Gone"
    and rooms: "inv_rooms config w ((map c_room (y_conns y))[i := r])"
    and ph: "ph \<noteq> Gone" "phase_ok ((y_conns y ! i)\<lparr>c_room := r, c_phase := ph\<rparr>)"
  shows "sys_inv config (set_conn i ((y_conns y ! i)\<lparr>c_room := r, c_phase := ph\<rparr>) (set_world w y))"
proof -
  let ?c = "(y_conns y ! i)\<lparr>c_room := r, c_phase := ph\<rparr>"
  have "inv_count (y_server (set_world w y)) ((y_conns y)[i := ?c])"
    using inv i alive ph by (intro inv_count_same [of "y_server y"]) (simp_all add: sys_inv_def live_def)
  moreover have "list_all phase_ok ((y_conns y)[i := ?c])"
    using inv ph by (intro list_all_update) (simp_all add: sys_inv_def)
  ultimately show ?thesis using inv rooms by (simp add: sys_inv_def map_update)
qed

lemma handleJoin_inv:
  assumes inv: "inv_rooms config w rs" and i: "i < length rs" "rs ! i = cr"
    and fresh: "\<forall>a < w_next w. r_ID (w_room w a) \<noteq> u" and pos: "1 \<le> sc_MaxRoomSize config"
  shows "handleJoin E config u issued i cr m w = (Some room, w') \<Longrightarrow> inv_rooms config w' (rs[i := Some room])"
    and "handleJoin E config u issued i cr m w = (None, w') \<Longrightarrow> inv_rooms config w' rs"
proof -
  let ?w1 = "\<lambda>n. set_peer i ((w_peer w i)\<lparr>p_Username := n\<rparr>) w"
  have same1: "same_rooms w (?w1 n)" for n by (simp add: same_rooms_set_peer)
  have inv1: "inv_rooms config (?w1 n) rs" for n by (rule inv_rooms_same [OF same1 inv])
  have fresh1: "\<forall>a < w_next (?w1 n). r_ID (w_room (?w1 n) a) \<noteq> u" for n using fresh by (simp add: set_peer_def)
  { assume h: "handleJoin E config u issued i cr m w = (Some room, w')"
    then have cr: "cr = None" by (auto simp: handleJoin_def split: option.splits)
    from h cr obtain n ice where "Admit (v_rng E) u (m_RoomID m) (sc_MaxRoomSize config) i (Some (acceptJoin i ice)) (?w1 n) = (Inr room, w')"
      by (auto simp: handleJoin_def Let_def split: sum.splits prod.splits)
    from Admit_inv(1) [OF inv1 i(1) _ fresh1 quiet_acceptJoin pos this] i(2) cr
    show "inv_rooms config w' (rs[i := Some room])" by simp }
  { assume h: "handleJoin E config u issued i cr m w = (None, w')"
    have via: "inv_rooms config w' rs" if "same_rooms w2 w'" "inv_rooms config w2 rs" for w2
      using that by (rule inv_rooms_same)
    show "inv_rooms config w' rs"
    proof (cases "cr = None \<and> (\<exists>n ice. NormalizeUsername (v_tables E) (m_Username m) = Inr n \<and> issued = Inr ice)")
      case False
      then have "same_rooms w w'"
        using h by (auto simp: handleJoin_def Let_def same_rooms_sendError split: option.splits sum.splits
            intro: same_rooms_trans [OF same1 same_rooms_sendError])
      then show ?thesis using via inv by blast
    next
      case True
      then obtain n ice where n: "NormalizeUsername (v_tables E) (m_Username m) = Inr n" "issued = Inr ice" "cr = None" by blast
      obtain res w2 where adm: "Admit (v_rng E) u (m_RoomID m) (sc_MaxRoomSize config) i (Some (acceptJoin i ice)) (?w1 n) = (res, w2)"
        by fastforce
      with h n obtain e where e: "res = Inl e" by (cases res) (auto simp: handleJoin_def)
      from Admit_inv(2) [OF inv1 i(1) _ fresh1 quiet_acceptJoin pos adm [unfolded e]] i(2) n(3)
      have "inv_rooms config w2 rs" by simp
      moreover have "same_rooms w2 w'"
        using h n adm e by (auto simp: handleJoin_def same_rooms_sendError split: if_splits)
      ultimately show ?thesis using via by blast
    qed }
qed

lemma sys_inv_conn: "sys_inv config y \<Longrightarrow> i < length (y_conns y) \<Longrightarrow> phase_ok (y_conns y ! i)"
  by (simp add: sys_inv_def list_all_nth)

lemma set_world_id [simp]: "set_world (wld y) y = y"
  by (simp add: set_world_def)

lemma sys_inv_fatal:
  assumes "sys_inv config y" "i < length (y_conns y)" "c_phase (y_conns y ! i) = Reading"
  shows "sys_inv config (fatal b i code m y)"
  unfolding fatal_def using assms
  by (intro sys_inv_local same_rooms_sendFatal) (simp_all add: phase_ok_def)

lemma sys_inv_leave:
  assumes inv: "sys_inv config y" and i: "i < length (y_conns y)" and alive: "c_phase (y_conns y ! i) \<noteq> Gone"
    and r: "c_room (y_conns y ! i) = Some room" and k: "k = Reading \<or> k = Closing"
    and l: "Leave rng (Some room) (p_ID (w_peer (wld y) i)) (wld y) = (remaining, w1)"
  shows "sys_inv config (set_conn i ((y_conns y ! i)\<lparr>c_room := None, c_phase := Delivering remaining m k\<rparr>) (set_world w1 y))"
proof (rule sys_inv_room [OF inv i alive])
  show "inv_rooms config w1 ((map c_room (y_conns y))[i := None])"
    using Leave_inv [of config "wld y" "map c_room (y_conns y)" i room rng] inv i r l by (simp add: sys_inv_def)
qed (use k in \<open>auto simp: phase_ok_def\<close>)

lemma sys_inv_dispatch:
  assumes inv: "sys_inv config y" and i: "i < length (y_conns y)" and ph: "c_phase (y_conns y ! i) = Reading"
    and fresh: "fresh_id u y" and pos: "1 \<le> sc_MaxRoomSize config"
  shows "sys_inv config (dispatch E u issued i m y)"
proof -
  let ?c = "y_conns y ! i"
  let ?rs = "map c_room (y_conns y)"
  have alive: "c_phase ?c \<noteq> Gone" using ph by simp
  from inv have cfg: "cfg y = config" and rooms: "inv_rooms config (wld y) ?rs" by (simp_all add: sys_inv_def)
  from fresh have fr: "\<forall>a < w_next (wld y). r_ID (w_room (wld y) a) \<noteq> u" by (simp add: fresh_id_def)
  show ?thesis
  proof (cases "m_Type m = MsgJoinRoom")
    case True
    obtain res w1 where h: "handleJoin E (cfg y) u issued i (c_room ?c) m (wld y) = (res, w1)" by fastforce
    show ?thesis
    proof (cases res)
      case None
      have "inv_rooms config w1 ?rs"
        using handleJoin_inv(2) [OF rooms _ _ fr pos, of i "c_room ?c" E issued m w1] h None i cfg by simp
      then have "sys_inv config (set_world w1 y)" using inv by (simp add: sys_inv_def)
      with True h None show ?thesis by (simp add: dispatch_def Let_def)
    next
      case (Some room)
      have "inv_rooms config w1 (?rs[i := Some room])"
        using handleJoin_inv(1) [OF rooms _ _ fr pos, of i "c_room ?c" E issued m room w1] h Some i cfg by simp
      then have "sys_inv config (set_conn i (?c\<lparr>c_room := Some room, c_phase := Announcing room\<rparr>) (set_world w1 y))"
        by (rule sys_inv_room [OF inv i alive]) (simp_all add: phase_ok_def)
      with True h Some show ?thesis by (simp add: dispatch_def Let_def)
    qed
  next
    case join: False
    show ?thesis
    proof (cases "m_Type m = MsgOffer \<or> m_Type m = MsgAnswer \<or> m_Type m = MsgICECandidate")
      case True
      have q: "sys_inv config (set_world (sendError i code t (wld y)) y)" for code t
        by (rule sys_inv_queues [OF inv same_rooms_sendError])
      have l: "sys_inv config (set_conn i (?c\<lparr>c_phase := Routing t f\<rparr>) y)" for t f
        using sys_inv_local [OF inv i alive same_rooms_refl, of "Routing t f"] by (simp add: phase_ok_def)
      show ?thesis using join True q l by (auto simp: dispatch_def Let_def split: option.splits)
    next
      case False
      show ?thesis
      proof (cases "m_Type m = MsgLeaveRoom \<and> c_room ?c \<noteq> None")
        case True
        then obtain room where r: "c_room ?c = Some room" by blast
        obtain remaining w1 where l: "Leave (v_rng E) (Some room) (p_ID (w_peer (wld y) i)) (wld y) = (remaining, w1)"
          by fastforce
        from sys_inv_leave [OF inv i alive r _ l, of Reading] join False True r l show ?thesis
          by (simp add: dispatch_def Let_def)
      qed (use inv join False in \<open>auto simp: dispatch_def Let_def split: option.splits\<close>)
    qed
  qed
qed

lemma sys_inv_connect:
  assumes inv: "sys_inv config y" and fresh: "fresh_id u y"
  shows "sys_inv config (connect addr u hs y)"
proof (cases "fst (acquireConnection addr (y_server y))")
  case False
  then show ?thesis using inv by (cases "acquireConnection addr (y_server y)") (auto simp: connect_def)
next
  case True
  then obtain s' where acq: "acquireConnection addr (y_server y) = (True, s')"
    by (cases "acquireConnection addr (y_server y)") simp
  let ?c = "\<lparr>c_addr = addr, c_room = None, c_phase = (if hs then Reading else Closing)\<rparr>"
  let ?p = "\<lparr>p_ID = u, p_Username = [], p_Send = [], p_cancelled = False\<rparr>"
  have s: "sv_world s' = wld y" "sv_config s' = cfg y"
    "sv_connections s' = gm_set addr (gm_get0 (sv_connections (y_server y)) addr + 1) (sv_connections (y_server y))"
    "sv_totalConnections s' = sv_totalConnections (y_server y) + 1"
    "sv_totalConnections (y_server y) < sc_MaxConnections (cfg y)"
    "gm_get0 (sv_connections (y_server y)) addr < sc_MaxConnectionsPerIP (cfg y)"
    using acq by (auto simp: acquireConnection_def split: if_splits)
  have count: "inv_count (y_server y) (y_conns y)" using inv by (simp add: sys_inv_def)
  have alive: "live ?c" by (simp add: live_def)
  have "inv_count s' (y_conns y @ [?c])"
    unfolding inv_count_def s(2-4)
  proof (intro conjI allI)
    fix a
    show "gm_get0 (gm_set addr (gm_get0 (sv_connections (y_server y)) addr + 1) (sv_connections (y_server y))) a
        = int (length (filter (\<lambda>c. live c \<and> c_addr c = a) (y_conns y @ [?c])))"
      using count alive by (simp add: inv_count_def)
    have "gm_get0 (sv_connections (y_server y)) a \<le> sc_MaxConnectionsPerIP (cfg y)"
      using count unfolding inv_count_def by blast
    then show "gm_get0 (gm_set addr (gm_get0 (sv_connections (y_server y)) addr + 1) (sv_connections (y_server y))) a
        \<le> sc_MaxConnectionsPerIP (cfg y)"
      using s(6) by simp
  qed (use count alive s(5) in \<open>simp_all add: inv_count_def\<close>)
  moreover have "inv_rooms config (set_peer (length (y_conns y)) ?p (wld y)) (map c_room (y_conns y) @ [None])"
    using connect_inv [of config "wld y" "map c_room (y_conns y)" ?p] inv fresh by (simp add: sys_inv_def fresh_id_def)
  moreover have "phase_ok ?c" by (simp add: phase_ok_def)
  moreover have "connect addr u hs y = set_world (set_peer (length (y_conns y)) ?p (wld y))
      (y\<lparr>y_server := s', y_conns := y_conns y @ [?c]\<rparr>)"
    unfolding connect_def acq using s(1) by (simp add: Let_def)
  ultimately show ?thesis using inv s(2) by (simp only: sys_inv_def inv_count_set_world sys_proj) simp
qed

lemma sys_inv_close:
  assumes inv: "sys_inv config y" and i: "i < length (y_conns y)" and ph: "c_phase (y_conns y ! i) = Closing"
  shows "sys_inv config (closeConn i y)"
proof -
  let ?c = "y_conns y ! i"
  let ?g = "?c\<lparr>c_phase := Gone\<rparr>"
  let ?s = "y_server (closeConn i y)"
  have count: "inv_count (y_server y) (y_conns y)" using inv by (simp add: sys_inv_def)
  have alive: "live ?c" "\<not> live ?g" using ph by (simp_all add: live_def)
  have room: "c_room ?c = None" using sys_inv_conn [OF inv i] ph by (simp add: phase_ok_def)
  have s: "y_conns (closeConn i y) = (y_conns y)[i := ?g]" "sv_world ?s = peer_Cancel i (wld y)"
    "sv_config ?s = cfg y"
    "sv_connections ?s = sv_connections (releaseConnection (c_addr ?c) (y_server y))"
    "sv_totalConnections ?s = sv_totalConnections (releaseConnection (c_addr ?c) (y_server y))"
    by (simp_all add: closeConn_def Let_def releaseConnection_def)
  have n: "int (length (filter P ((y_conns y)[i := ?g]))) = int (length (filter P (y_conns y))) - (if P ?c then 1 else 0)"
    if "\<not> P ?g" for P using length_filter_update [OF i, of P ?g] that by simp
  let ?m = "sv_connections (y_server y)"
  have here: "gm_get0 ?m (c_addr ?c) = int (length (filter (\<lambda>c. live c \<and> c_addr c = c_addr ?c) (y_conns y)))"
    using count by (simp add: inv_count_def)
  have mem: "?c \<in> set (filter (\<lambda>c. live c \<and> c_addr c = c_addr ?c) (y_conns y))" "?c \<in> set (filter live (y_conns y))"
    using i alive by simp_all
  note pos = length_pos_if_in_set [OF mem(1)] length_pos_if_in_set [OF mem(2)]
  have least: "1 \<le> gm_get0 ?m (c_addr ?c)" unfolding here using pos(1) by linarith
  have get: "gm_get0 (sv_connections ?s) a = gm_get0 ?m a - (if a = c_addr ?c then 1 else 0)" for a
    using least unfolding s(4) by (auto simp: releaseConnection_def)
  have tot: "sv_totalConnections ?s = sv_totalConnections (y_server y) - 1"
    using pos(2) count unfolding s(5) by (auto simp: releaseConnection_def inv_count_def)
  have "inv_count ?s ((y_conns y)[i := ?g])"
    unfolding inv_count_def get tot s(3)
  proof (intro conjI allI)
    fix a
    show "gm_get0 ?m a - (if a = c_addr ?c then 1 else 0) =
        int (length (filter (\<lambda>c. live c \<and> c_addr c = a) ((y_conns y)[i := ?g])))"
      using n [of "\<lambda>c. live c \<and> c_addr c = a"] count alive by (auto simp: inv_count_def)
    have "gm_get0 ?m a \<le> sc_MaxConnectionsPerIP (cfg y)" using count unfolding inv_count_def by blast
    then show "gm_get0 ?m a - (if a = c_addr ?c then 1 else 0) \<le> sc_MaxConnectionsPerIP (cfg y)" by (cases "a = c_addr ?c") auto
  qed (use count n [of live] alive s(4) in \<open>auto simp: inv_count_def releaseConnection_def\<close>)
  moreover have "map c_room ((y_conns y)[i := ?g]) = map c_room (y_conns y)"
    using i by (simp add: map_update list_update_same_conv)
  moreover have "list_all phase_ok ((y_conns y)[i := ?g])"
    using inv room by (intro list_all_update) (simp_all add: sys_inv_def phase_ok_def)
  ultimately show ?thesis
    using inv inv_rooms_same [OF same_rooms_Cancel] by (simp add: sys_inv_def s(1-3))
qed

lemma sys_inv_exit:
  assumes inv: "sys_inv config y" and i: "i < length (y_conns y)" and ph: "c_phase (y_conns y ! i) = Exiting"
  shows "sys_inv config (exitLeave E i y)"
proof (cases "c_room (y_conns y ! i)")
  case None
  then have "sys_inv config (set_conn i ((y_conns y ! i)\<lparr>c_phase := Closing\<rparr>) y)"
    using sys_inv_local [OF inv i _ same_rooms_refl, of Closing] ph by (simp add: phase_ok_def)
  with None show ?thesis by (simp add: exitLeave_def)
next
  case (Some room)
  obtain remaining w1 where l: "Leave (v_rng E) (Some room) (p_ID (w_peer (wld y) i)) (wld y) = (remaining, w1)"
    by fastforce
  from sys_inv_leave [OF inv i _ Some _ l, of Closing] ph Some l show ?thesis by (simp add: exitLeave_def)
qed

lemma sys_inv_read:
  assumes inv: "sys_inv config y" and i: "i < length (y_conns y)" and ph: "c_phase (y_conns y ! i) = Reading"
    and fresh: "fresh_id u y" and pos: "1 \<le> sc_MaxRoomSize config"
  shows "sys_inv config (readLoop E rateOK tookDone u issued i inc y)"
proof -
  have "sys_inv config (set_conn i ((y_conns y ! i)\<lparr>c_phase := Exiting\<rparr>) y)"
    using sys_inv_local [OF inv i _ same_rooms_refl, of Exiting] ph by (simp add: phase_ok_def)
  moreover note sys_inv_fatal [OF inv i ph] sys_inv_dispatch [OF inv i ph fresh pos]
  ultimately show ?thesis by (simp add: readLoop_def split: incoming.split sum.split option.split)
qed

lemma sys_inv_route:
  assumes inv: "sys_inv config y" and i: "i < length (y_conns y)" and ph: "c_phase (y_conns y ! i) = Routing target m"
  shows "sys_inv config (routeNext i target m y)"
proof -
  obtain err w1 where r: "(case target of None \<Rightarrow> (Some ErrPeerNotFound, wld y) | Some a \<Rightarrow> enqueue a m (wld y)) = (err, w1)"
    by fastforce
  then have "same_rooms (wld y) w1" using same_rooms_enqueue [of "wld y" _ m] by (cases target) (auto, metis snd_conv)
  then have "same_rooms (wld y) (if err \<noteq> None then sendError i code t w1 else w1)" for code t
    using same_rooms_trans same_rooms_sendError by simp
  then show ?thesis
    unfolding routeNext_def Let_def r using sys_inv_local [OF inv i] ph
    by (simp add: phase_ok_def)
qed

lemma sys_step_inv:
  assumes "sys_step E y y'" "sys_inv config y" "1 \<le> sc_MaxRoomSize config"
  shows "sys_inv config y'"
  using assms
proof (induction rule: sys_step.induct)
  case (step_deliver i y a as m k)
  then have "phase_ok (y_conns y ! i)" by (blast intro: sys_inv_conn)
  then show ?case
    using step_deliver sys_inv_local [of config y i "snd (enqueue a m (wld y))" "Delivering as m k"]
    by (simp add: deliverNext_def phase_ok_def same_rooms_enqueue)
next
  case (step_delivered i y m k)
  then have "phase_ok (y_conns y ! i)" by (blast intro: sys_inv_conn)
  then show ?case
    using step_delivered sys_inv_local [of config y i "wld y" k]
    by (auto simp: phase_ok_def)
next
  case (step_announce i y room)
  then show ?case
    using sys_inv_local [of config y i "wld y"] by (simp add: announce_def Let_def phase_ok_def)
next
  case (step_waited i y)
  then show ?case
    using sys_inv_local [of config y i "wld y" Exiting] by (simp add: phase_ok_def)
next
  case (step_write i y written)
  show ?case
  proof (cases "p_Send (w_peer (wld y) i)")
    case Nil
    with step_write show ?thesis by (simp add: writePump_def)
  next
    case (Cons m rest)
    have "same_rooms (wld y) (set_peer i ((w_peer (wld y) i)\<lparr>p_Send := rest\<rparr>) (wld y))" (is "same_rooms _ ?w1")
      by (simp add: same_rooms_set_peer)
    moreover from this have "same_rooms (wld y) (peer_Cancel i ?w1)" by (rule same_rooms_trans [OF _ same_rooms_Cancel])
    ultimately show ?thesis using Cons step_write sys_inv_queues by (simp add: writePump_def Let_def)
  qed
next
  case (step_heartbeat i y alive)
  then show ?case using sys_inv_queues [OF _ same_rooms_Cancel] by (simp add: heartbeat_def)
qed (simp_all add: sys_inv_connect sys_inv_read sys_inv_route sys_inv_exit sys_inv_close)

lemma NewServer_limits:
  assumes "NewServer b config = Inr s"
  shows "2 \<le> sc_MaxRoomSize config" "1 \<le> sc_MaxRooms config" "1 \<le> sc_MaxConnectionsPerIP config"
    "1 \<le> sc_MaxConnections config" "sc_MaxConnectionsPerIP config \<le> sc_MaxConnections config"
    "s = \<lparr>sv_world = empty_world (sc_MaxRooms config), sv_config = config, sv_connections = gm_empty, sv_totalConnections = 0\<rparr>"
  using assms by (auto simp: NewServer_def split: if_splits)

lemma sys_inv_start:
  assumes "NewServer b config = Inr s"
  shows "sys_inv config \<lparr>y_server = s, y_conns = []\<rparr>"
proof -
  note lim = NewServer_limits [OF assms]
  have "inv_rooms config (empty_world (sc_MaxRooms config)) []"
    using lim(2) by (intro inv_roomsI) (simp_all add: empty_world_def wf_rooms_def current_def NewRoomManager_def)
  moreover have "inv_count s []"
    unfolding lim(6) using lim(3,4) by (simp add: inv_count_def)
  ultimately show ?thesis by (simp add: sys_inv_def lim(6))
qed

interpretation server_run: transition_invariant
  "\<lambda>y. \<exists>s. NewServer True config = Inr s \<and> y = \<lparr>y_server = s, y_conns = []\<rparr>"
  "sys_step E" "\<lambda>y. sys_inv config y \<and> 2 \<le> sc_MaxRoomSize config" for config E
proof unfold_locales
  show "sys_inv config y \<and> 2 \<le> sc_MaxRoomSize config"
    if "\<exists>s. NewServer True config = Inr s \<and> y = \<lparr>y_server = s, y_conns = []\<rparr>" for y
    using that sys_inv_start NewServer_limits(1) by blast
  show "sys_inv config z \<and> 2 \<le> sc_MaxRoomSize config"
    if "sys_inv config y \<and> 2 \<le> sc_MaxRoomSize config" "sys_step E y z" for y z
    using that sys_step_inv [of E y z config] by simp
qed

lemma reachable_steps:
  "reachable E config y \<Longrightarrow> \<exists>s. NewServer True config = Inr s \<and> (sys_step E)\<^sup>*\<^sup>* \<lparr>y_server = s, y_conns = []\<rparr> y"
  by (induction rule: reachable.induct) (auto intro: rtranclp.rtrancl_into_rtrancl)

lemma reachable_inv: "reachable E config y \<Longrightarrow> sys_inv config y \<and> 2 \<le> sc_MaxRoomSize config"
  using reachable_steps [of E config y] server_run.reach_inv [of config _ E y] by blast

section \<open>Properties of every interleaving\<close>

text \<open>C4: However the handlers interleave, the limits of the configuration hold: the connections
  that are open in total and from any one address, the rooms, and the members of each
  room; the counters count exactly the connections whose handler has not returned, and no
  registered room is empty.\<close>

theorem server_limits:
  assumes "reachable E config y"
  shows "sv_totalConnections (y_server y) = int (length (filter live (y_conns y))) \<and>
    sv_totalConnections (y_server y) \<le> sc_MaxConnections config \<and>
    gm_get0 (sv_connections (y_server y)) a = int (length (filter (\<lambda>c. live c \<and> c_addr c = a) (y_conns y))) \<and>
    gm_get0 (sv_connections (y_server y)) a \<le> sc_MaxConnectionsPerIP config \<and>
    RoomCount (wld y) \<le> sc_MaxRooms config \<and>
    (current r (wld y) \<longrightarrow> 0 < gm_len (r_peers (w_room (wld y) r)) \<and>
       gm_len (r_peers (w_room (wld y) r)) \<le> sc_MaxRoomSize config)"
proof -
  from reachable_inv [OF assms] have cfg: "cfg y = config" and inv: "inv_rooms config (wld y) (map c_room (y_conns y))"
    and count: "inv_count (y_server y) (y_conns y)" by (auto simp: sys_inv_def)
  have "wf_room (wld y) (r_ID (w_room (wld y) r)) r" if "current r (wld y)"
    using that inv_wf [OF inv] by (simp add: current_def wf_rooms_def)
  then have room: "current r (wld y) \<longrightarrow> 0 < gm_len (r_peers (w_room (wld y) r)) \<and>
       gm_len (r_peers (w_room (wld y) r)) \<le> sc_MaxRoomSize config"
    using inv_size [OF inv, of r] by (auto simp: wf_room_def)
  have "RoomCount (wld y) \<le> sc_MaxRooms config"
    using inv_wf [OF inv] inv_max [OF inv] by (simp add: RoomCount_def wf_rooms_def)
  with room count cfg show ?thesis unfolding inv_count_def by blast
qed

text \<open>C3: Handlers and rooms agree in every interleaving: a handler's current room is a registered
  room that holds its peer under the peer's identifier, every member of a registered room belongs to
  a handler whose current room it is, so no peer is in two rooms, and a connection that is gone is in
  no room.\<close>

theorem membership_consistent:
  assumes "reachable E config y" and "i < length (y_conns y)"
  shows "(c_room (y_conns y ! i) = Some r \<longleftrightarrow>
      current r (wld y) \<and> gm_get (r_peers (w_room (wld y) r)) (p_ID (w_peer (wld y) i)) = Some i) \<and>
    (current r (wld y) \<and> gm_get (r_peers (w_room (wld y) r)) k = Some i \<longrightarrow>
       k = p_ID (w_peer (wld y) i) \<and> c_room (y_conns y ! i) = Some r \<and> live (y_conns y ! i))"
proof -
  from reachable_inv [OF assms(1)] have inv: "inv_rooms config (wld y) (map c_room (y_conns y))"
    and ok: "phase_ok (y_conns y ! i)" using assms(2) by (auto simp: sys_inv_def list_all_nth)
  have "k = p_ID (w_peer (wld y) i)" if "current r (wld y)" "gm_get (r_peers (w_room (wld y) r)) k = Some i" for r k
    using that inv_wf [OF inv] by (auto simp: current_def wf_rooms_def wf_room_def)
  then show ?thesis
    using inv_joined [OF inv, of i r] inv_member [OF inv, of r _ i] assms(2) ok
    by (auto simp: phase_ok_def live_def)
qed

section \<open>A concrete run\<close>

definition sample_config :: ServerConfig where
  "sample_config = \<lparr>sc_MaxRoomSize = 2, sc_MaxRooms = 1, sc_MaxConnections = 2, sc_AllowedOrigins = [],
     sc_MaxConnectionsPerIP = 1, sc_MessageRate = Fin 1, sc_MessageBurst = 1\<rparr>"

definition sample_env :: env where
  "sample_env = \<lparr>v_tables = no_tables, v_rng = (\<lambda>xs. xs), v_error_text = (\<lambda>_. ''invalid'')\<rparr>"

definition sample_start :: sys where
  "sample_start = \<lparr>y_server = \<lparr>sv_world = empty_world 1, sv_config = sample_config,
     sv_connections = gm_empty, sv_totalConnections = 0\<rparr>, y_conns = []\<rparr>"

definition sample_uuid :: string where
  "sample_uuid = ''123e4567-e89b-42d3-a456-426614174000''"

definition sample_connected :: sys where
  "sample_connected = connect ''10.0.0.1'' sample_uuid True sample_start"

lemma sample_reachable: "reachable sample_env sample_config sample_connected"
proof -
  have "NewServer True sample_config = Inr (y_server sample_start)"
    by (simp add: NewServer_def sample_config_def sample_start_def float_le_def)
  then have r: "reachable sample_env sample_config sample_start"
    using reach_start [of sample_config "y_server sample_start" sample_env] by (simp add: sample_start_def)
  have "uuid_shape sample_uuid" by code_simp
  then have "fresh_id sample_uuid sample_start"
    by (simp add: fresh_id_def sample_start_def empty_world_def)
  then show ?thesis unfolding sample_connected_def by (intro reach_step [OF r] step_connect)
qed

lemma sample_conns: "length (y_conns sample_connected) = 1"
  by code_simp

theorem server_limits_witness: "sv_totalConnections (y_server sample_connected) \<le> 2"
proof -
  have "sc_MaxConnections sample_config = 2" by code_simp
  then show ?thesis using server_limits [OF sample_reachable, of "''10.0.0.1''" 0] by simp
qed

theorem membership_consistent_witness:
  "c_room (y_conns sample_connected ! 0) = Some 0 \<longleftrightarrow>
     current 0 (wld sample_connected) \<and>
     gm_get (r_peers (w_room (wld sample_connected) 0)) (p_ID (w_peer (wld sample_connected) 0)) = Some 0"
  using membership_consistent [OF sample_reachable, of 0 0] sample_conns by simp

end
