(* ===== verification/Config.thy ===== *)
theory Config
  imports Turn Go_Float
begin

text \<open>
  The server's configuration (\<^verbatim>\<open>internal/config/server.go\<close>): the \<^verbatim>\<open>.env\<close> file, the
  environment variables, the command line and the validation of the result. Parsers of the Go
  library that read a number, a duration, an address, a URL, a glob pattern or a quoted literal
  are fields of the parameter \<open>std\<close>; the scanner of lines, \<^verbatim>\<open>strconv.ParseBool\<close> and
  the flag package's treatment of an argument list are written out. Error texts are reduced to the
  condition they report.
\<close>

section \<open>The library's parsers\<close>

record url =
  u_Scheme :: string
  u_HasUser :: bool
  u_Host :: string
  u_Hostname :: string
  u_Path :: string
  u_RawQuery :: string
  u_Fragment :: string

record std =
  std_ParseIP :: "string \<Rightarrow> IP"
  std_ParseFloat :: "string \<Rightarrow> go_float option"
  std_ParseDuration :: "string \<Rightarrow> int option"
  std_ParseInt0 :: "string \<Rightarrow> int option"
  std_ParseURL :: "string \<Rightarrow> url option"
  std_PathMatch :: "string \<Rightarrow> string \<Rightarrow> bool option"
  std_Unquote :: "string \<Rightarrow> string option"
  std_tables :: unicode_tables

definition ParseBool :: "string \<Rightarrow> bool option" where
  "ParseBool s =
     (if s \<in> {''1'', ''t'', ''T'', ''true'', ''TRUE'', ''True''} then Some True
      else if s \<in> {''0'', ''f'', ''F'', ''false'', ''FALSE'', ''False''} then Some False
      else None)"

definition JoinHostPort :: "string \<Rightarrow> string \<Rightarrow> string" where
  "JoinHostPort host port =
     (if CHR '':'' \<in> set host then ''['' @ host @ '']:'' @ port else host @ '':'' @ port)"

section \<open>Types\<close>

datatype config_error =
    NotInteger string | NotNumber string | NotBoolean string | NotDuration string
  | FlagSyntax string | FlagUnknown string | FlagHelp | FlagValue string | FlagNoValue string
  | UnexpectedArguments "string list"
  | BadBind | NotPublicIP | BadPort string | RelayOrder | RoomSize | TurnSecret | Lifetime
  | PerUserQuota | TotalQuota | ConnectionsPerIP | TotalConnections | MaxRoomsLimit
  | MessageRateLimit | MessageBurstLimit | BadOrigin string
  | OpenFile | NoEquals nat | BadKey nat string | BadQuote nat | ReadEnvironment

record config_Server =
  cs_HTTPAddress :: string
  cs_PublicIP :: IP
  cs_TURNPort :: int
  cs_RelayPortMin :: int
  cs_RelayPortMax :: int
  cs_MaxRoomSize :: int
  cs_TURNSharedSecret :: string
  cs_TURNCredentialTTL :: int
  cs_TURNPerUserQuota :: int
  cs_TURNTotalQuota :: int
  cs_AllowPrivatePeers :: bool
  cs_AllowedOrigins :: "string list"
  cs_MaxRooms :: int
  cs_MaxConnections :: int
  cs_MaxConnectionsPerIP :: int
  cs_MessageRate :: go_float
  cs_MessageBurst :: int

record serverInput =
  in_wsBind :: string
  in_wsPort :: int
  in_publicIP :: string
  in_turnPort :: int
  in_relayMin :: int
  in_relayMax :: int
  in_maxRoomSize :: int
  in_turnSecret :: string
  in_credentialTTL :: int
  in_perUserQuota :: int
  in_totalQuota :: int
  in_allowPrivatePeers :: bool
  in_allowedOrigins :: string
  in_maxConnections :: int
  in_maxTotalConnections :: int
  in_maxRooms :: int
  in_messageRate :: go_float
  in_messageBurst :: int

section \<open>Validation\<close>

definition validatePort :: "string \<Rightarrow> int \<Rightarrow> config_error option" where
  "validatePort name port = (if port < 1 \<or> 65535 < port then Some (BadPort name) else None)"

definition minimumTURNSecretBytes :: nat where
  "minimumTURNSecretBytes = 32"

definition validTURNSecret :: "string \<Rightarrow> bool" where
  "validTURNSecret secret =
     (if length secret < minimumTURNSecretBytes \<or> secret = ''termcall'' then False
      else 8 \<le> length (remdups secret))"

definition splitCommaList :: "string \<Rightarrow> string list" where
  "splitCommaList value =
     (if go_trim_space value = [] then []
      else filter (\<lambda>item. item \<noteq> []) (map go_trim_space (split_on (CHR '','') value)))"

fun contains_scheme :: "string \<Rightarrow> bool" where
  "contains_scheme [] = False"
| "contains_scheme (c # cs) = (take 3 (c # cs) = ''://'' \<or> contains_scheme cs)"

definition bad_origin :: "std \<Rightarrow> string \<Rightarrow> bool" where
  "bad_origin L origin =
     (if origin = ''*'' \<or> 256 < length origin \<or>
         list_ex (\<lambda>c. c \<in> {CHR '' '', CHR 0x09, CHR 0x0D, CHR 0x0A, CHR 0x00}) origin then True
      else if contains_scheme origin then
        (case std_ParseURL L origin of
           None \<Rightarrow> True
         | Some u \<Rightarrow> u_Scheme u \<noteq> ''http'' \<and> u_Scheme u \<noteq> ''https'' \<or> u_Host u = [] \<or>
             u_Path u \<noteq> [] \<or> u_RawQuery u \<noteq> [] \<or> u_Fragment u \<noteq> [])
      else std_PathMatch L origin ''example.com'' = None)"

definition validateOriginList :: "std \<Rightarrow> string \<Rightarrow> (config_error, string list) res" where
  "validateOriginList L value =
     (let origins = splitCommaList value
      in case find (bad_origin L) origins of
           Some origin \<Rightarrow> Inl (BadOrigin origin)
         | None \<Rightarrow> Inr origins)"

definition deniedPublicIPv4Prefixes :: "prefix list" where
  "deniedPublicIPv4Prefixes =
     [([0, 0, 0, 0], 8), ([100, 64, 0, 0], 10), ([192, 0, 0, 0], 24), ([192, 0, 2, 0], 24),
      ([198, 18, 0, 0], 15), ([198, 51, 100, 0], 24), ([203, 0, 113, 0], 24)]"

definition isPublicIPv4 :: "IP \<Rightarrow> bool" where
  "isPublicIPv4 ip =
     (if ip = [] then False
      else (case To4 ip of
          None \<Rightarrow> False
        | Some b \<Rightarrow>
            (case AddrFromSlice b of
               None \<Rightarrow> False
             | Some address \<Rightarrow>
                 if \<not> IsGlobalUnicast address \<or> IsPrivate address \<or> IsLoopback address
                    \<or> IsLinkLocalUnicast address then False
                 else \<not> list_ex (\<lambda>p. prefix_contains p address) deniedPublicIPv4Prefixes)))"

definition validateServer :: "std \<Rightarrow> serverInput \<Rightarrow> (config_error, config_Server) res" where
  "validateServer L i =
     (let publicIP = std_ParseIP L (in_publicIP i)
      in if std_ParseIP L (in_wsBind i) = [] then Inl BadBind
      else if \<not> isPublicIPv4 publicIP then Inl NotPublicIP
      else if validatePort ''HTTP port'' (in_wsPort i) \<noteq> None then Inl (BadPort ''HTTP port'')
      else if validatePort ''TURN port'' (in_turnPort i) \<noteq> None then Inl (BadPort ''TURN port'')
      else if validatePort ''relay minimum'' (in_relayMin i) \<noteq> None then Inl (BadPort ''relay minimum'')
      else if validatePort ''relay maximum'' (in_relayMax i) \<noteq> None then Inl (BadPort ''relay maximum'')
      else if in_relayMax i < in_relayMin i then Inl RelayOrder
      else if in_maxRoomSize i < 2 \<or> 16 < in_maxRoomSize i then Inl RoomSize
      else if \<not> validTURNSecret (in_turnSecret i) then Inl TurnSecret
      else if in_credentialTTL i < minute \<or> hour < in_credentialTTL i then Inl Lifetime
      else if in_perUserQuota i < 1 \<or> 10 < in_perUserQuota i then Inl PerUserQuota
      else if in_totalQuota i < in_perUserQuota i \<or> 10000 < in_totalQuota i then Inl TotalQuota
      else if in_maxConnections i < 1 \<or> 1000 < in_maxConnections i then Inl ConnectionsPerIP
      else if in_maxTotalConnections i < in_maxConnections i \<or> 10000 < in_maxTotalConnections i then Inl TotalConnections
      else if in_maxRooms i < 1 \<or> in_maxTotalConnections i < in_maxRooms i then Inl MaxRoomsLimit
      else if float_less (in_messageRate i) (Fin 1) \<or> float_less (Fin 1000) (in_messageRate i) then Inl MessageRateLimit
      else if in_messageBurst i < 1 \<or> 2000 < in_messageBurst i then Inl MessageBurstLimit
      else (case validateOriginList L (in_allowedOrigins i) of
          Inl e \<Rightarrow> Inl e
        | Inr origins \<Rightarrow>
            Inr \<lparr>cs_HTTPAddress = JoinHostPort (in_wsBind i) (go_itoa (in_wsPort i)),
                 cs_PublicIP = (case To4 publicIP of None \<Rightarrow> [] | Some b \<Rightarrow> b),
                 cs_TURNPort = in_turnPort i mod 65536,
                 cs_RelayPortMin = in_relayMin i mod 65536,
                 cs_RelayPortMax = in_relayMax i mod 65536,
                 cs_MaxRoomSize = in_maxRoomSize i,
                 cs_TURNSharedSecret = in_turnSecret i,
                 cs_TURNCredentialTTL = in_credentialTTL i,
                 cs_TURNPerUserQuota = in_perUserQuota i,
                 cs_TURNTotalQuota = in_totalQuota i,
                 cs_AllowPrivatePeers = in_allowPrivatePeers i,
                 cs_AllowedOrigins = origins,
                 cs_MaxRooms = in_maxRooms i,
                 cs_MaxConnections = in_maxTotalConnections i,
                 cs_MaxConnectionsPerIP = in_maxConnections i,
                 cs_MessageRate = in_messageRate i,
                 cs_MessageBurst = in_messageBurst i\<rparr>))"

section \<open>Environment and flags\<close>

type_synonym lookup = "string \<Rightarrow> string option"

definition envString :: "lookup \<Rightarrow> string \<Rightarrow> string \<Rightarrow> string" where
  "envString lookup key fallback = (case lookup key of Some value \<Rightarrow> value | None \<Rightarrow> fallback)"

definition envValue ::
  "(string \<Rightarrow> 'a option) \<Rightarrow> (string \<Rightarrow> config_error) \<Rightarrow> lookup \<Rightarrow> string \<Rightarrow> 'a \<Rightarrow> (config_error, 'a) res" where
  "envValue parse err lookup key fallback =
     (case lookup key of
        None \<Rightarrow> Inr fallback
      | Some value \<Rightarrow>
          if value = [] then Inr fallback
          else (case parse value of None \<Rightarrow> Inl (err key) | Some x \<Rightarrow> Inr x))"

definition envInt :: "lookup \<Rightarrow> string \<Rightarrow> int \<Rightarrow> (config_error, int) res" where
  "envInt = envValue go_atoi NotInteger"

definition envFloat :: "std \<Rightarrow> lookup \<Rightarrow> string \<Rightarrow> go_float \<Rightarrow> (config_error, go_float) res" where
  "envFloat L = envValue (std_ParseFloat L) NotNumber"

definition envBool :: "lookup \<Rightarrow> string \<Rightarrow> bool \<Rightarrow> (config_error, bool) res" where
  "envBool = envValue ParseBool NotBoolean"

definition envDuration :: "std \<Rightarrow> lookup \<Rightarrow> string \<Rightarrow> int \<Rightarrow> (config_error, int) res" where
  "envDuration L = envValue (std_ParseDuration L) NotDuration"

text \<open>The flags: a name, whether it is boolean, and what setting it does.\<close>

type_synonym 'i flag = "string \<times> bool \<times> (string \<Rightarrow> 'i \<Rightarrow> 'i option)"

definition serverFlags :: "std \<Rightarrow> serverInput flag list" where
  "serverFlags L =
     (let int_flag = (\<lambda>upd s i. map_option (\<lambda>v. upd v i) (std_ParseInt0 L s)) in
     [(''bind'', False, \<lambda>s i. Some (i\<lparr>in_wsBind := s\<rparr>)),
      (''port'', False, int_flag (\<lambda>v i. i\<lparr>in_wsPort := v\<rparr>)),
      (''turn-port'', False, int_flag (\<lambda>v i. i\<lparr>in_turnPort := v\<rparr>)),
      (''turn-ip'', False, \<lambda>s i. Some (i\<lparr>in_publicIP := s\<rparr>)),
      (''relay-min'', False, int_flag (\<lambda>v i. i\<lparr>in_relayMin := v\<rparr>)),
      (''relay-max'', False, int_flag (\<lambda>v i. i\<lparr>in_relayMax := v\<rparr>)),
      (''max-room-size'', False, int_flag (\<lambda>v i. i\<lparr>in_maxRoomSize := v\<rparr>)),
      (''turn-secret'', False, \<lambda>s i. Some (i\<lparr>in_turnSecret := s\<rparr>)),
      (''turn-credential-ttl'', False, \<lambda>s i. map_option (\<lambda>v. i\<lparr>in_credentialTTL := v\<rparr>) (std_ParseDuration L s)),
      (''turn-per-user-quota'', False, int_flag (\<lambda>v i. i\<lparr>in_perUserQuota := v\<rparr>)),
      (''turn-total-quota'', False, int_flag (\<lambda>v i. i\<lparr>in_totalQuota := v\<rparr>)),
      (''turn-allow-private-peers'', True, \<lambda>s i. map_option (\<lambda>v. i\<lparr>in_allowPrivatePeers := v\<rparr>) (ParseBool s)),
      (''allowed-origins'', False, \<lambda>s i. Some (i\<lparr>in_allowedOrigins := s\<rparr>)),
      (''max-connections-per-ip'', False, int_flag (\<lambda>v i. i\<lparr>in_maxConnections := v\<rparr>)),
      (''max-connections'', False, int_flag (\<lambda>v i. i\<lparr>in_maxTotalConnections := v\<rparr>)),
      (''max-rooms'', False, int_flag (\<lambda>v i. i\<lparr>in_maxRooms := v\<rparr>)),
      (''message-rate'', False, \<lambda>s i. map_option (\<lambda>v. i\<lparr>in_messageRate := v\<rparr>) (std_ParseFloat L s)),
      (''message-burst'', False, int_flag (\<lambda>v i. i\<lparr>in_messageBurst := v\<rparr>))])"

text \<open>\<^verbatim>\<open>FlagSet.Parse\<close>: the settings after the flags and the arguments that are left.\<close>

definition split_flag :: "string \<Rightarrow> string \<times> string option" where
  "split_flag name =
     (case index_byte (CHR ''='') (tl name) of
        None \<Rightarrow> (name, None)
      | Some k \<Rightarrow> (take (Suc k) name, Some (drop (Suc (Suc k)) name)))"

function parseFlags :: "'i flag list \<Rightarrow> string list \<Rightarrow> 'i \<Rightarrow> (config_error, 'i \<times> string list) res" where
  "parseFlags flags [] i = Inr (i, [])"
| "parseFlags flags (s # rest) i =
     (if length s < 2 \<or> hd s \<noteq> CHR ''-'' then Inr (i, s # rest)
      else if s = ''--'' then Inr (i, rest)
      else
        let body = (if s ! 1 = CHR ''-'' then drop 2 s else drop 1 s)
        in if body = [] \<or> hd body = CHR ''-'' \<or> hd body = CHR ''='' then Inl (FlagSyntax s)
           else (case split_flag body of (name, value) \<Rightarrow>
             (case map_of flags name of
                None \<Rightarrow> if name = ''help'' \<or> name = ''h'' then Inl FlagHelp else Inl (FlagUnknown name)
              | Some (isBool, upd) \<Rightarrow>
                  (case value of
                     Some v \<Rightarrow>
                       (case upd v i of None \<Rightarrow> Inl (FlagValue name) | Some i' \<Rightarrow> parseFlags flags rest i')
                   | None \<Rightarrow>
                       if isBool then
                         (case upd ''true'' i of None \<Rightarrow> Inl (FlagValue name) | Some i' \<Rightarrow> parseFlags flags rest i')
                       else (case rest of
                           [] \<Rightarrow> Inl (FlagNoValue name)
                         | v # rest' \<Rightarrow>
                             (case upd v i of None \<Rightarrow> Inl (FlagValue name)
                              | Some i' \<Rightarrow> parseFlags flags rest' i'))))))"
  by pat_completeness auto
termination
  by (relation "measure (\<lambda>(fl, args, i). length args)") auto

declare parseFlags.simps(2) [simp del]

text \<open>The defaults from the environment, in the order in which they are read.\<close>

definition envInput :: "std \<Rightarrow> lookup \<Rightarrow> (config_error, serverInput) res" where
  "envInput L lookup =
     (let wsBind = envString lookup ''TERMCALL_WS_BIND'' ''127.0.0.1'' in
      case envInt lookup ''TERMCALL_WS_PORT'' 8080 of Inl e \<Rightarrow> Inl e | Inr wsPort \<Rightarrow>
      (case envInt lookup ''TERMCALL_TURN_PORT'' 3478 of Inl e \<Rightarrow> Inl e | Inr turnPort \<Rightarrow>
      (case envInt lookup ''TERMCALL_RELAY_PORT_MIN'' 49152 of Inl e \<Rightarrow> Inl e | Inr relayMin \<Rightarrow>
      (case envInt lookup ''TERMCALL_RELAY_PORT_MAX'' 65535 of Inl e \<Rightarrow> Inl e | Inr relayMax \<Rightarrow>
      (case envInt lookup ''TERMCALL_MAX_ROOM_SIZE'' 5 of Inl e \<Rightarrow> Inl e | Inr maxRoomSize \<Rightarrow>
      (case envDuration L lookup ''TERMCALL_TURN_CREDENTIAL_TTL'' (10 * minute) of Inl e \<Rightarrow> Inl e | Inr credentialTTL \<Rightarrow>
      (case envInt lookup ''TERMCALL_TURN_PER_USER_QUOTA'' 2 of Inl e \<Rightarrow> Inl e | Inr perUserQuota \<Rightarrow>
      (case envInt lookup ''TERMCALL_TURN_TOTAL_QUOTA'' 100 of Inl e \<Rightarrow> Inl e | Inr totalQuota \<Rightarrow>
      (case envBool lookup ''TERMCALL_TURN_ALLOW_PRIVATE_PEERS'' False of Inl e \<Rightarrow> Inl e | Inr allowPrivatePeers \<Rightarrow>
      (case envInt lookup ''TERMCALL_MAX_CONNECTIONS_PER_IP'' 20 of Inl e \<Rightarrow> Inl e | Inr maxConnections \<Rightarrow>
      (case envInt lookup ''TERMCALL_MAX_CONNECTIONS'' 1000 of Inl e \<Rightarrow> Inl e | Inr maxTotalConnections \<Rightarrow>
      (case envInt lookup ''TERMCALL_MAX_ROOMS'' 200 of Inl e \<Rightarrow> Inl e | Inr maxRooms \<Rightarrow>
      (case envFloat L lookup ''TERMCALL_MESSAGE_RATE'' (Fin 20) of Inl e \<Rightarrow> Inl e | Inr messageRate \<Rightarrow>
      (case envInt lookup ''TERMCALL_MESSAGE_BURST'' 40 of Inl e \<Rightarrow> Inl e | Inr messageBurst \<Rightarrow>
        Inr \<lparr>in_wsBind = wsBind, in_wsPort = wsPort,
             in_publicIP = envString lookup ''TERMCALL_PUBLIC_IP'' [],
             in_turnPort = turnPort, in_relayMin = relayMin, in_relayMax = relayMax,
             in_maxRoomSize = maxRoomSize,
             in_turnSecret = envString lookup ''TERMCALL_TURN_SECRET'' [],
             in_credentialTTL = credentialTTL, in_perUserQuota = perUserQuota, in_totalQuota = totalQuota,
             in_allowPrivatePeers = allowPrivatePeers,
             in_allowedOrigins = envString lookup ''TERMCALL_ALLOWED_ORIGINS'' [],
             in_maxConnections = maxConnections, in_maxTotalConnections = maxTotalConnections,
             in_maxRooms = maxRooms, in_messageRate = messageRate, in_messageBurst = messageBurst\<rparr>))))))))))))))"

definition ParseServer :: "std \<Rightarrow> string list \<Rightarrow> lookup \<Rightarrow> (config_error, config_Server) res" where
  "ParseServer L args lookup =
     (case envInput L lookup of
        Inl e \<Rightarrow> Inl e
      | Inr i \<Rightarrow>
          (case parseFlags (serverFlags L) args i of
             Inl e \<Rightarrow> Inl e
           | Inr (i', rest) \<Rightarrow>
               if rest \<noteq> [] then Inl (UnexpectedArguments rest) else validateServer L i'))"

section \<open>The .env file\<close>

fun envKeyLoop :: "unicode_tables \<Rightarrow> nat \<Rightarrow> (nat \<times> string) list \<Rightarrow> bool" where
  "envKeyLoop U index [] = True"
| "envKeyLoop U index ((char, bs) # rest) =
     (let isStart = (index = 0 \<and> (char = 95 \<or> is_letter U char));
          isContinuation = (0 < index \<and> (char = 95 \<or> is_letter U char \<or> is_unicode_digit U char))
      in if \<not> isStart \<and> \<not> isContinuation then False else envKeyLoop U (index + length bs) rest)"

definition validEnvKey :: "unicode_tables \<Rightarrow> string \<Rightarrow> bool" where
  "validEnvKey U key = (if key = [] then False else envKeyLoop U 0 (runes key))"

definition unquoteEnvValue :: "std \<Rightarrow> string \<Rightarrow> string option" where
  "unquoteEnvValue L value =
     (if length value < 2 \<or> last value \<noteq> hd value then None
      else if hd value = CHR 0x27 then
        (let inner = butlast (tl value) in if CHR 0x27 \<in> set inner then None else Some inner)
      else std_Unquote L value)"

text \<open>\<^verbatim>\<open>bufio.Scanner\<close> over lines: a line ends at a line feed, a carriage return before it is
  dropped, text after the last line feed is a line unless it is empty, and a line that fills the
  64 KiB buffer is an error.\<close>

definition scan_lines :: "string \<Rightarrow> string list" where
  "scan_lines s =
     (let ls = split_on (CHR 0x0A) s in if last ls = [] then butlast ls else ls)"

definition drop_cr :: "string \<Rightarrow> string" where
  "drop_cr l = (if l \<noteq> [] \<and> last l = CHR 0x0D then butlast l else l)"

definition cut_equals :: "string \<Rightarrow> (string \<times> string) option" where
  "cut_equals l =
     (case index_byte (CHR ''='') l of None \<Rightarrow> None | Some k \<Rightarrow> Some (take k l, drop (Suc k) l))"

definition parseEnvLine :: "std \<Rightarrow> nat \<Rightarrow> string \<Rightarrow> (config_error, (string \<times> string) option) res" where
  "parseEnvLine L lineNumber text0 =
     (let line = go_trim_space text0
      in if line = [] \<or> hd line = CHR ''#'' then Inr None
         else (case cut_equals line of
             None \<Rightarrow> Inl (NoEquals lineNumber)
           | Some (k, v) \<Rightarrow>
               let key = go_trim_space k; value = go_trim_space v
               in if \<not> validEnvKey (std_tables L) key then Inl (BadKey lineNumber key)
                  else if value \<noteq> [] \<and> (hd value = CHR 0x22 \<or> hd value = CHR 0x27) then
                    (case unquoteEnvValue L value of
                       None \<Rightarrow> Inl (BadQuote lineNumber)
                     | Some u \<Rightarrow> Inr (Some (key, u)))
                  else Inr (Some (key, value))))"

fun parseEnvLines :: "std \<Rightarrow> nat \<Rightarrow> string list \<Rightarrow> (string, string) gomap \<Rightarrow> (config_error, (string, string) gomap) res" where
  "parseEnvLines L n [] values = Inr values"
| "parseEnvLines L n (l # ls) values =
     (if 65536 \<le> length l then Inl ReadEnvironment
      else (case parseEnvLine L n (drop_cr l) of
          Inl e \<Rightarrow> Inl e
        | Inr None \<Rightarrow> parseEnvLines L (Suc n) ls values
        | Inr (Some (k, v)) \<Rightarrow> parseEnvLines L (Suc n) ls (gm_set k v values)))"

definition parseEnv :: "std \<Rightarrow> string \<Rightarrow> (config_error, (string, string) gomap) res" where
  "parseEnv L content = parseEnvLines L 1 (scan_lines content) gm_empty"

text \<open>Opening the file finds nothing, fails or yields its content.\<close>

datatype open_result = NotExist | OpenError | Content string

definition readEnvFile :: "std \<Rightarrow> open_result \<Rightarrow> (config_error, (string, string) gomap) res" where
  "readEnvFile L file =
     (case file of
        NotExist \<Rightarrow> Inr gm_empty
      | OpenError \<Rightarrow> Inl OpenFile
      | Content c \<Rightarrow> parseEnv L c)"

definition LoadServer :: "std \<Rightarrow> lookup \<Rightarrow> string list \<Rightarrow> open_result \<Rightarrow> (config_error, config_Server) res" where
  "LoadServer L osEnv args file =
     (case readEnvFile L file of
        Inl e \<Rightarrow> Inl e
      | Inr fileValues \<Rightarrow>
          ParseServer L args (\<lambda>key. case osEnv key of Some v \<Rightarrow> Some v | None \<Rightarrow> gm_get fileValues key))"

end
