(* ===== verification/Signaling_Client.thy ===== *)
theory Signaling_Client
  imports Signaling_Server Config
begin

text \<open>
  The signaling client (\<^verbatim>\<open>internal/signaling/client.go\<close>): the checks before and during
  \<open>Dial\<close>, sending, the read pump with its bounded queue, and closing. The outcome of the
  WebSocket library's calls and the clock (Unix seconds) are arguments.
\<close>

section \<open>Types\<close>

datatype admission_error =
    AdmissionRoom proto_error | AdmissionLocalPeer proto_error | NoICEServers | TooManyICEServers
  | TooManyPeers | IncompleteCredentials | ExpiredCredentials | InvalidICEURL
  | AdmissionPeer proto_error | IncludesSelf | DuplicatePeer | AdmissionUsername proto_error

datatype dial_error =
    ParseURL | URLHost | InsecureWS | URLScheme | DialProtocol proto_error | DialFailed | SendJoin
  | WaitJoin | NotJSONText | DecodeJoin proto_error | InvalidErrorResponse
  | JoinRejected string string | UnexpectedResponse MessageType | InvalidAdmission admission_error
  | EnvelopeMismatch

datatype pump_error =
    ReadMessage | NonTextMessage | DecodeFailed proto_error | InvalidMessage proto_error | SlowConsumer

record DialOptions =
  do_URL :: string
  do_RoomID :: string
  do_Username :: string
  do_AllowInsecureWS :: bool

text \<open>The client: its two channels with whether they are closed, the context, whether the connection
  is closed, whether \<open>Close\<close> ran, and what it wrote to the connection.\<close>

record Client =
  cl_recv :: "SignalingMessage list"
  cl_recv_closed :: bool
  cl_errors :: "pump_error list"
  cl_errors_closed :: bool
  cl_cancelled :: bool
  cl_conn_closed :: bool
  cl_closed :: bool
  cl_written :: "SignalingMessage list"

section \<open>Checks\<close>

definition isLoopbackHost :: "std \<Rightarrow> string \<Rightarrow> bool" where
  "isLoopbackHost L host =
     (if host = ''localhost'' then True
      else let ip = std_ParseIP L host in ip \<noteq> [] \<and> IsLoopback (Unmap ip))"

definition validateServerURL :: "std \<Rightarrow> string \<Rightarrow> bool \<Rightarrow> dial_error option" where
  "validateServerURL L rawURL allowInsecure =
     (case std_ParseURL L rawURL of
        None \<Rightarrow> Some ParseURL
      | Some parsed \<Rightarrow>
          if u_HasUser parsed \<or> u_Hostname parsed = [] then Some URLHost
          else if u_Scheme parsed = ''wss'' then None
          else if u_Scheme parsed = ''ws'' then
            (if allowInsecure \<or> isLoopbackHost L (u_Hostname parsed) then None else Some InsecureWS)
          else Some URLScheme)"

definition validICEURL :: "string \<Rightarrow> bool" where
  "validICEURL rawURL \<longleftrightarrow>
     (has_prefix ''stun:'' rawURL \<or> has_prefix ''turn:'' rawURL \<or> has_prefix ''turns:'' rawURL) \<and>
     length rawURL \<le> 512 \<and> \<not> list_ex (\<lambda>c. c \<in> {CHR 0x0D, CHR 0x0A, CHR 0x00}) rawURL"

fun iceServersLoop :: "int \<Rightarrow> ICEServer list \<Rightarrow> admission_error option" where
  "iceServersLoop now [] = None"
| "iceServersLoop now (server # rest) =
     (if ice_URLs server = [] \<or> 8 < length (ice_URLs server) \<or> ice_Username server = [] \<or>
         256 < length (ice_Username server) \<or> ice_Credential server = [] \<or> 512 < length (ice_Credential server)
      then Some IncompleteCredentials
      else if ice_ExpiresAt server \<le> now \<or> now + 2 * hour div second < ice_ExpiresAt server
      then Some ExpiredCredentials
      else if \<not> list_all validICEURL (ice_URLs server) then Some InvalidICEURL
      else iceServersLoop now rest)"

fun admissionPeersLoop :: "unicode_tables \<Rightarrow> string \<Rightarrow> string list \<Rightarrow> PeerInfo list \<Rightarrow> admission_error option" where
  "admissionPeersLoop U localID seenPeers [] = None"
| "admissionPeersLoop U localID seenPeers (peer # rest) =
     (case ValidatePeerID U (pi_PeerID peer) of
        Some e \<Rightarrow> Some (AdmissionPeer e)
      | None \<Rightarrow>
          if pi_PeerID peer = localID then Some IncludesSelf
          else if pi_PeerID peer \<in> set seenPeers then Some DuplicatePeer
          else (case NormalizeUsername U (pi_Username peer) of
              Inl e \<Rightarrow> Some (AdmissionUsername e)
            | Inr _ \<Rightarrow> admissionPeersLoop U localID (pi_PeerID peer # seenPeers) rest))"

definition validateAdmission :: "unicode_tables \<Rightarrow> int \<Rightarrow> JoinAcceptedPayload \<Rightarrow> admission_error option" where
  "validateAdmission U now admission =
     (case ValidateRoomID (ja_RoomID admission) of
        Some e \<Rightarrow> Some (AdmissionRoom e)
      | None \<Rightarrow>
          (case ValidatePeerID U (ja_PeerID admission) of
             Some e \<Rightarrow> Some (AdmissionLocalPeer e)
           | None \<Rightarrow>
               if ja_ICEServers admission = [] then Some NoICEServers
               else if 4 < length (ja_ICEServers admission) then Some TooManyICEServers
               else if 16 < length (ja_Peers admission) then Some TooManyPeers
               else (case iceServersLoop now (ja_ICEServers admission) of
                   Some e \<Rightarrow> Some e
                 | None \<Rightarrow> admissionPeersLoop U (ja_PeerID admission) [] (ja_Peers admission))))"

section \<open>Joining\<close>

definition new_client :: Client where
  "new_client = \<lparr>cl_recv = [], cl_recv_closed = False, cl_errors = [], cl_errors_closed = False,
     cl_cancelled = False, cl_conn_closed = False, cl_closed = False, cl_written = []\<rparr>"

definition abort :: "Client \<Rightarrow> Client" where
  "abort c = c\<lparr>cl_cancelled := True, cl_conn_closed := True\<rparr>"

text \<open>What the answer to the join request amounts to.\<close>

definition joinResponse :: "unicode_tables \<Rightarrow> int \<Rightarrow> string \<Rightarrow> (dial_error, JoinAcceptedPayload) res" where
  "joinResponse U now responseData =
     (case DecodeMessage responseData of
        Inl e \<Rightarrow> Inl (DecodeJoin e)
      | Inr response \<Rightarrow>
          if m_Version response \<noteq> Version then Inl (DialProtocol ErrProtocolVersion)
          else if m_Type response = MsgError then
            (if ValidateServerMessage U response \<noteq> None then Inl InvalidErrorResponse
             else (case DecodePayload error_fields zero_error (m_Payload response) of
                 Inl _ \<Rightarrow> Inl InvalidErrorResponse
               | Inr failure \<Rightarrow> Inl (JoinRejected (ep_Code failure) (ep_Message failure))))
          else if m_Type response \<noteq> MsgJoinAccepted then Inl (UnexpectedResponse (m_Type response))
          else (case DecodePayload accepted_fields zero_accepted (m_Payload response) of
              Inl e \<Rightarrow> Inl (DialProtocol e)
            | Inr admission \<Rightarrow>
                (case validateAdmission U now admission of
                   Some e \<Rightarrow> Inl (InvalidAdmission e)
                 | None \<Rightarrow>
                     if m_RoomID response \<noteq> ja_RoomID admission \<or> m_PeerID response \<noteq> ja_PeerID admission
                     then Inl EnvelopeMismatch else Inr admission)))"

text \<open>\<open>Dial\<close>: the client, if a connection was made, and the outcome.\<close>

definition Dial ::
  "std \<Rightarrow> int \<Rightarrow> bool \<Rightarrow> bool \<Rightarrow> incoming \<Rightarrow> DialOptions
    \<Rightarrow> Client option \<times> (dial_error, JoinAcceptedPayload) res" where
  "Dial L now dialled written answer options =
     (let U = std_tables L
      in case validateServerURL L (do_URL options) (do_AllowInsecureWS options) of
           Some e \<Rightarrow> (None, Inl e)
         | None \<Rightarrow>
             (case ValidateRoomID (do_RoomID options) of
                Some e \<Rightarrow> (None, Inl (DialProtocol e))
              | None \<Rightarrow>
                  (case NormalizeUsername U (do_Username options) of
                     Inl e \<Rightarrow> (None, Inl (DialProtocol e))
                   | Inr username \<Rightarrow>
                       if \<not> dialled then (None, Inl DialFailed)
                       else
                         let join = (NewMessage MsgJoinRoom)\<lparr>m_RoomID := do_RoomID options, m_Username := username\<rparr>
                         in if \<not> written then (Some (abort new_client), Inl SendJoin)
                            else
                              let client = new_client\<lparr>cl_written := [join]\<rparr>
                              in (case answer of
                                    ReadFailed \<Rightarrow> (Some (abort client), Inl WaitJoin)
                                  | NotText \<Rightarrow> (Some (abort client), Inl NotJSONText)
                                  | Text responseData \<Rightarrow>
                                      (case joinResponse U now responseData of
                                         Inl e \<Rightarrow> (Some (abort client), Inl e)
                                       | Inr admission \<Rightarrow> (Some client, Inr admission))))))"

section \<open>Sending, receiving, closing\<close>

definition client_Send ::
  "unicode_tables \<Rightarrow> bool \<Rightarrow> SignalingMessage \<Rightarrow> Client \<Rightarrow> (proto_error + bool) \<times> Client" where
  "client_Send U written message0 c =
     (let message = message0\<lparr>m_Version := Version\<rparr>
      in case ValidateClientMessage U message of
           Some e \<Rightarrow> (Inl e, c)
         | None \<Rightarrow>
             if written then (Inr True, c\<lparr>cl_written := cl_written c @ [message]\<rparr>) else (Inr False, c))"

definition client_Close :: "bool \<Rightarrow> Client \<Rightarrow> Client" where
  "client_Close written c =
     (if cl_closed c then c
      else c\<lparr>cl_closed := True, cl_conn_closed := True, cl_cancelled := True,
             cl_written := (if written then cl_written c @ [NewMessage MsgLeaveRoom] else cl_written c)\<rparr>)"

text \<open>The channel of errors holds one; a second report is dropped.\<close>

definition reportError :: "pump_error \<Rightarrow> Client \<Rightarrow> Client" where
  "reportError e c = (if cl_errors c = [] then c\<lparr>cl_errors := [e]\<rparr> else c)"

text \<open>The deferred calls of the read pump.\<close>

definition pumpExit :: "Client \<Rightarrow> Client" where
  "pumpExit c = c\<lparr>cl_errors_closed := True, cl_recv_closed := True, cl_conn_closed := True, cl_cancelled := True\<rparr>"

datatype pump_read = Disconnected | ReadBroken | Binary | Frame string

text \<open>One turn of the pump: the client and whether the pump goes on. When the context is done, the
  select takes that case if the queue is full, and may take it (\<open>tookDone\<close>) if it is not.\<close>

definition readPump :: "unicode_tables \<Rightarrow> bool \<Rightarrow> pump_read \<Rightarrow> Client \<Rightarrow> Client \<times> bool" where
  "readPump U tookDone incoming c =
     (case incoming of
        Disconnected \<Rightarrow> (pumpExit c, False)
      | ReadBroken \<Rightarrow> (pumpExit (reportError ReadMessage c), False)
      | Binary \<Rightarrow> (pumpExit (reportError NonTextMessage c), False)
      | Frame data \<Rightarrow>
          (case DecodeMessage data of
             Inl e \<Rightarrow> (pumpExit (reportError (DecodeFailed e) c), False)
           | Inr message \<Rightarrow>
               (case ValidateServerMessage U message of
                  Some e \<Rightarrow> (pumpExit (reportError (InvalidMessage e) c), False)
                | None \<Rightarrow>
                    let room = int (length (cl_recv c)) < peerQueueSize
                    in if cl_cancelled c \<and> (tookDone \<or> \<not> room) then (pumpExit c, False)
                       else if room then (c\<lparr>cl_recv := cl_recv c @ [message]\<rparr>, True)
                       else (pumpExit ((reportError SlowConsumer c)\<lparr>cl_cancelled := True\<rparr>), False))))"

text \<open>The pump beside the goroutines that use the client: they take messages and errors from the channels
  and may cancel the context at any time. A run ends with what was taken and the client; a turn of
  the pump that has returned (its channels are closed) does nothing.\<close>

datatype pump_event = PumpTurn bool pump_read | TakeMessage | TakeError | CancelContext

fun pumpRun ::
  "unicode_tables \<Rightarrow> pump_event list \<Rightarrow> SignalingMessage list \<times> pump_error list \<times> Client
    \<Rightarrow> SignalingMessage list \<times> pump_error list \<times> Client" where
  "pumpRun U [] s = s"
| "pumpRun U (PumpTurn tookDone x # es) (taken, errs, c) =
     pumpRun U es (taken, errs, if cl_recv_closed c then c else fst (readPump U tookDone x c))"
| "pumpRun U (TakeMessage # es) (taken, errs, c) =
     pumpRun U es (case cl_recv c of [] \<Rightarrow> (taken, errs, c) | m # ms \<Rightarrow> (taken @ [m], errs, c\<lparr>cl_recv := ms\<rparr>))"
| "pumpRun U (TakeError # es) (taken, errs, c) =
     pumpRun U es (case cl_errors c of [] \<Rightarrow> (taken, errs, c) | e # rest \<Rightarrow> (taken, errs @ [e], c\<lparr>cl_errors := rest\<rparr>))"
| "pumpRun U (CancelContext # es) (taken, errs, c) = pumpRun U es (taken, errs, c\<lparr>cl_cancelled := True\<rparr>)"

end
