(* ===== verification/App_Model.thy ===== *)
theory App_Model
  imports Call_Facts Capture Signaling_Client
begin

text \<open>
  The terminal program around the call: the join form (\<^verbatim>\<open>src/internal/tui/home.go\<close>), the screens
  (\<^verbatim>\<open>app.go\<close>) and the program itself (\<^verbatim>\<open>src/cmd/termcall/main.go\<close>). The form library is a record of
  functions on its form type \<open>'f\<close>. \<open>Update\<close> works on pointers: a nil pointer that
  would be dereferenced is the result \<open>None\<close>.
\<close>

section \<open>The join form\<close>

record JoinResult =
  jr_RoomID :: string
  jr_Username :: string
  jr_ServerURL :: string

definition DefaultServerURL :: string where
  "DefaultServerURL = ''wss://termcall-server.m4yank.com:8443/ws''"

datatype form_state = StateNormal | StateCompleted | StateAborted

datatype app_msg = ConnectTickMsg | CallReadyMsg "(string, CallModel) res" | CallMsg call_msg | FormMsg nat

text \<open>The form library: \<open>hu_update\<close> is \<open>None\<close> when the updated model is not a form.\<close>

record 'f huh =
  hu_update :: "app_msg \<Rightarrow> 'f \<Rightarrow> 'f option"
  hu_state :: "'f \<Rightarrow> form_state"
  hu_key :: "'f \<Rightarrow> string"
  hu_get :: "'f \<Rightarrow> string \<Rightarrow> string"
  hu_next :: "'f \<Rightarrow> 'f"
  hu_prev :: "'f \<Rightarrow> 'f"

record 'f HomeModel =
  hm_form :: 'f
  hm_width :: int
  hm_height :: int

definition formFieldKeys :: "string list" where
  "formFieldKeys = [''Username'', ''Room ID'', ''Server URL'']"

fun findIndex :: "string \<Rightarrow> nat \<Rightarrow> string list \<Rightarrow> nat" where
  "findIndex key i [] = 0"
| "findIndex key i (k # ks) = (if k = key then i else findIndex key (Suc i) ks)"

definition currentFieldIndex :: "'f huh \<Rightarrow> 'f HomeModel \<Rightarrow> nat" where
  "currentFieldIndex H hm = findIndex (hu_key H (hm_form hm)) 0 formFieldKeys"

text \<open>An input of a form as the form library is told: key, title, initial value and validator.\<close>

record form_input =
  fi_Key :: string
  fi_Title :: string
  fi_Value :: string
  fi_Validate :: "string \<Rightarrow> string option"

definition requiredField :: "string \<Rightarrow> string \<Rightarrow> string option" where
  "requiredField name v = (if v = [] then Some (name @ '' cannot be empty'') else None)"

definition roomField :: "string \<Rightarrow> string option" where
  "roomField v = (case ValidateRoomID v of Some _ \<Rightarrow> Some ''room ID must be 'new' or a room UUID'' | None \<Rightarrow> None)"

definition homeFields :: "form_input list" where
  "homeFields =
     [\<lparr>fi_Key = ''Username'', fi_Title = ''Username'', fi_Value = [], fi_Validate = requiredField ''username''\<rparr>,
      \<lparr>fi_Key = ''Room ID'', fi_Title = ''Room ID (use 'new' to create)'', fi_Value = ''new'', fi_Validate = roomField\<rparr>,
      \<lparr>fi_Key = ''Server URL'', fi_Title = ''Server URL'', fi_Value = DefaultServerURL, fi_Validate = requiredField ''server URL''\<rparr>]"

definition NewHomeModel :: "(form_input list \<Rightarrow> 'f) \<Rightarrow> 'f HomeModel" where
  "NewHomeModel newForm = \<lparr>hm_form = newForm homeFields, hm_width = 0, hm_height = 0\<rparr>"

text \<open>The inputs of the plain join form have no keys.\<close>

definition joinFields :: "form_input list" where
  "joinFields =
     [\<lparr>fi_Key = [], fi_Title = ''Room ID'', fi_Value = [], fi_Validate = roomField\<rparr>,
      \<lparr>fi_Key = [], fi_Title = ''Username'', fi_Value = [], fi_Validate = requiredField ''username''\<rparr>]"

text \<open>The fields that the arrow keys move between are the keys of the form, in the same order.\<close>

lemma formFieldKeys_match: "map fi_Key homeFields = formFieldKeys"
  by (simp add: homeFields_def formFieldKeys_def)

datatype home_cmd = HomeQuit | HomeForm | HomeReady JoinResult

definition home_form_Update :: "'f huh \<Rightarrow> app_msg \<Rightarrow> 'f HomeModel \<Rightarrow> 'f HomeModel \<times> home_cmd" where
  "home_form_Update H msg hm =
     (case hu_update H msg (hm_form hm) of
        None \<Rightarrow> (hm, HomeForm)
      | Some form \<Rightarrow>
          let hm1 = hm\<lparr>hm_form := form\<rparr>
          in if hu_state H form \<noteq> StateCompleted then (hm1, HomeForm)
             else (hm1, HomeReady \<lparr>jr_RoomID = hu_get H form ''Room ID'', jr_Username = hu_get H form ''Username'',
                                   jr_ServerURL = hu_get H form ''Server URL''\<rparr>))"

definition home_Update :: "'f huh \<Rightarrow> app_msg \<Rightarrow> 'f HomeModel \<Rightarrow> 'f HomeModel \<times> home_cmd" where
  "home_Update H msg hm =
     (case msg of
        CallMsg (KeyMsg key) \<Rightarrow>
          if key = ''ctrl+c'' then (hm, HomeQuit)
          else if key = ''up'' \<and> hu_state H (hm_form hm) = StateNormal
          then (hm\<lparr>hm_form := hu_prev H (hm_form hm)\<rparr>, HomeForm)
          else if key = ''down'' \<and> hu_state H (hm_form hm) = StateNormal \<and>
                  int (currentFieldIndex H hm) < int (length formFieldKeys) - 1
          then (hm\<lparr>hm_form := hu_next H (hm_form hm)\<rparr>, HomeForm)
          else home_form_Update H msg hm
      | CallMsg (WindowSizeMsg w h) \<Rightarrow> home_form_Update H msg (hm\<lparr>hm_width := w, hm_height := h\<rparr>)
      | _ \<Rightarrow> home_form_Update H msg hm)"

text \<open>The plain join form of \<^verbatim>\<open>join.go\<close>, which has no server field.\<close>

definition join_Update :: "'f huh \<Rightarrow> app_msg \<Rightarrow> 'f \<Rightarrow> 'f \<times> home_cmd" where
  "join_Update H msg form0 =
     (if msg = CallMsg (KeyMsg ''ctrl+c'') \<or> msg = CallMsg (KeyMsg ''q'') then (form0, HomeQuit)
      else (case hu_update H msg form0 of
          None \<Rightarrow> (form0, HomeForm)
        | Some form \<Rightarrow>
            if hu_state H form = StateCompleted
            then (form, HomeReady \<lparr>jr_RoomID = hu_get H form ''Room ID'', jr_Username = hu_get H form ''Username'', jr_ServerURL = []\<rparr>)
            else (form, HomeForm)))"

section \<open>The screens\<close>

datatype screen = screenHome | screenConnecting | screenCall

record 'f AppModel =
  ap_currentScreen :: screen
  ap_homeModel :: "'f HomeModel option"
  ap_callModel :: "CallModel option"
  ap_connectingLabel :: string
  ap_connectError :: string
  ap_spinnerFrame :: nat
  ap_width :: int
  ap_height :: int

datatype app_cmd = AppNone | AppQuit | AppForm | AppStart JoinResult | AppTick | AppCallInit | AppCall call_cmd

type_synonym 'f app_result = "('f AppModel \<times> call_effect list \<times> app_cmd) option"

definition spinnerFrames :: nat where
  "spinnerFrames = 10"

definition NewAppModel_form :: "'f \<Rightarrow> 'f AppModel" where
  "NewAppModel_form form =
     \<lparr>ap_currentScreen = screenHome, ap_homeModel = Some \<lparr>hm_form = form, hm_width = 0, hm_height = 0\<rparr>, ap_callModel = None,
      ap_connectingLabel = [], ap_connectError = [], ap_spinnerFrame = 0, ap_width = 0, ap_height = 0\<rparr>"

text \<open>With flags the call is started before the screen comes up; a failure ends the program.\<close>

definition NewAppModel_flags :: "(string, CallModel) res \<Rightarrow> 'f AppModel option" where
  "NewAppModel_flags started =
     (case started of
        Inl _ \<Rightarrow> None
      | Inr cm \<Rightarrow>
          Some \<lparr>ap_currentScreen = screenCall, ap_homeModel = None, ap_callModel = Some cm, ap_connectingLabel = [],
                ap_connectError = [], ap_spinnerFrame = 0, ap_width = 0, ap_height = 0\<rparr>)"

text \<open>The function that the form calls when it is complete.\<close>

definition onReady :: "JoinResult \<Rightarrow> 'f AppModel \<Rightarrow> 'f AppModel" where
  "onReady res a =
     a\<lparr>ap_currentScreen := screenConnecting, ap_connectingLabel := jr_Username res @ '' @ '' @ jr_RoomID res,
       ap_connectError := [], ap_spinnerFrame := 0\<rparr>"

definition updateHome :: "'f huh \<Rightarrow> app_msg \<Rightarrow> 'f HomeModel \<Rightarrow> 'f AppModel \<Rightarrow> 'f HomeModel \<times> 'f AppModel \<times> app_cmd" where
  "updateHome H msg hm a =
     (case home_Update H msg hm of
        (hm1, HomeQuit) \<Rightarrow> (hm1, a, AppQuit)
      | (hm1, HomeForm) \<Rightarrow> (hm1, a, AppForm)
      | (hm1, HomeReady res) \<Rightarrow> (hm1, onReady res a, AppStart res))"

definition updateCall :: "unicode_tables \<Rightarrow> call_msg \<Rightarrow> CallModel \<Rightarrow> 'f AppModel \<Rightarrow> 'f AppModel \<times> call_effect list \<times> app_cmd" where
  "updateCall U msg cm a =
     (case call_Update U msg cm of (cm1, effects, cmd) \<Rightarrow> (a\<lparr>ap_callModel := Some cm1\<rparr>, effects, AppCall cmd))"

definition app_resize_home :: "'f huh \<Rightarrow> int \<Rightarrow> int \<Rightarrow> 'f AppModel \<Rightarrow> 'f AppModel" where
  "app_resize_home H w h a =
     (case ap_homeModel a of
        None \<Rightarrow> a
      | Some hm \<Rightarrow> (case updateHome H (CallMsg (WindowSizeMsg w h)) hm a of (hm1, a1, _) \<Rightarrow> a1\<lparr>ap_homeModel := Some hm1\<rparr>))"

definition app_resize :: "unicode_tables \<Rightarrow> 'f huh \<Rightarrow> int \<Rightarrow> int \<Rightarrow> 'f AppModel \<Rightarrow> 'f app_result" where
  "app_resize U H w h a =
     (let a1 = app_resize_home H w h (a\<lparr>ap_width := w, ap_height := h\<rparr>)
      in (case ap_callModel a1 of
            None \<Rightarrow> Some (a1, [], AppNone)
          | Some cm \<Rightarrow> (case updateCall U (WindowSizeMsg w h) cm a1 of (a2, effects, _) \<Rightarrow> Some (a2, effects, AppNone))))"

definition app_Init :: "'f AppModel \<Rightarrow> app_cmd" where
  "app_Init a =
     (if ap_currentScreen a = screenHome then AppForm
      else if ap_currentScreen a = screenCall \<and> ap_callModel a \<noteq> None then AppCallInit
      else AppNone)"

definition app_ready :: "unicode_tables \<Rightarrow> (string, CallModel) res \<Rightarrow> 'f AppModel \<Rightarrow> 'f app_result" where
  "app_ready U started a =
     (case started of
        Inl e \<Rightarrow> Some (a\<lparr>ap_connectError := e\<rparr>, [], AppNone)
      | Inr cm \<Rightarrow>
          let a1 = a\<lparr>ap_currentScreen := screenCall, ap_callModel := Some cm\<rparr>
          in if 0 < ap_width a1 \<and> 0 < ap_height a1
             then (case updateCall U (WindowSizeMsg (ap_width a1) (ap_height a1)) cm a1 of (a2, effects, _) \<Rightarrow> Some (a2, effects, AppCallInit))
             else Some (a1, [], AppCallInit))"

text \<open>What is left after the messages that \<open>Update\<close> handles itself.\<close>

definition app_forward :: "unicode_tables \<Rightarrow> 'f huh \<Rightarrow> app_msg \<Rightarrow> 'f AppModel \<Rightarrow> 'f app_result" where
  "app_forward U H msg a =
     (if ap_currentScreen a = screenHome then
        (case ap_homeModel a of
           None \<Rightarrow> None
         | Some hm \<Rightarrow>
             (case updateHome H msg hm a of (hm1, a1, cmd) \<Rightarrow>
                Some (a1\<lparr>ap_homeModel := (if ap_currentScreen a1 = screenHome then Some hm1 else None)\<rparr>, [], cmd)))
      else if ap_currentScreen a = screenConnecting then Some (a, [], AppNone)
      else (case (ap_callModel a, msg) of
          (Some cm, CallMsg m) \<Rightarrow> Some (updateCall U m cm a)
        | _ \<Rightarrow> Some (a, [], AppNone)))"

definition app_call_msg :: "unicode_tables \<Rightarrow> call_msg \<Rightarrow> 'f AppModel \<Rightarrow> 'f app_result" where
  "app_call_msg U m a =
     (case (ap_currentScreen a, ap_callModel a) of
        (screenCall, Some cm) \<Rightarrow> Some (updateCall U m cm a)
      | _ \<Rightarrow> Some (a, [], AppNone))"

definition app_Update :: "unicode_tables \<Rightarrow> 'f huh \<Rightarrow> app_msg \<Rightarrow> 'f AppModel \<Rightarrow> 'f app_result" where
  "app_Update U H msg a =
     (case msg of
        ConnectTickMsg \<Rightarrow>
          if ap_currentScreen a = screenConnecting \<and> ap_connectError a = []
          then Some (a\<lparr>ap_spinnerFrame := (ap_spinnerFrame a + 1) mod spinnerFrames\<rparr>, [], AppTick)
          else Some (a, [], AppNone)
      | CallReadyMsg started \<Rightarrow> app_ready U started a
      | CallMsg (KeyMsg key) \<Rightarrow>
          if ap_currentScreen a = screenConnecting \<and>
             (key \<in> {''q'', ''ctrl+c'', ''esc''} \<or> key = ''enter'' \<and> ap_connectError a \<noteq> [])
          then Some (a, [], AppQuit)
          else app_forward U H msg a
      | CallMsg (WindowSizeMsg w h) \<Rightarrow> app_resize U H w h a
      | CallMsg m \<Rightarrow> app_call_msg U m a
      | FormMsg _ \<Rightarrow> app_forward U H msg a)"

section \<open>The program\<close>

datatype call_start_error = ConnectError dial_error | MeshNewError new_mesh_error

definition invocationMode :: "string \<Rightarrow> string \<Rightarrow> string \<Rightarrow> (string, bool \<times> string) res" where
  "invocationMode username roomID serverURL =
     (if username = [] \<and> roomID = [] \<and> serverURL = [] then Inr (False, [])
      else if username = [] \<or> roomID = []
      then Inl ''-username and -room must be provided together; -server is optional''
      else Inr (True, if serverURL = [] then DefaultServerURL else serverURL))"

text \<open>Starting a call: the client is closed again when the mesh cannot be made.\<close>

definition startCall ::
  "std \<Rightarrow> int \<Rightarrow> bool \<Rightarrow> bool \<Rightarrow> incoming \<Rightarrow> bool \<Rightarrow> bool \<Rightarrow> nat option \<Rightarrow> bool \<Rightarrow> bool \<Rightarrow> JoinResult
    \<Rightarrow> Client option \<times> (call_start_error, CallModel \<times> MeshManager) res" where
  "startCall L now dialled written answer leaveWritten codecsOK silentTrack allowInsecureWS allowPrivateICE result =
     (case Dial L now dialled written answer
             \<lparr>do_URL = jr_ServerURL result, do_RoomID = jr_RoomID result, do_Username = jr_Username result, do_AllowInsecureWS = allowInsecureWS\<rparr> of
        (client, Inl e) \<Rightarrow> (client, Inl (ConnectError e))
      | (client, Inr admission) \<Rightarrow>
          (case NewMeshManagerWithOptions (std_tables L) True codecsOK silentTrack admission \<lparr>mo_AllowPrivateCandidates = allowPrivateICE\<rparr> of
             Inl e \<Rightarrow> (map_option (client_Close leaveWritten) client, Inl (MeshNewError e))
           | Inr mesh \<Rightarrow> (client, Inr (NewCallModel (ja_RoomID admission), mesh))))"

text \<open>The devices are closed and their tracks with them before the mesh is stopped.\<close>

definition closeCamera :: "camera \<Rightarrow> camera" where
  "closeCamera c =
     (let c1 = camera_Close c
      in case ca_session c of None \<Rightarrow> c1 | Some t \<Rightarrow> session_close t (c1\<lparr>ca_closing := tl (ca_closing c1)\<rparr>))"

definition closeMicrophone :: "microphone \<Rightarrow> microphone" where
  "closeMicrophone m =
     (let m1 = mic_Close m
      in case mi_track m of None \<Rightarrow> m1 | Some t \<Rightarrow> track_close t (m1\<lparr>mi_closing := tl (mi_closing m1)\<rparr>))"

definition cleanup :: "camera \<times> microphone \<times> MeshManager \<Rightarrow> camera \<times> microphone \<times> MeshManager" where
  "cleanup w = (case w of (c, m, mesh) \<Rightarrow> (closeCamera c, closeMicrophone m, Stop mesh))"

section \<open>The screens over any sequence of messages\<close>

fun app_run :: "unicode_tables \<Rightarrow> 'f huh \<Rightarrow> app_msg list \<Rightarrow> 'f AppModel \<Rightarrow> ('f AppModel \<times> app_cmd list) option" where
  "app_run U H [] a = Some (a, [])"
| "app_run U H (x # xs) a =
     (case app_Update U H x a of
        None \<Rightarrow> None
      | Some (a1, _, cmd) \<Rightarrow> (case app_run U H xs a1 of None \<Rightarrow> None | Some (a2, cmds) \<Rightarrow> Some (a2, cmd # cmds)))"

text \<open>What the program relies on: a form that is not complete is not completed by moving between
  its fields or by a change of the window's size.\<close>

definition form_laws :: "'f huh \<Rightarrow> bool" where
  "form_laws H \<longleftrightarrow>
     (\<forall>f. hu_state H f \<noteq> StateCompleted \<longrightarrow> hu_state H (hu_next H f) \<noteq> StateCompleted \<and> hu_state H (hu_prev H f) \<noteq> StateCompleted) \<and>
     (\<forall>f w h f'. hu_state H f \<noteq> StateCompleted \<and> hu_update H (CallMsg (WindowSizeMsg w h)) f = Some f' \<longrightarrow> hu_state H f' \<noteq> StateCompleted)"

definition is_start :: "app_cmd \<Rightarrow> bool" where
  "is_start c \<longleftrightarrow> (case c of AppStart _ \<Rightarrow> True | _ \<Rightarrow> False)"

definition app_inv :: "'f huh \<Rightarrow> nat \<Rightarrow> 'f AppModel \<Rightarrow> bool" where
  "app_inv H starts a \<longleftrightarrow>
     ap_spinnerFrame a < spinnerFrames \<and>
     (ap_currentScreen a = screenHome \<longrightarrow> ap_homeModel a \<noteq> None \<and> starts = 0) \<and> starts \<le> 1 \<and>
     (ap_currentScreen a = screenConnecting \<longrightarrow> starts = 1) \<and>
     (\<forall>hm. ap_homeModel a = Some hm \<longrightarrow> hu_state H (hm_form hm) \<noteq> StateCompleted) \<and>
     (ap_currentScreen a = screenCall \<longrightarrow> ap_callModel a \<noteq> None)"

lemma form_lawsD:
  assumes "form_laws H" "hu_state H f \<noteq> StateCompleted"
  shows "hu_state H (hu_next H f) \<noteq> StateCompleted" "hu_state H (hu_prev H f) \<noteq> StateCompleted"
    "hu_update H (CallMsg (WindowSizeMsg w h)) f = Some f' \<Longrightarrow> hu_state H f' \<noteq> StateCompleted"
  using assms unfolding form_laws_def by blast+

definition ready_iff_completed :: "'f huh \<Rightarrow> 'f HomeModel \<Rightarrow> home_cmd \<Rightarrow> bool" where
  "ready_iff_completed H hm cmd \<longleftrightarrow> ((\<exists>res. cmd = HomeReady res) \<longleftrightarrow> hu_state H (hm_form hm) = StateCompleted)"

lemma home_form_ready:
  "hu_state H (hm_form hm) \<noteq> StateCompleted \<Longrightarrow> home_form_Update H msg hm = (hm1, cmd) \<Longrightarrow> ready_iff_completed H hm1 cmd"
  by (auto simp: home_form_Update_def ready_iff_completed_def Let_def split: option.splits if_splits)

lemma home_resize:
  assumes "form_laws H" "hu_state H (hm_form hm) \<noteq> StateCompleted" "home_Update H (CallMsg (WindowSizeMsg w h)) hm = (hm1, cmd)"
  shows "hu_state H (hm_form hm1) \<noteq> StateCompleted"
  using assms(2,3) form_lawsD(3) [OF assms(1,2), of w h]
  by (auto simp: home_Update_def home_form_Update_def Let_def split: option.splits if_splits)

lemma home_key:
  assumes "form_laws H" "hu_state H (hm_form hm) \<noteq> StateCompleted" "home_Update H (CallMsg (KeyMsg key)) hm = (hm1, cmd)"
  shows "ready_iff_completed H hm1 cmd"
proof -
  let ?m = "CallMsg (KeyMsg key)"
  consider "home_Update H ?m hm = (hm, HomeQuit)" | "home_Update H ?m hm = (hm\<lparr>hm_form := hu_prev H (hm_form hm)\<rparr>, HomeForm)"
    | "home_Update H ?m hm = (hm\<lparr>hm_form := hu_next H (hm_form hm)\<rparr>, HomeForm)" | "home_Update H ?m hm = home_form_Update H ?m hm"
    unfolding home_Update_def by (simp only: app_msg.case call_msg.case) metis
  then show ?thesis
    using assms(2,3) form_lawsD(1,2) [OF assms(1,2)] home_form_ready [OF assms(2), of ?m hm1 cmd]
    by cases (auto simp: ready_iff_completed_def)
qed

lemma home_open:
  assumes laws: "form_laws H" and f: "hu_state H (hm_form hm) \<noteq> StateCompleted" and u: "home_Update H msg hm = (hm1, cmd)"
  shows "ready_iff_completed H hm1 cmd \<and> ((\<exists>w h. msg = CallMsg (WindowSizeMsg w h)) \<longrightarrow> (\<forall>res. cmd \<noteq> HomeReady res))"
proof (cases "\<exists>key. msg = CallMsg (KeyMsg key)")
  case True
  with home_key [OF laws f] u show ?thesis by auto
next
  case False
  have size: "hu_state H (hm_form (hm\<lparr>hm_width := w, hm_height := h\<rparr>)) \<noteq> StateCompleted" for w h using f by simp
  have "ready_iff_completed H hm1 cmd"
    using u False home_form_ready [OF f, of msg hm1 cmd] home_form_ready [OF size, of msg _ _ hm1 cmd]
    unfolding home_Update_def by (auto split: app_msg.splits call_msg.splits)
  moreover have "\<forall>res. cmd \<noteq> HomeReady res" if "msg = CallMsg (WindowSizeMsg w h)" for w h
    using home_resize [OF laws f] u calculation that by (auto simp: ready_iff_completed_def)
  ultimately show ?thesis by blast
qed

lemma updateHome_cases:
  assumes "form_laws H" "hu_state H (hm_form hm) \<noteq> StateCompleted" "updateHome H msg hm a = (hm1, a1, cmd)"
  shows "is_start cmd \<and> (\<exists>res. a1 = onReady res a) \<and> (\<forall>w h. msg \<noteq> CallMsg (WindowSizeMsg w h)) \<or>
    \<not> is_start cmd \<and> a1 = a \<and> hu_state H (hm_form hm1) \<noteq> StateCompleted"
  using home_open [OF assms(1,2), of msg] assms(3)
  by (auto simp: updateHome_def is_start_def ready_iff_completed_def split: prod.splits home_cmd.splits)

lemma updateCall_inv:
  "app_inv H n a \<Longrightarrow> updateCall U x cm a = (a1, effects, cmd) \<Longrightarrow> app_inv H n a1 \<and> \<not> is_start cmd"
  by (auto simp: updateCall_def app_inv_def is_start_def split: prod.splits)

lemma app_forward_inv:
  assumes laws: "form_laws H" and inv: "app_inv H n a"
  shows "\<exists>a1 effects cmd. app_forward U H x a = Some (a1, effects, cmd) \<and> app_inv H (n + (if is_start cmd then 1 else 0)) a1"
proof (cases "ap_currentScreen a")
  case screenHome
  with inv obtain hm where hm: "ap_homeModel a = Some hm" "hu_state H (hm_form hm) \<noteq> StateCompleted" "n = 0" by (auto simp: app_inv_def)
  obtain hm1 a1 cmd where u: "updateHome H x hm a = (hm1, a1, cmd)" by (metis prod_cases3)
  from updateHome_cases [OF laws hm(2) u] screenHome hm inv u show ?thesis
    by (auto simp: app_forward_def app_inv_def onReady_def spinnerFrames_def)
next
  case screenConnecting
  with inv show ?thesis by (auto simp: app_forward_def is_start_def)
next
  case screenCall
  then obtain cm where cm: "ap_callModel a = Some cm" using inv by (auto simp: app_inv_def)
  show ?thesis
  proof (cases x)
    case (CallMsg m)
    obtain a1 effects cmd where u: "updateCall U m cm a = (a1, effects, cmd)" by (metis prod_cases3)
    from updateCall_inv [OF inv u] screenCall cm CallMsg u show ?thesis by (auto simp: app_forward_def)
  qed (use screenCall cm inv in \<open>auto simp: app_forward_def is_start_def\<close>)
qed

lemma app_resize_inv:
  assumes laws: "form_laws H" and inv: "app_inv H n a"
  shows "\<exists>a1 effects. app_resize U H w h a = Some (a1, effects, AppNone) \<and> app_inv H n a1"
proof -
  let ?a = "a\<lparr>ap_width := w, ap_height := h\<rparr>"
  have inv1: "app_inv H n ?a" using inv by (simp add: app_inv_def)
  define a2 where "a2 = app_resize_home H w h ?a"
  have inv2: "app_inv H n a2"
  proof (cases "ap_homeModel a")
    case None
    then show ?thesis using inv1 by (simp add: a2_def app_resize_home_def)
  next
    case (Some hm)
    then have f: "hu_state H (hm_form hm) \<noteq> StateCompleted" using inv by (simp add: app_inv_def)
    obtain hm1 a' cmd where u: "updateHome H (CallMsg (WindowSizeMsg w h)) hm ?a = (hm1, a', cmd)" by (metis prod_cases3)
    from updateHome_cases [OF laws f u] have "a' = ?a" "hu_state H (hm_form hm1) \<noteq> StateCompleted" by blast+
    then show ?thesis using Some inv1 u by (simp add: a2_def app_resize_home_def app_inv_def)
  qed
  show ?thesis
  proof (cases "ap_callModel a2")
    case None
    then show ?thesis using inv2 by (simp add: app_resize_def a2_def [symmetric] Let_def)
  next
    case (Some cm)
    obtain a3 effects cmd where u: "updateCall U (WindowSizeMsg w h) cm a2 = (a3, effects, cmd)" by (metis prod_cases3)
    from updateCall_inv [OF inv2 u] Some u show ?thesis by (simp add: app_resize_def a2_def [symmetric] Let_def)
  qed
qed

lemma app_ready_inv:
  assumes inv: "app_inv H n a"
  shows "\<exists>a1 effects cmd. app_ready U started a = Some (a1, effects, cmd) \<and> app_inv H n a1 \<and> \<not> is_start cmd"
proof (cases started)
  case (Inl e)
  with inv show ?thesis by (simp add: app_ready_def app_inv_def is_start_def)
next
  case (Inr cm)
  let ?a = "a\<lparr>ap_currentScreen := screenCall, ap_callModel := Some cm\<rparr>"
  have inv1: "app_inv H n ?a" using inv by (simp add: app_inv_def)
  obtain a2 effects cmd where u: "updateCall U (WindowSizeMsg (ap_width ?a) (ap_height ?a)) cm ?a = (a2, effects, cmd)" by (metis prod_cases3)
  from updateCall_inv [OF inv1 u] inv1 u Inr show ?thesis by (simp add: app_ready_def Let_def is_start_def)
qed

lemma app_Update_inv:
  assumes laws: "form_laws H" and inv: "app_inv H n a"
  shows "\<exists>a1 effects cmd. app_Update U H x a = Some (a1, effects, cmd) \<and> app_inv H (n + (if is_start cmd then 1 else 0)) a1"
proof (cases x)
  case ConnectTickMsg
  with inv show ?thesis by (simp add: app_Update_def app_inv_def is_start_def spinnerFrames_def)
next
  case (CallReadyMsg started)
  with app_ready_inv [OF inv, of U started] show ?thesis by (auto simp: app_Update_def)
next
  case (FormMsg k)
  with app_forward_inv [OF laws inv, of U x] show ?thesis by (simp add: app_Update_def)
next
  case (CallMsg m)
  have other: "\<exists>a1 effects cmd. app_call_msg U m a = Some (a1, effects, cmd) \<and> app_inv H (n + (if is_start cmd then 1 else 0)) a1"
  proof (cases "ap_currentScreen a = screenCall")
    case True
    then obtain cm where cm: "ap_callModel a = Some cm" using inv by (auto simp: app_inv_def)
    obtain a1 effects cmd where u: "updateCall U m cm a = (a1, effects, cmd)" by (metis prod_cases3)
    from updateCall_inv [OF inv u] True cm u show ?thesis by (simp add: app_call_msg_def)
  next
    case False
    with inv show ?thesis by (cases "ap_currentScreen a") (simp_all add: app_call_msg_def is_start_def)
  qed
  show ?thesis
  proof (cases m)
    case (KeyMsg key)
    with CallMsg inv app_forward_inv [OF laws inv, of U x] show ?thesis by (auto simp: app_Update_def is_start_def)
  next
    case (WindowSizeMsg w h)
    from app_resize_inv [OF laws inv, of U w h] obtain a1 effects where
      "app_resize U H w h a = Some (a1, effects, AppNone)" "app_inv H n a1" by blast
    with CallMsg WindowSizeMsg show ?thesis by (simp add: app_Update_def is_start_def)
  qed (use CallMsg other in \<open>simp_all only: app_Update_def app_msg.case call_msg.case\<close>)
qed

lemma app_run_inv:
  assumes laws: "form_laws H"
  shows "app_inv H n a \<Longrightarrow> \<exists>a1 cmds. app_run U H xs a = Some (a1, cmds) \<and> app_inv H (n + length (filter is_start cmds)) a1"
proof (induction xs arbitrary: n a)
  case (Cons x xs)
  from app_Update_inv [OF laws Cons.prems, of U x] obtain a1 effects cmd where
    u: "app_Update U H x a = Some (a1, effects, cmd)" and inv: "app_inv H (n + (if is_start cmd then 1 else 0)) a1" by blast
  from Cons.IH [OF inv] obtain a2 cmds where "app_run U H xs a1 = Some (a2, cmds)"
    "app_inv H (n + (if is_start cmd then 1 else 0) + length (filter is_start cmds)) a2" by blast
  with u show ?case by (auto split: if_splits)
qed simp

text \<open>C24: The join screen starts one call. For any sequence of messages, the program never
  dereferences a missing screen model and the spinner's index stays inside its table; the
  connection attempt is started at most once, none was started while the form is still shown, and
  one was whenever the connecting screen is shown, provided the form library completes a
  form neither on a resize nor on a move between fields.\<close>

theorem app_starts_once:
  assumes "form_laws H" and "hu_state H form \<noteq> StateCompleted"
  shows "\<exists>a cmds. app_run U H xs (NewAppModel_form form) = Some (a, cmds) \<and>
    ap_spinnerFrame a < spinnerFrames \<and> length (filter is_start cmds) \<le> 1 \<and>
    (ap_currentScreen a = screenHome \<longrightarrow> filter is_start cmds = []) \<and>
    (ap_currentScreen a = screenConnecting \<longrightarrow> length (filter is_start cmds) = 1)"
proof -
  have "app_inv H 0 (NewAppModel_form form)"
    using assms(2) by (simp add: app_inv_def NewAppModel_form_def spinnerFrames_def)
  from app_run_inv [OF assms(1) this, of U xs] obtain a cmds where
    "app_run U H xs (NewAppModel_form form) = Some (a, cmds)" "app_inv H (length (filter is_start cmds)) a" by auto
  then show ?thesis by (auto simp: app_inv_def)
qed

text \<open>A form of one page that a form message completes.\<close>

definition small_form :: "nat huh" where
  "small_form = \<lparr>hu_update = (\<lambda>msg f. case msg of FormMsg _ \<Rightarrow> Some 1 | _ \<Rightarrow> Some f), hu_state = (\<lambda>f. if f = 1 then StateCompleted else StateNormal),
     hu_key = (\<lambda>f. ''Username''), hu_get = (\<lambda>f k. k), hu_next = (\<lambda>f. f), hu_prev = (\<lambda>f. f)\<rparr>"

theorem app_starts_once_witness:
  "\<exists>a cmds. app_run no_tables small_form [CallMsg (WindowSizeMsg 80 24), FormMsg 0, ConnectTickMsg, CallMsg (WindowSizeMsg 81 24)] (NewAppModel_form 0) = Some (a, cmds) \<and>
    length (filter is_start cmds) \<le> 1"
proof -
  have "form_laws small_form" "hu_state small_form 0 \<noteq> StateCompleted" by (auto simp: form_laws_def small_form_def)
  from app_starts_once [OF this, of no_tables "[CallMsg (WindowSizeMsg 80 24), FormMsg 0, ConnectTickMsg, CallMsg (WindowSizeMsg 81 24)]"]
  show ?thesis by blast
qed

section \<open>The program\<close>

text \<open>The flags ask for a call exactly when both the name and the room are given, and the server then
  is never empty.\<close>

lemma invocationMode_exact:
  "invocationMode u r s = Inr (skip, server) \<Longrightarrow> (skip \<longleftrightarrow> u \<noteq> [] \<and> r \<noteq> []) \<and> (skip \<longrightarrow> server \<noteq> []) \<and> (s \<noteq> [] \<and> skip \<longrightarrow> server = s)"
  by (auto simp: invocationMode_def DefaultServerURL_def split: if_splits)

text \<open>A call that fails to start leaves no open signaling connection.\<close>

lemma startCall_releases:
  assumes "startCall L now dialled written answer leave codecs silent insecure private res = (Some client, Inl e)"
  shows "cl_conn_closed client"
  using assms
  by (auto simp: startCall_def Dial_def client_Close_def abort_def new_client_def Let_def
      split: prod.splits sum.splits option.splits if_splits incoming.splits)

end
