(* ===== verification/Views.thy ===== *)
theory Views
  imports App_Model
begin

text \<open>
  What the program draws (\<^verbatim>\<open>src/internal/tui\<close>: \<open>View\<close> and the functions under it in \<^verbatim>\<open>call.go\<close>,
  \<^verbatim>\<open>controls.go\<close>, \<^verbatim>\<open>stats.go\<close>, \<^verbatim>\<open>voice.go\<close>, \<^verbatim>\<open>theme.go\<close>, \<^verbatim>\<open>home.go\<close>, \<^verbatim>\<open>join.go\<close> and \<^verbatim>\<open>app.go\<close>). The terminal
  libraries that style, join, measure and truncate text are a record of functions; texts are the
  bytes the program hands to them.
\<close>

section \<open>The terminal library\<close>

datatype position = Top | Left | Center

text \<open>A style; a width or height of 0 is unset, as in the library.\<close>

record style =
  sy_bold :: bool
  sy_foreground :: "string option"
  sy_background :: "string option"
  sy_padTop :: int
  sy_padRight :: int
  sy_padBottom :: int
  sy_padLeft :: int
  sy_width :: int
  sy_height :: int
  sy_align :: "position \<times> position"
  sy_border :: "string option"

definition NewStyle :: style where
  "NewStyle = \<lparr>sy_bold = False, sy_foreground = None, sy_background = None, sy_padTop = 0, sy_padRight = 0, sy_padBottom = 0,
     sy_padLeft = 0, sy_width = 0, sy_height = 0, sy_align = (Left, Top), sy_border = None\<rparr>"

definition Foreground :: "string \<Rightarrow> style \<Rightarrow> style" where
  "Foreground c s = s\<lparr>sy_foreground := Some c\<rparr>"

definition Background :: "string \<Rightarrow> style \<Rightarrow> style" where
  "Background c s = s\<lparr>sy_background := Some c\<rparr>"

definition Bold :: "style \<Rightarrow> style" where
  "Bold s = s\<lparr>sy_bold := True\<rparr>"

definition Padding :: "int \<Rightarrow> int \<Rightarrow> style \<Rightarrow> style" where
  "Padding v h s = s\<lparr>sy_padTop := v, sy_padRight := h, sy_padBottom := v, sy_padLeft := h\<rparr>"

record lipgloss =
  lg_Render :: "style \<Rightarrow> string \<Rightarrow> string"
  lg_Width :: "string \<Rightarrow> int"
  lg_Height :: "string \<Rightarrow> int"
  lg_JoinHorizontal :: "position \<Rightarrow> string list \<Rightarrow> string"
  lg_JoinVertical :: "position \<Rightarrow> string list \<Rightarrow> string"
  lg_Place :: "int \<Rightarrow> int \<Rightarrow> position \<Rightarrow> position \<Rightarrow> string \<Rightarrow> string"
  lg_Truncate :: "string \<Rightarrow> int \<Rightarrow> string \<Rightarrow> string"

text \<open>Characters outside ASCII, as UTF-8: the separators, the ellipsis, arrows and a bullet.\<close>

definition rightArrow :: string where "rightArrow = [CHR 0xEE, CHR 0x82, CHR 0xB0]"
definition leftArrow :: string where "leftArrow = [CHR 0xEE, CHR 0x82, CHR 0xB2]"
definition ellipsis :: string where "ellipsis = [CHR 0xE2, CHR 0x80, CHR 0xA6]"
definition upTriangle :: string where "upTriangle = [CHR 0xE2, CHR 0x96, CHR 0xB2]"
definition downTriangle :: string where "downTriangle = [CHR 0xE2, CHR 0x96, CHR 0xBC]"
definition bullet :: string where "bullet = [CHR 0xE2, CHR 0x80, CHR 0xA2]"
definition upArrow :: string where "upArrow = [CHR 0xE2, CHR 0x86, CHR 0x91]"
definition downArrow :: string where "downArrow = [CHR 0xE2, CHR 0x86, CHR 0x93]"
definition ballotX :: string where "ballotX = [CHR 0xE2, CHR 0x9C, CHR 0x97]"

section \<open>The theme\<close>

record Theme =
  th_Name :: string
  th_TitleFg :: string
  th_TitleBg :: string
  th_ControlBarBg :: string
  th_ControlBarFg :: string
  th_ActiveBtnFg :: string
  th_ActiveBtnBg :: string
  th_InactiveBtnFg :: string
  th_InactiveBtnBg :: string
  th_BorderColor :: string
  th_PeerLabelFg :: string
  th_StatusFg :: string
  th_StatsBg :: string
  th_CameraOffBg :: string
  th_CameraOffFg :: string
  th_VolumeOn :: string
  th_VolumeOff :: string
  th_StatsArrowUp :: string
  th_StatsArrowDown :: string

definition theme :: Theme where
  "theme = \<lparr>th_Name = ''base16'', th_TitleFg = ''#e1ffe5'', th_TitleBg = ''#83799c'', th_ControlBarBg = ''#161719'',
     th_ControlBarFg = ''#b5b3b0'', th_ActiveBtnFg = ''#e1ffe5'', th_ActiveBtnBg = ''#7a837c'', th_InactiveBtnFg = ''#e1ffe5'',
     th_InactiveBtnBg = ''#6f2e2a'', th_BorderColor = ''#554a62'', th_PeerLabelFg = ''#697a9a'', th_StatusFg = ''#c49b95'',
     th_StatsBg = ''#1e1f22'', th_CameraOffBg = ''#4a4a4a'', th_CameraOffFg = ''#e1ffe5'', th_VolumeOn = ''#e1ffe5'',
     th_VolumeOff = ''#101113'', th_StatsArrowUp = ''#7a837c'', th_StatsArrowDown = ''#ac7f7b''\<rparr>"

section \<open>Numbers\<close>

text \<open>The verbs \<^verbatim>\<open>%.1f\<close> and \<^verbatim>\<open>%.0f\<close>: the exact value rounded to a number of decimals, ties to even.\<close>

definition format_fixed :: "nat \<Rightarrow> go_float \<Rightarrow> string" where
  "format_fixed k x =
     (case x of
        NaN \<Rightarrow> ''NaN'' | PosInf \<Rightarrow> ''+Inf'' | NegInf \<Rightarrow> ''-Inf''
      | Fin q \<Rightarrow>
          let n = nat (round_even (\<bar>q\<bar> * 10 ^ k)); fraction = nat_digits (n mod 10 ^ k)
          in (if q < 0 then ''-'' else []) @ nat_digits (n div 10 ^ k) @
             (if k = 0 then [] else CHR ''.'' # replicate (k - length fraction) (CHR ''0'') @ fraction))"

section \<open>Parts of the call screen\<close>

definition renderControls :: "lipgloss \<Rightarrow> int \<Rightarrow> bool \<Rightarrow> bool \<Rightarrow> bool \<Rightarrow> string \<Rightarrow> Theme \<Rightarrow> string" where
  "renderControls L termW camOn micOn showStats renderMode t =
     (let render = (\<lambda>bg fg s. lg_Render L (Foreground fg (Background bg NewStyle)) s);
          button = (\<lambda>bg fg s. lg_Render L (Bold (Foreground fg (Background bg NewStyle))) s);
          vidBg = (if camOn then th_ActiveBtnBg t else th_InactiveBtnBg t);
          vidFg = (if camOn then th_ActiveBtnFg t else th_InactiveBtnFg t);
          micBg = (if micOn then th_ActiveBtnBg t else th_InactiveBtnBg t);
          micFg = (if micOn then th_ActiveBtnFg t else th_InactiveBtnFg t);
          vidText = (if camOn then '' [V] Video ON '' else '' [V] Video OFF '');
          micText = (if micOn then '' [M] Mic ON '' else '' [M] Mic OFF '');
          leftSection = lg_JoinHorizontal L Top
            [button vidBg vidFg vidText, render micBg vidBg rightArrow, button micBg micFg micText,
             render (th_ControlBarBg t) micBg rightArrow];
          qBg = th_TitleBg t; qFg = th_TitleFg t;
          sBg = (if showStats then th_ActiveBtnBg t else th_StatsBg t);
          sFg = (if showStats then th_ActiveBtnFg t else th_StatusFg t);
          nBg = th_BorderColor t; nFg = th_TitleFg t;
          rightSection = lg_JoinHorizontal L Top
            [render (th_ControlBarBg t) nBg [], button nBg nFg ('' [N] '' @ renderMode @ '' ''),
             render nBg sBg [], button sBg sFg '' [S] Stats '',
             render sBg qBg [], button qBg qFg '' [Q] Quit ''];
          spacer0 = termW - lg_Width L leftSection - lg_Width L rightSection;
          spacerW = (if spacer0 < 0 then 0 else spacer0);
          spacer = lg_Render L ((Background (th_ControlBarBg t) NewStyle)\<lparr>sy_width := spacerW\<rparr>) []
      in lg_Render L ((Background (th_ControlBarBg t) NewStyle)\<lparr>sy_width := termW\<rparr>)
           (lg_JoinHorizontal L Top [leftSection, spacer, rightSection]))"

definition statsBox :: "lipgloss \<Rightarrow> Theme \<Rightarrow> string \<Rightarrow> string" where
  "statsBox L t content = lg_Render L (Padding 0 1 (Foreground (th_StatusFg t) (Background (th_StatsBg t) NewStyle))) content"

definition renderOutgoingStats :: "lipgloss \<Rightarrow> go_float \<Rightarrow> go_float \<Rightarrow> Theme \<Rightarrow> string" where
  "renderOutgoingStats L outgoing audioOut t =
     (let arrow = lg_Render L (Foreground (th_StatsArrowUp t) NewStyle) upTriangle; total = float_add outgoing audioOut
      in statsBox L t (arrow @ '' UP: '' @ format_fixed 1 total @ '' KB/s (V:'' @ format_fixed 1 outgoing @
           '' A:'' @ format_fixed 1 audioOut @ '')''))"

definition renderIncomingStats :: "lipgloss \<Rightarrow> PeerStats \<Rightarrow> Theme \<Rightarrow> string" where
  "renderIncomingStats L stats t =
     (let arrow = lg_Render L (Foreground (th_StatsArrowDown t) NewStyle) downTriangle;
          total = float_add (st_IncomingKBps stats) (st_AudioInKBps stats)
      in statsBox L t (arrow @ '' DOWN: '' @ format_fixed 1 total @ '' KB/s (V:'' @ format_fixed 1 (st_IncomingKBps stats) @
           '' A:'' @ format_fixed 1 (st_AudioInKBps stats) @ '')''))"

text \<open>The loudness bars. The last bar of the table is the full block; silence is drawn with the lowest
  block. A volume is what a player reported, so it is finite (\<open>loudness_range\<close>).\<close>

definition voiceBars :: "string list" where
  "voiceBars = '' '' # map (\<lambda>c. [CHR 0xE2, CHR 0x96, c])
     [CHR 0x82, CHR 0x83, CHR 0x84, CHR 0x85, CHR 0x86, CHR 0x87, CHR 0x88]"

definition voiceText :: "lipgloss \<Rightarrow> rat \<Rightarrow> Theme \<Rightarrow> string" where
  "voiceText L rms t =
     (case renderVoiceActivity rms of
        None \<Rightarrow> CHR '' '' # lg_Render L (Foreground (th_VolumeOff t) NewStyle) (concat (replicate 5 [CHR 0xE2, CHR 0x96, CHR 0x81]))
      | Some bars \<Rightarrow> CHR '' '' # lg_Render L (Foreground (th_VolumeOn t) NewStyle) (concat (map (\<lambda>i. voiceBars ! i) bars)))"

definition finite_value :: "go_float \<Rightarrow> rat" where
  "finite_value x = (case x of Fin q \<Rightarrow> q | _ \<Rightarrow> 0)"

definition cameraOffPlaceholder :: "lipgloss \<Rightarrow> int \<Rightarrow> int \<Rightarrow> Theme \<Rightarrow> string" where
  "cameraOffPlaceholder L width height t =
     (if width < 1 \<or> height < 1 then []
      else lg_Render L ((Background (th_CameraOffBg t) (Foreground (th_CameraOffFg t) NewStyle))
             \<lparr>sy_width := width, sy_height := height, sy_align := (Center, Center)\<rparr>) ''Camera off'')"

record videoCellOptions =
  vo_name :: string
  vo_frame :: string
  vo_showCameraOffPlaceholder :: bool
  vo_stats :: string
  vo_boxWidth :: int
  vo_boxHeight :: int
  vo_maxInnerWidth :: int
  vo_maxInnerHeight :: int
  vo_theme :: Theme

definition topBar :: "lipgloss \<Rightarrow> videoCellOptions \<Rightarrow> string" where
  "topBar L v =
     (let t = vo_theme v;
          name = lg_Truncate L (vo_name v) (max 1 (vo_maxInnerWidth v sdiv 2)) ellipsis;
          nameLabel = lg_Render L ((Bold (Foreground (th_ActiveBtnFg t) (Background (th_ActiveBtnBg t) NewStyle)))\<lparr>sy_padLeft := 1\<rparr>) name;
          nameArrow = lg_Render L (Foreground (th_ActiveBtnBg t) (Background (th_BorderColor t) NewStyle)) rightArrow;
          topBarLeft = lg_JoinHorizontal L Top [nameLabel, nameArrow];
          topBarRight =
            (if vo_stats v \<noteq> [] then
               let stats = lg_Truncate L (vo_stats v) (max 1 (vo_maxInnerWidth v - lg_Width L topBarLeft - 1)) ellipsis;
                   statsArrow = lg_Render L (Foreground (th_StatsBg t) (Background (th_BorderColor t) NewStyle)) leftArrow
               in lg_JoinHorizontal L Top [statsArrow, stats]
             else []);
          filler0 = vo_maxInnerWidth v - lg_Width L topBarLeft - lg_Width L topBarRight;
          fillerWidth = (if filler0 < 0 then 0 else filler0);
          filler = lg_Render L ((Background (th_BorderColor t) NewStyle)\<lparr>sy_width := fillerWidth\<rparr>) []
      in lg_JoinHorizontal L Top [topBarLeft, filler, topBarRight])"

definition safeFrame :: "lipgloss \<Rightarrow> videoCellOptions \<Rightarrow> string" where
  "safeFrame L v =
     (if vo_showCameraOffPlaceholder v then cameraOffPlaceholder L (vo_maxInnerWidth v) (vo_maxInnerHeight v) (vo_theme v)
      else cropFrame (\<lambda>line w. lg_Truncate L line w []) (vo_maxInnerWidth v) (vo_maxInnerHeight v) (vo_frame v))"

definition renderCellTmux :: "lipgloss \<Rightarrow> videoCellOptions \<Rightarrow> string" where
  "renderCellTmux L v =
     lg_Place L (vo_boxWidth v) (vo_boxHeight v) Center Center (lg_JoinVertical L Center [topBar L v, safeFrame L v])"

section \<open>The call screen\<close>

definition modeName :: "RenderMode \<Rightarrow> string" where
  "modeName mode = (if mode = ModeColor256 then ''Color256'' else if mode = ModeHalfBlock then ''HalfBlock'' else ''ASCII'')"

definition titlePart :: "lipgloss \<Rightarrow> CallModel \<Rightarrow> string" where
  "titlePart L m =
     lg_JoinHorizontal L Top
       [lg_Render L (Padding 0 1 (Background (th_TitleBg theme) (Foreground (th_TitleFg theme) (Bold NewStyle))))
          ('' TermCall | Room: '' @ cm_roomID m @ '' ''),
        lg_Render L (Background (th_ControlBarBg theme) (Foreground (th_TitleBg theme) NewStyle)) rightArrow]"

definition statsPart :: "lipgloss \<Rightarrow> CallModel \<Rightarrow> string" where
  "statsPart L m =
     (case viewStats m of (maxPing, totalLoss, _) \<Rightarrow>
        if cm_showStats m \<and> cm_peers m \<noteq> []
        then lg_JoinHorizontal L Top
          [lg_Render L (Background (th_ControlBarBg theme) (Foreground (th_StatsBg theme) NewStyle)) leftArrow,
           lg_Render L (Padding 0 1 (Background (th_StatsBg theme) (Foreground (th_StatusFg theme) (Bold NewStyle))))
             (''Loss: '' @ go_format_uint (unat totalLoss) @ '' | Ping: '' @ format_fixed 0 maxPing @ '' ms'')]
        else [])"

definition titleBar :: "lipgloss \<Rightarrow> CallModel \<Rightarrow> string" where
  "titleBar L m =
     (let spacer0 = cm_width m - lg_Width L (titlePart L m) - lg_Width L (statsPart L m);
          spacerWidth = (if spacer0 < 0 then 0 else spacer0)
      in lg_JoinHorizontal L Top
           [titlePart L m, lg_Render L ((Background (th_ControlBarBg theme) NewStyle)\<lparr>sy_width := spacerWidth\<rparr>) [], statsPart L m])"

definition statusBar :: "lipgloss \<Rightarrow> CallModel \<Rightarrow> string" where
  "statusBar L m =
     (if cm_callError m = [] then []
      else lg_Render L ((Background (th_InactiveBtnBg theme) (Foreground (th_InactiveBtnFg theme) NewStyle))\<lparr>sy_width := cm_width m\<rparr>)
        (CHR '' '' # lg_Truncate L (cm_callError m) (max 1 (cm_width m - 2)) ellipsis))"

definition controlBar :: "lipgloss \<Rightarrow> CallModel \<Rightarrow> string" where
  "controlBar L m =
     renderControls L (cm_width m) (cm_camOn m) (cm_micOn m) (cm_showStats m) (modeName (cr_mode (cm_renderer m))) theme"

definition availableHeight :: "lipgloss \<Rightarrow> CallModel \<Rightarrow> int" where
  "availableHeight L m =
     (let h = cm_height m - lg_Height L (titleBar L m) - lg_Height L (statusBar L m) - lg_Height L (controlBar L m)
      in if h < 0 then 0 else h)"

text \<open>The options of the tiles, with the geometry \<open>(columns, boxWidth, boxHeight, innerWidth, innerHeight)\<close>.\<close>

type_synonym geometry = "int \<times> int \<times> int \<times> int \<times> int"

definition cellOptions :: "geometry \<Rightarrow> tile \<Rightarrow> string \<Rightarrow> string \<Rightarrow> videoCellOptions" where
  "cellOptions geo tile voice stats =
     (case geo of (columns, boxWidth, boxHeight, innerWidth, innerHeight) \<Rightarrow>
        \<lparr>vo_name = ti_name tile @ voice, vo_frame = ti_frame tile, vo_showCameraOffPlaceholder = ti_placeholder tile,
         vo_stats = stats, vo_boxWidth = boxWidth, vo_boxHeight = boxHeight, vo_maxInnerWidth = innerWidth,
         vo_maxInnerHeight = innerHeight, vo_theme = theme\<rparr>)"

definition localOptions :: "lipgloss \<Rightarrow> geometry \<Rightarrow> CallModel \<Rightarrow> videoCellOptions" where
  "localOptions L geo m =
     (case viewStats m of (_, _, outgoing, audioOut) \<Rightarrow>
        cellOptions geo (localTile m) (voiceText L (finite_value (cm_localVolume m)) theme)
          (if cm_showStats m then renderOutgoingStats L outgoing audioOut theme else []))"

definition peerOptions :: "lipgloss \<Rightarrow> geometry \<Rightarrow> CallModel \<Rightarrow> string \<Rightarrow> videoCellOptions" where
  "peerOptions L geo m peerID =
     (let volume = (case gm_get (cm_peerVolumes m) peerID of None \<Rightarrow> Fin 0 | Some v \<Rightarrow> v);
          stats = (case gm_get (cm_peerStats m) peerID of None \<Rightarrow> zero_stats | Some s \<Rightarrow> s)
      in cellOptions geo (peerTile m peerID) (voiceText L (finite_value volume) theme)
           (if cm_showStats m then renderIncomingStats L stats theme else []))"

definition videoCells :: "lipgloss \<Rightarrow> geometry \<Rightarrow> CallModel \<Rightarrow> string list" where
  "videoCells L geo m = renderCellTmux L (localOptions L geo m) # map (\<lambda>p. renderCellTmux L (peerOptions L geo m p)) (cm_peers m)"

definition gridArea :: "lipgloss \<Rightarrow> CallModel \<Rightarrow> string list list \<Rightarrow> string" where
  "gridArea L m rows =
     lg_Place L (cm_width m) (availableHeight L m) Center Center
       (lg_JoinVertical L Center (map (lg_JoinHorizontal L Top) rows))"

text \<open>With no columns the division before the loop over the rows would panic: no result.\<close>

definition call_View :: "lipgloss \<Rightarrow> CallModel \<Rightarrow> string option" where
  "call_View L m =
     (if cm_width m = 0 \<or> cm_height m = 0 then Some []
      else
        let geo = computeGrid (int (length (cm_peers m)) + 1) (cm_width m) (availableHeight L m)
        in map_option
             (\<lambda>rows. lg_JoinVertical L Left [titleBar L m, statusBar L m, gridArea L m rows, controlBar L m])
             (gridRows (fst geo) (videoCells L geo m)))"

section \<open>The other screens\<close>

definition home_View :: "lipgloss \<Rightarrow> ('f \<Rightarrow> string) \<Rightarrow> 'f HomeModel \<Rightarrow> string" where
  "home_View L formView hm =
     (if hm_width hm = 0 \<or> hm_height hm = 0 then []
      else
        let title = lg_Render L (Padding 0 2 (Background (th_TitleBg theme) (Foreground (th_TitleFg theme) (Bold NewStyle)))) '' TermCall '';
            subtitle = lg_Render L (Foreground (th_StatusFg theme) NewStyle) ''Private peer-to-peer calls in your terminal'';
            controls = lg_Render L (Foreground (th_ControlBarFg theme) NewStyle)
              (upArrow @ ''/'' @ downArrow @ '' switch  '' @ bullet @ ''  enter submit  '' @ bullet @ ''  ctrl+c quit'');
            privacy = lg_Render L (Foreground (th_PeerLabelFg theme) NewStyle) ''Camera and microphone start disabled'';
            content = lg_JoinVertical L Center [title, [], subtitle, [], formView (hm_form hm), [], privacy, controls];
            panel = lg_Render L ((Padding 1 3 (Background (th_ControlBarBg theme) NewStyle))\<lparr>sy_border := Some (th_BorderColor theme)\<rparr>) content
        in lg_Place L (hm_width hm) (hm_height hm) Center Center panel)"

definition join_View :: "lipgloss \<Rightarrow> ('f \<Rightarrow> string) \<Rightarrow> 'f \<Rightarrow> string" where
  "join_View L formView form =
     (let title = lg_Render L (Padding 0 1 (Background (th_TitleBg theme) (Foreground (th_TitleFg theme) (Bold NewStyle)))) '' TermCall - Join Room '';
          container = lg_Render L ((Padding 2 4 NewStyle)\<lparr>sy_border := Some (th_BorderColor theme)\<rparr>)
            (lg_JoinVertical L Center [title, [CHR 0x0A], formView form])
      in lg_Place L 100 40 Center Center container)"

text \<open>The frames of the spinner are Braille patterns; an index outside the table would panic.\<close>

definition spinnerText :: "nat \<Rightarrow> string option" where
  "spinnerText k =
     (let table = [CHR 0x8B, CHR 0x99, CHR 0xB9, CHR 0xB8, CHR 0xBC, CHR 0xB4, CHR 0xA6, CHR 0xA7, CHR 0x87, CHR 0x8F]
      in if k < length table then Some [CHR 0xE2, CHR 0xA0, table ! k] else None)"

definition renderConnecting :: "lipgloss \<Rightarrow> 'f AppModel \<Rightarrow> string option" where
  "renderConnecting L a =
     (if ap_width a = 0 \<or> ap_height a = 0 then Some []
      else
        let nl = CHR 0x0A;
            content =
              (if ap_connectError a \<noteq> []
               then Some (ballotX @ ''  Could not connect'' @ [nl, nl] @ ''  '' @ ap_connectError a @ [nl, nl] @ ''  press q to quit'')
               else map_option (\<lambda>spinner. spinner @ ''  Connecting to room '' @ ap_connectingLabel a @ ellipsis)
                      (spinnerText (ap_spinnerFrame a)));
            box = lg_Render L (Padding 1 2 (Background (th_ControlBarBg theme) (Foreground (th_ControlBarFg theme) NewStyle)))
        in map_option (\<lambda>c. lg_Place L (ap_width a) (ap_height a) Center Center (box c)) content)"

text \<open>A nil home model would be dereferenced: no result.\<close>

definition app_View :: "lipgloss \<Rightarrow> ('f \<Rightarrow> string) \<Rightarrow> 'f AppModel \<Rightarrow> string option" where
  "app_View L formView a =
     (case ap_currentScreen a of
        screenHome \<Rightarrow> map_option (home_View L formView) (ap_homeModel a)
      | screenConnecting \<Rightarrow> renderConnecting L a
      | screenCall \<Rightarrow> (case ap_callModel a of Some cm \<Rightarrow> call_View L cm | None \<Rightarrow> Some []))"

end
