(* ===== verification/View_Facts.thy ===== *)
theory View_Facts
  imports Views
begin

text \<open>
  The screen fits the window. What the program relies on in the terminal library are the documented
  sizes of joined, placed, styled and truncated blocks, collected in \<open>lipgloss_laws\<close>; from them and from the
  layout of \<open>Grid_Layout\<close> follow the exact sizes of tiles and of the whole screen.
\<close>

section \<open>What the terminal library promises\<close>

text \<open>Text that no style changes in size: one line, no tab, no carriage return.\<close>

definition plain_text :: "string \<Rightarrow> bool" where
  "plain_text s \<longleftrightarrow> list_all (\<lambda>c. c \<notin> {CHR 0x0A, CHR 0x09, CHR 0x0D}) s"

definition inline_style :: "style \<Rightarrow> bool" where
  "inline_style sty \<longleftrightarrow> sy_padTop sty = 0 \<and> sy_padBottom sty = 0 \<and> 0 \<le> sy_padLeft sty \<and> 0 \<le> sy_padRight sty \<and>
     0 \<le> sy_width sty \<and> sy_height sty = 0 \<and> sy_border sty = None"

definition block_style :: "style \<Rightarrow> bool" where
  "block_style sty \<longleftrightarrow> sy_padTop sty = 0 \<and> sy_padBottom sty = 0 \<and> sy_padLeft sty = 0 \<and> sy_padRight sty = 0 \<and>
     0 < sy_width sty \<and> 0 \<le> sy_height sty \<and> sy_border sty = None"

definition measure_laws :: "lipgloss \<Rightarrow> bool" where
  "measure_laws L \<longleftrightarrow>
     (\<forall>s. lg_Height L s = int (count_list s (CHR 0x0A)) + 1) \<and>
     (\<forall>s. 0 \<le> lg_Width L s) \<and> lg_Width L [] = 0 \<and>
     (\<forall>ls. ls \<noteq> [] \<longrightarrow> lg_Width L (join_on (CHR 0x0A) ls) \<le> Max (set (map (lg_Width L) ls))) \<and>
     lg_Width L rightArrow = 1 \<and> lg_Width L leftArrow = 1 \<and> lg_Width L ellipsis = 1 \<and> lg_Width L ''Camera off'' = 10"

definition join_laws :: "lipgloss \<Rightarrow> bool" where
  "join_laws L \<longleftrightarrow>
     (\<forall>p xs. xs \<noteq> [] \<longrightarrow>
        lg_Height L (lg_JoinHorizontal L p xs) = Max (set (map (lg_Height L) xs)) \<and>
        lg_Width L (lg_JoinHorizontal L p xs) = sum_list (map (lg_Width L) xs)) \<and>
     (\<forall>p xs. xs \<noteq> [] \<longrightarrow>
        lg_Height L (lg_JoinVertical L p xs) = sum_list (map (lg_Height L) xs) \<and>
        lg_Width L (lg_JoinVertical L p xs) = Max (set (map (lg_Width L) xs))) \<and>
     (\<forall>w h p q s.
        lg_Height L (lg_Place L w h p q s) = max h (lg_Height L s) \<and> lg_Width L (lg_Place L w h p q s) = max w (lg_Width L s))"

definition style_laws :: "lipgloss \<Rightarrow> bool" where
  "style_laws L \<longleftrightarrow>
     (\<forall>sty s. inline_style sty \<and> plain_text s \<and> (sy_width sty = 0 \<or> s = [] \<and> sy_padLeft sty = 0 \<and> sy_padRight sty = 0) \<longrightarrow>
        plain_text (lg_Render L sty s) \<and>
        lg_Width L (lg_Render L sty s) = max (sy_width sty) (lg_Width L s + sy_padLeft sty + sy_padRight sty)) \<and>
     (\<forall>sty s. block_style sty \<longrightarrow> lg_Width L (lg_Render L sty s) = sy_width sty) \<and>
     (\<forall>sty s. block_style sty \<and> plain_text s \<and> lg_Width L s \<le> sy_width sty \<longrightarrow> lg_Height L (lg_Render L sty s) = max 1 (sy_height sty))"

definition truncate_laws :: "lipgloss \<Rightarrow> bool" where
  "truncate_laws L \<longleftrightarrow>
     (\<forall>s n tail. CHR 0x0A \<notin> set s \<and> plain_text tail \<and> lg_Width L tail \<le> n \<longrightarrow>
        lg_Width L (lg_Truncate L s n tail) \<le> n \<and> CHR 0x0A \<notin> set (lg_Truncate L s n tail)) \<and>
     (\<forall>s n tail. plain_text s \<and> plain_text tail \<longrightarrow> plain_text (lg_Truncate L s n tail))"

definition lipgloss_laws :: "lipgloss \<Rightarrow> bool" where
  "lipgloss_laws L \<longleftrightarrow> measure_laws L \<and> join_laws L \<and> style_laws L \<and> truncate_laws L"

lemma lipgloss_lawsD:
  assumes "lipgloss_laws L"
  shows height_count: "lg_Height L s = int (count_list s (CHR 0x0A)) + 1"
    and width_nonneg: "0 \<le> lg_Width L s" and width_empty: "lg_Width L [] = 0"
    and width_lines: "ls \<noteq> [] \<Longrightarrow> lg_Width L (join_on (CHR 0x0A) ls) \<le> Max (set (map (lg_Width L) ls))"
    and width_glyphs: "lg_Width L rightArrow = 1" "lg_Width L leftArrow = 1" "lg_Width L ellipsis = 1" "lg_Width L ''Camera off'' = 10"
    and height_row: "xs \<noteq> [] \<Longrightarrow> lg_Height L (lg_JoinHorizontal L p xs) = Max (set (map (lg_Height L) xs))"
    and width_row: "xs \<noteq> [] \<Longrightarrow> lg_Width L (lg_JoinHorizontal L p xs) = sum_list (map (lg_Width L) xs)"
    and height_column: "xs \<noteq> [] \<Longrightarrow> lg_Height L (lg_JoinVertical L p xs) = sum_list (map (lg_Height L) xs)"
    and width_column: "xs \<noteq> [] \<Longrightarrow> lg_Width L (lg_JoinVertical L p xs) = Max (set (map (lg_Width L) xs))"
    and height_place: "lg_Height L (lg_Place L w h p q s) = max h (lg_Height L s)"
    and width_place: "lg_Width L (lg_Place L w h p q s) = max w (lg_Width L s)"
  using assms unfolding lipgloss_laws_def measure_laws_def join_laws_def by blast+

lemma inline_render:
  assumes "lipgloss_laws L" "inline_style sty" "plain_text s" "sy_width sty = 0 \<or> s = [] \<and> sy_padLeft sty = 0 \<and> sy_padRight sty = 0"
  shows "plain_text (lg_Render L sty s)"
    and "lg_Width L (lg_Render L sty s) = max (sy_width sty) (lg_Width L s + sy_padLeft sty + sy_padRight sty)"
  using assms unfolding lipgloss_laws_def style_laws_def by blast+

lemma block_render:
  assumes "lipgloss_laws L" "block_style sty"
  shows "lg_Width L (lg_Render L sty s) = sy_width sty"
    and "plain_text s \<Longrightarrow> lg_Width L s \<le> sy_width sty \<Longrightarrow> lg_Height L (lg_Render L sty s) = max 1 (sy_height sty)"
  using assms unfolding lipgloss_laws_def style_laws_def by blast+

lemma truncate_width:
  assumes "lipgloss_laws L" "CHR 0x0A \<notin> set s" "plain_text tail" "lg_Width L tail \<le> n"
  shows "lg_Width L (lg_Truncate L s n tail) \<le> n" and "CHR 0x0A \<notin> set (lg_Truncate L s n tail)"
  using assms unfolding lipgloss_laws_def truncate_laws_def by blast+

lemma truncate_plain:
  "lipgloss_laws L \<Longrightarrow> plain_text s \<Longrightarrow> plain_text tail \<Longrightarrow> plain_text (lg_Truncate L s n tail)"
  unfolding lipgloss_laws_def truncate_laws_def by blast

section \<open>Plain text\<close>

lemma plain_append [simp]: "plain_text (s @ t) \<longleftrightarrow> plain_text s \<and> plain_text t"
  by (simp add: plain_text_def)

lemma plain_Nil [simp]: "plain_text []"
  by (simp add: plain_text_def)

lemma plain_Cons [simp]: "plain_text (c # s) \<longleftrightarrow> c \<noteq> CHR 0x0A \<and> c \<noteq> CHR 0x09 \<and> c \<noteq> CHR 0x0D \<and> plain_text s"
  by (simp add: plain_text_def)

lemma plain_single_line: "plain_text s \<Longrightarrow> CHR 0x0A \<notin> set s"
  by (auto simp: plain_text_def list_all_iff)

lemma plain_height: "lipgloss_laws L \<Longrightarrow> plain_text s \<Longrightarrow> lg_Height L s = 1"
  by (simp add: height_count count_list_0_iff plain_single_line)

lemma plain_glyphs [simp]:
  "plain_text rightArrow" "plain_text leftArrow" "plain_text ellipsis" "plain_text upTriangle" "plain_text downTriangle"
  by (simp_all add: rightArrow_def leftArrow_def ellipsis_def upTriangle_def downTriangle_def)

lemma plain_digits [simp]: "plain_text (nat_digits n)"
  using nat_digits_all [of n] by (auto simp: plain_text_def list_all_iff is_digit_def in_range_def byte_val_def)

lemma plain_replicate [simp]: "plain_text (replicate k (CHR ''0''))"
  by (simp add: plain_text_def list_all_iff)

lemma plain_fixed [simp]: "plain_text (format_fixed k x)"
  by (auto simp: format_fixed_def Let_def split: go_float.split)

lemmas styles = NewStyle_def Foreground_def Background_def Bold_def Padding_def

lemma inline_styles [simp]:
  "inline_style NewStyle" "inline_style (Foreground c s) = inline_style s" "inline_style (Background c s) = inline_style s"
  "inline_style (Bold s) = inline_style s" "0 \<le> h \<Longrightarrow> inline_style (Padding 0 h NewStyle)"
  by (simp_all add: inline_style_def styles)

section \<open>Tiles\<close>

text \<open>A separator or a label: the rendered text is one line, as wide as the text and its padding.\<close>

lemma label_size:
  assumes "lipgloss_laws L" "inline_style sty" "plain_text s" "sy_width sty = 0"
  shows "lg_Height L (lg_Render L sty s) = 1" "lg_Width L (lg_Render L sty s) = lg_Width L s + sy_padLeft sty + sy_padRight sty"
proof -
  show "lg_Height L (lg_Render L sty s) = 1" using inline_render(1) [OF assms(1-3)] assms(4) plain_height [OF assms(1)] by blast
  have "0 \<le> lg_Width L s + sy_padLeft sty + sy_padRight sty" using width_nonneg [OF assms(1), of s] assms(2) by (simp add: inline_style_def)
  then show "lg_Width L (lg_Render L sty s) = lg_Width L s + sy_padLeft sty + sy_padRight sty"
    using inline_render(2) [OF assms(1-3)] assms(4) by simp
qed

lemma separator_size:
  assumes "lipgloss_laws L" "plain_text s"
  shows "lg_Height L (lg_Render L (Foreground a (Background b NewStyle)) s) = 1"
    "lg_Width L (lg_Render L (Foreground a (Background b NewStyle)) s) = lg_Width L s"
  using label_size [OF assms(1) _ assms(2), of "Foreground a (Background b NewStyle)"] by (simp_all add: inline_style_def styles)

text \<open>A spacer fills exactly the cells it is given.\<close>

lemma spacer_size:
  assumes "lipgloss_laws L" "0 \<le> w"
  shows "lg_Height L (lg_Render L ((Background c NewStyle)\<lparr>sy_width := w\<rparr>) []) = 1"
    "lg_Width L (lg_Render L ((Background c NewStyle)\<lparr>sy_width := w\<rparr>) []) = w"
proof -
  have sty: "inline_style ((Background c NewStyle)\<lparr>sy_width := w\<rparr>)" using assms(2) by (simp add: inline_style_def styles)
  note r = inline_render [OF assms(1) sty, of "[]"]
  show "lg_Height L (lg_Render L ((Background c NewStyle)\<lparr>sy_width := w\<rparr>) []) = 1"
    using r(1) plain_height [OF assms(1)] by (simp add: styles)
  show "lg_Width L (lg_Render L ((Background c NewStyle)\<lparr>sy_width := w\<rparr>) []) = w"
    using r(2) assms(2) width_empty [OF assms(1)] by (simp add: styles)
qed

lemma topBar_size:
  assumes laws: "lipgloss_laws L" and inner: "10 \<le> vo_maxInnerWidth v" and name: "plain_text (vo_name v)" and stats: "plain_text (vo_stats v)"
  shows "lg_Height L (topBar L v) = 1 \<and> lg_Width L (topBar L v) = vo_maxInnerWidth v"
proof -
  let ?t = "vo_theme v" and ?w = "vo_maxInnerWidth v"
  define nm where "nm = lg_Truncate L (vo_name v) (max 1 (?w sdiv 2)) ellipsis"
  define nameLabel where "nameLabel = lg_Render L ((Bold (Foreground (th_ActiveBtnFg ?t) (Background (th_ActiveBtnBg ?t) NewStyle)))\<lparr>sy_padLeft := 1\<rparr>) nm"
  define nameArrow where "nameArrow = lg_Render L (Foreground (th_ActiveBtnBg ?t) (Background (th_BorderColor ?t) NewStyle)) rightArrow"
  define left where "left = lg_JoinHorizontal L Top [nameLabel, nameArrow]"
  define st where "st = lg_Truncate L (vo_stats v) (max 1 (?w - lg_Width L left - 1)) ellipsis"
  define statsArrow where "statsArrow = lg_Render L (Foreground (th_StatsBg ?t) (Background (th_BorderColor ?t) NewStyle)) leftArrow"
  define right where "right = (if vo_stats v \<noteq> [] then lg_JoinHorizontal L Top [statsArrow, st] else [])"
  define fw where "fw = (if ?w - lg_Width L left - lg_Width L right < 0 then 0 else ?w - lg_Width L left - lg_Width L right)"
  define fill where "fill = lg_Render L ((Background (th_BorderColor ?t) NewStyle)\<lparr>sy_width := fw\<rparr>) []"
  have bar: "topBar L v = lg_JoinHorizontal L Top [left, fill, right]"
    by (simp add: topBar_def Let_def nm_def nameLabel_def nameArrow_def left_def st_def statsArrow_def right_def fw_def fill_def)
  have half: "max 1 (?w sdiv 2) = ?w div 2" using inner by (simp add: sdiv_pos)
  have nm: "plain_text nm" "lg_Width L nm \<le> ?w div 2"
    using truncate_plain [OF laws name] truncate_width(1) [OF laws plain_single_line [OF name], of ellipsis "?w div 2"] inner
    by (simp_all add: nm_def half width_glyphs [OF laws])
  have "inline_style ((Bold (Foreground a (Background b NewStyle)))\<lparr>sy_padLeft := 1\<rparr>)" for a b by (simp add: inline_style_def styles)
  then have lbl: "lg_Height L nameLabel = 1" "lg_Width L nameLabel = lg_Width L nm + 1"
    using label_size [OF laws _ nm(1)] by (simp_all add: nameLabel_def styles)
  have arrows: "lg_Height L nameArrow = 1" "lg_Width L nameArrow = 1" "lg_Height L statsArrow = 1" "lg_Width L statsArrow = 1"
    by (simp_all add: nameArrow_def statsArrow_def separator_size [OF laws] width_glyphs [OF laws])
  have left: "lg_Height L left = 1" "lg_Width L left = lg_Width L nm + 2"
    using height_row [OF laws] width_row [OF laws] lbl arrows by (simp_all add: left_def)
  have room: "1 \<le> ?w - lg_Width L left - 1" using left nm(2) inner by linarith
  have st: "lg_Height L st = 1" "lg_Width L st \<le> ?w - lg_Width L left - 1"
    using plain_height [OF laws truncate_plain [OF laws stats]] room
      truncate_width(1) [OF laws plain_single_line [OF stats], of ellipsis "max 1 (?w - lg_Width L left - 1)"]
    by (simp_all add: st_def width_glyphs [OF laws])
  have right: "lg_Height L right = 1" "lg_Width L right \<le> ?w - lg_Width L left"
    using height_row [OF laws] width_row [OF laws] arrows st room plain_height [OF laws plain_Nil] width_empty [OF laws]
    by (simp_all add: right_def)
  then have fw: "fw = ?w - lg_Width L left - lg_Width L right" "0 \<le> fw" by (simp_all add: fw_def)
  note fill = spacer_size [OF laws fw(2), of "th_BorderColor ?t", folded fill_def]
  show ?thesis using height_row [OF laws] width_row [OF laws] left right fill fw by (simp add: bar)
qed

lemma split_on_parts: "w \<in> set (split_on c s) \<Longrightarrow> c \<notin> set w"
  by (induction s arbitrary: w) (auto split: if_splits list.splits)

lemma split_on_nonempty: "split_on c s \<noteq> []"
  by (induction s) (auto split: list.splits)

lemma join_on_lines: "ws \<noteq> [] \<Longrightarrow> \<forall>w \<in> set ws. c \<notin> set w \<Longrightarrow> int (count_list (join_on c ws) c) + 1 = int (length ws)"
  by (induction c ws rule: join_on.induct) (auto simp: count_list_0_iff)

lemma safeFrame_size:
  assumes laws: "lipgloss_laws L" and inner: "10 \<le> vo_maxInnerWidth v" "5 \<le> vo_maxInnerHeight v"
  shows "1 \<le> lg_Height L (safeFrame L v) \<and> lg_Height L (safeFrame L v) \<le> vo_maxInnerHeight v \<and>
    lg_Width L (safeFrame L v) \<le> vo_maxInnerWidth v"
proof (cases "vo_showCameraOffPlaceholder v")
  case True
  let ?sty = "(Background (th_CameraOffBg (vo_theme v)) (Foreground (th_CameraOffFg (vo_theme v)) NewStyle))
    \<lparr>sy_width := vo_maxInnerWidth v, sy_height := vo_maxInnerHeight v, sy_align := (Center, Center)\<rparr>"
  have "block_style ?sty" using inner by (simp add: block_style_def styles)
  from block_render [OF laws this, of "''Camera off''"] inner show ?thesis
    using True by (simp add: safeFrame_def cameraOffPlaceholder_def width_glyphs [OF laws])
next
  case False
  let ?lines = "split_on (CHR 0x0A) (vo_frame v)" and ?short = "\<lambda>line. lg_Truncate L line (vo_maxInnerWidth v) []"
  define kept where "kept = (if vo_maxInnerHeight v < int (length ?lines) then take (nat (vo_maxInnerHeight v)) ?lines else ?lines)"
  have kept: "kept \<noteq> []" "int (length kept) \<le> vo_maxInnerHeight v" "set kept \<subseteq> set ?lines"
    using split_on_nonempty [of "CHR 0x0A" "vo_frame v"] inner by (auto simp: kept_def dest: in_set_takeD)
  have short: "lg_Width L (?short l) \<le> vo_maxInnerWidth v" "CHR 0x0A \<notin> set (?short l)" if "l \<in> set kept" for l
    using truncate_width [OF laws split_on_parts, of l "vo_frame v" "[]" "vo_maxInnerWidth v"] that kept(3) inner
    by (auto simp: width_empty [OF laws])
  have frame: "safeFrame L v = join_on (CHR 0x0A) (map ?short kept)"
    using False by (simp add: safeFrame_def cropFrame_def Let_def kept_def)
  have "lg_Height L (safeFrame L v) = int (length kept)"
    using join_on_lines [of "map ?short kept" "CHR 0x0A"] kept(1) short(2) by (simp add: frame height_count [OF laws])
  moreover have "lg_Width L (safeFrame L v) \<le> Max (set (map (lg_Width L) (map ?short kept)))"
    unfolding frame using kept(1) by (intro width_lines [OF laws]) simp
  moreover have "Max (set (map (lg_Width L) (map ?short kept))) \<le> vo_maxInnerWidth v" using kept(1) short(1) by simp
  moreover have "1 \<le> int (length kept)" using kept(1) by (cases kept) simp_all
  ultimately show ?thesis using kept(2) by linarith
qed

text \<open>A tile fills its box exactly, whatever it shows.\<close>

definition fits_box :: "videoCellOptions \<Rightarrow> bool" where
  "fits_box v \<longleftrightarrow> 12 \<le> vo_boxWidth v \<and> 6 \<le> vo_boxHeight v \<and>
     (vo_maxInnerWidth v, vo_maxInnerHeight v) = innerSize (vo_boxWidth v) (vo_boxHeight v)"

lemma tile_size:
  assumes laws: "lipgloss_laws L" and box: "fits_box v" and name: "plain_text (vo_name v)" and stats: "plain_text (vo_stats v)"
  shows "lg_Height L (renderCellTmux L v) = vo_boxHeight v \<and> lg_Width L (renderCellTmux L v) = vo_boxWidth v"
proof -
  have inner: "10 \<le> vo_maxInnerWidth v" "5 \<le> vo_maxInnerHeight v" "vo_maxInnerWidth v \<le> vo_boxWidth v" "vo_maxInnerHeight v + 1 \<le> vo_boxHeight v"
    using box by (auto simp: fits_box_def innerSize_def Let_def split: if_splits)
  from topBar_size [OF laws inner(1) name stats] safeFrame_size [OF laws inner(1,2)] inner(3,4) show ?thesis
    by (simp add: renderCellTmux_def height_place [OF laws] width_place [OF laws] height_column [OF laws] width_column [OF laws])
qed

section \<open>The call screen\<close>

lemma plain_voice: "lipgloss_laws L \<Longrightarrow> plain_text (voiceText L rms t)"
proof -
  assume laws: "lipgloss_laws L"
  have render: "plain_text s \<Longrightarrow> plain_text (lg_Render L (Foreground c NewStyle) s)" for c s
    using inline_render(1) [OF laws, of "Foreground c NewStyle" s] by (simp add: inline_style_def styles)
  have "list_all plain_text voiceBars" "length voiceBars = 8" by (simp_all add: voiceBars_def)
  then have bar: "\<forall>i < 8. plain_text (voiceBars ! i)" by (simp add: list_all_length)
  show ?thesis
  proof (cases "renderVoiceActivity rms")
    case None
    then show ?thesis by (simp add: voiceText_def) (simp add: render numeral_eq_Suc)
  next
    case (Some bars)
    have "list_all (\<lambda>i. i < 8) bars" using voiceBar_in_table [OF Some] by blast
    then have "plain_text (concat (map (\<lambda>i. voiceBars ! i) bars))" by (induction bars) (use bar in auto)
    then show ?thesis by (simp add: voiceText_def Some render)
  qed
qed

lemma plain_stats:
  assumes "lipgloss_laws L"
  shows "plain_text (renderOutgoingStats L a b t)" "plain_text (renderIncomingStats L st t)"
proof -
  have "plain_text s \<Longrightarrow> plain_text (lg_Render L (Foreground c NewStyle) s)" for c s
    using inline_render(1) [OF assms, of "Foreground c NewStyle" s] by (simp add: inline_style_def styles)
  moreover have "plain_text s \<Longrightarrow> plain_text (statsBox L t s)" for s
    unfolding statsBox_def by (rule inline_render(1) [OF assms]) (simp_all add: inline_style_def styles)
  ultimately show "plain_text (renderOutgoingStats L a b t)" "plain_text (renderIncomingStats L st t)"
    by (simp_all add: renderOutgoingStats_def renderIncomingStats_def Let_def)
qed

definition names_plain :: "CallModel \<Rightarrow> bool" where
  "names_plain m \<longleftrightarrow> (\<forall>p \<in> set (cm_peers m). plain_text (ti_name (peerTile m p)))"

lemma cells_size:
  assumes laws: "lipgloss_laws L" and names: "names_plain m" and box: "12 \<le> boxW" "6 \<le> boxH" "(innerW, innerH) = innerSize boxW boxH"
    and cell: "c \<in> set (videoCells L (cols, boxW, boxH, innerW, innerH) m)"
  shows "lg_Height L c = boxH \<and> lg_Width L c = boxW"
proof -
  let ?geo = "(cols, boxW, boxH, innerW, innerH)"
  have fits: "fits_box (cellOptions ?geo tile voice stats)" for tile voice stats using box(1,2) by (simp add: fits_box_def cellOptions_def box(3) [symmetric])
  have size: "lg_Height L (renderCellTmux L (cellOptions ?geo tile voice stats)) = boxH \<and>
      lg_Width L (renderCellTmux L (cellOptions ?geo tile voice stats)) = boxW"
    if "plain_text (ti_name tile)" "plain_text voice" "plain_text stats" for tile voice stats
    using tile_size [OF laws fits, of tile voice stats] that by (simp add: cellOptions_def)
  from cell consider "c = renderCellTmux L (localOptions L ?geo m)" | p where "p \<in> set (cm_peers m)" "c = renderCellTmux L (peerOptions L ?geo m p)"
    by (auto simp: videoCells_def)
  then show ?thesis
  proof cases
    case 1
    then show ?thesis
      by (simp add: localOptions_def localTile_def plain_voice [OF laws] plain_stats [OF laws] size split: prod.split)
  next
    case 2
    then show ?thesis
      using names by (simp add: peerOptions_def Let_def names_plain_def plain_voice [OF laws] plain_stats [OF laws] size)
  qed
qed

lemma map_const: "\<forall>x \<in> set xs. f x = a \<Longrightarrow> map f xs = replicate (length xs) a"
  by (induction xs) auto

lemma grid_area_size:
  assumes laws: "lipgloss_laws L" and w: "0 < cm_width m" and rows: "rows \<noteq> []" "\<forall>row \<in> set rows. row \<noteq> [] \<and> int (length row) \<le> cols"
    and cells: "\<forall>c \<in> set (concat rows). lg_Height L c = boxH \<and> lg_Width L c = boxW" and box: "0 \<le> boxW"
    and fit: "cols * boxW \<le> cm_width m" "int (length rows) * boxH \<le> availableHeight L m"
  shows "lg_Height L (gridArea L m rows) = availableHeight L m \<and> lg_Width L (gridArea L m rows) = cm_width m"
proof -
  have row: "lg_Height L (lg_JoinHorizontal L Top r) = boxH \<and> lg_Width L (lg_JoinHorizontal L Top r) \<le> cm_width m" if r: "r \<in> set rows" for r
  proof -
    have ne: "r \<noteq> []" and c: "\<forall>c \<in> set r. lg_Height L c = boxH \<and> lg_Width L c = boxW" using rows(2) cells r by auto
    have "map (lg_Height L) r = replicate (length r) boxH" "map (lg_Width L) r = replicate (length r) boxW"
      using c by (auto intro: map_const)
    then have "lg_Height L (lg_JoinHorizontal L Top r) = boxH" "lg_Width L (lg_JoinHorizontal L Top r) = int (length r) * boxW"
      using height_row [OF laws ne] width_row [OF laws ne] ne by (simp_all add: sum_list_replicate)
    moreover have "int (length r) * boxW \<le> cols * boxW" using rows(2) r box by (intro mult_right_mono) simp_all
    ultimately show ?thesis using fit(1) by linarith
  qed
  have "map (lg_Height L) (map (lg_JoinHorizontal L Top) rows) = replicate (length rows) boxH"
    using row map_const [of "map (lg_JoinHorizontal L Top) rows" "lg_Height L" boxH] by simp
  then have "lg_Height L (lg_JoinVertical L Center (map (lg_JoinHorizontal L Top) rows)) = int (length rows) * boxH"
    using height_column [OF laws, of "map (lg_JoinHorizontal L Top) rows"] rows(1) by (simp add: sum_list_replicate)
  moreover have "lg_Width L (lg_JoinVertical L Center (map (lg_JoinHorizontal L Top) rows)) \<le> cm_width m"
    using width_column [OF laws, of "map (lg_JoinHorizontal L Top) rows"] rows(1) row by simp
  ultimately show ?thesis using fit(2) by (simp add: gridArea_def height_place [OF laws] width_place [OF laws])
qed

lemma title_width:
  assumes "lipgloss_laws L" "lg_Width L (titlePart L m) + lg_Width L (statsPart L m) \<le> cm_width m"
  shows "lg_Width L (titleBar L m) = cm_width m"
  using assms by (simp add: titleBar_def Let_def width_row [OF assms(1)] spacer_size [OF assms(1)])

text \<open>The title bar is one line.\<close>

lemma title_height:
  assumes laws: "lipgloss_laws L" and room: "plain_text (cm_roomID m)"
  shows "lg_Height L (titleBar L m) = 1"
proof -
  note sizes = height_row [OF laws] separator_size(1) [OF laws] plain_height [OF laws plain_Nil]
  have sep: "lg_Height L (lg_Render L (Background a (Foreground b NewStyle)) s) = 1" if "plain_text s" for a b s
    using label_size(1) [OF laws _ that, of "Background a (Foreground b NewStyle)"] by (simp add: inline_style_def styles)
  have lab: "lg_Height L (lg_Render L (Padding 0 1 (Background a (Foreground b (Bold NewStyle)))) s) = 1" if "plain_text s" for a b s
    using label_size(1) [OF laws _ that, of "Padding 0 1 (Background a (Foreground b (Bold NewStyle)))"] by (simp add: inline_style_def styles)
  have "lg_Height L (titlePart L m) = 1" using room by (simp add: titlePart_def sizes sep lab)
  moreover have "lg_Height L (statsPart L m) = 1" by (simp add: statsPart_def sizes sep lab go_format_uint_def split: prod.split)
  ultimately show ?thesis by (simp add: titleBar_def Let_def sizes spacer_size(1) [OF laws])
qed

lemma bars_width:
  assumes "lipgloss_laws L" "0 < cm_width m"
  shows "lg_Width L (controlBar L m) = cm_width m" "lg_Width L (statusBar L m) \<le> cm_width m"
proof -
  have sty: "block_style ((Background b NewStyle)\<lparr>sy_width := cm_width m\<rparr>)"
    "block_style ((Background b (Foreground f NewStyle))\<lparr>sy_width := cm_width m\<rparr>)" for b f
    using assms(2) by (simp_all add: block_style_def styles)
  show "lg_Width L (controlBar L m) = cm_width m"
    unfolding controlBar_def renderControls_def Let_def using block_render(1) [OF assms(1) sty(1)] by simp
  show "lg_Width L (statusBar L m) \<le> cm_width m"
    using block_render(1) [OF assms(1) sty(2)] assms(2) width_empty [OF assms(1)] by (simp add: statusBar_def)
qed

text \<open>C25: The call screen fills the window. With a terminal library that keeps its documented sizes,
  participants' names without line breaks and tabs, and boxes of at least 12 by 6 cells, drawing
  succeeds, the screen has exactly as many lines as the window, every tile fills its box exactly
  whatever it shows, and, if the title and the statistics fit, the screen is exactly as wide as the
  window.\<close>

theorem call_screen_fits:
  assumes "lipgloss_laws L" and "names_plain m" and "0 < cm_width m"
    and "computeGrid (int (length (cm_peers m)) + 1) (cm_width m) (availableHeight L m) = (cols, boxW, boxH, innerW, innerH)"
    and "12 \<le> boxW" and "6 \<le> boxH"
  shows "\<exists>screen. call_View L m = Some screen \<and> lg_Height L screen = cm_height m \<and>
    (\<forall>c \<in> set (videoCells L (cols, boxW, boxH, innerW, innerH) m). lg_Height L c = boxH \<and> lg_Width L c = boxW) \<and>
    (lg_Width L (titlePart L m) + lg_Width L (statsPart L m) \<le> cm_width m \<longrightarrow> lg_Width L screen = cm_width m)"
proof -
  let ?geo = "(cols, boxW, boxH, innerW, innerH)" let ?cells = "videoCells L ?geo m"
  have n: "int (length ?cells) = int (length (cm_peers m)) + 1" by (simp add: videoCells_def)
  have avail0: "0 \<le> availableHeight L m" by (simp add: availableHeight_def Let_def)
  have "(innerW, innerH) = innerSize boxW boxH" using computeGrid_eq [OF _ assms(4)] by simp
  note cells = cells_size [OF assms(1,2,5,6) this]
  have some: "?cells \<noteq> []" by (simp add: videoCells_def)
  have "computeGrid (int (length ?cells)) (cm_width m) (availableHeight L m) = ?geo" unfolding n by (rule assms(4))
  from grid_rows_fit [OF some less_imp_le [OF assms(3)] avail0 this] obtain rows where
    rows: "gridRows cols ?cells = Some rows" "concat rows = ?cells" "\<forall>row \<in> set rows. row \<noteq> [] \<and> int (length row) \<le> cols"
      "cols * boxW \<le> cm_width m" "int (length rows) * boxH \<le> availableHeight L m"
    by blast
  have ne: "rows \<noteq> []" using rows(2) some by auto
  note area = grid_area_size [OF assms(1,3) ne rows(3) _ _ rows(4,5)]
  have area: "lg_Height L (gridArea L m rows) = availableHeight L m" "lg_Width L (gridArea L m rows) = cm_width m"
    using area cells rows(2) assms(5) by simp_all
  have "0 < int (length rows) * boxH" using ne assms(6) by simp
  with rows(5) have pos: "0 < availableHeight L m" by linarith
  let ?screen = "lg_JoinVertical L Left [titleBar L m, statusBar L m, gridArea L m rows, controlBar L m]"
  have "0 \<le> lg_Height L s" for s by (simp add: height_count [OF assms(1)])
  with pos have h: "cm_height m \<noteq> 0" unfolding availableHeight_def Let_def by (smt (verit))
  have "call_View L m = Some ?screen" using assms(3,4) h rows(1) by (simp add: call_View_def Let_def)
  moreover have "lg_Height L ?screen = cm_height m"
    using pos area(1) by (simp add: height_column [OF assms(1)] availableHeight_def Let_def split: if_splits)
  moreover have "lg_Width L (titlePart L m) + lg_Width L (statsPart L m) \<le> cm_width m \<longrightarrow> lg_Width L ?screen = cm_width m"
    using title_width [OF assms(1)] bars_width [OF assms(1,3)] area(2) by (simp add: width_column [OF assms(1)])
  ultimately show ?thesis using cells by blast
qed

section \<open>Drawing never panics\<close>

lemma call_View_total: "\<exists>s. call_View L m = Some s"
proof -
  obtain cols boxW boxH innerW innerH where
    g: "computeGrid (int (length (cm_peers m)) + 1) (cm_width m) (availableHeight L m) = (cols, boxW, boxH, innerW, innerH)"
    by (metis prod_cases5)
  have "1 \<le> cols" using computeGrid_eq [OF _ g] by simp
  then show ?thesis by (simp add: call_View_def Let_def g gridRows_def)
qed

text \<open>Whatever messages arrive, the screen can be drawn: the screen's model is there, the spinner's index is
  inside its table and the grid has a column.\<close>

lemma app_View_total:
  assumes "form_laws H" "hu_state H form \<noteq> StateCompleted" "app_run U H xs (NewAppModel_form form) = Some (a, cmds)"
  shows "\<exists>s. app_View L formView a = Some s"
proof -
  have "app_inv H 0 (NewAppModel_form form)"
    using assms(2) by (simp add: app_inv_def NewAppModel_form_def spinnerFrames_def)
  from app_run_inv [OF assms(1) this, of U xs] assms(3) have inv: "app_inv H (length (filter is_start cmds)) a" by auto
  show ?thesis
  proof (cases "ap_currentScreen a")
    case screenHome
    with inv show ?thesis by (auto simp: app_inv_def app_View_def)
  next
    case screenConnecting
    from inv have "ap_spinnerFrame a < 10" by (simp add: app_inv_def spinnerFrames_def)
    with screenConnecting show ?thesis by (simp add: app_View_def renderConnecting_def spinnerText_def Let_def)
  next
    case screenCall
    with inv call_View_total [of L] show ?thesis by (auto simp: app_inv_def app_View_def)
  qed
qed

section \<open>A terminal library that keeps the promises\<close>

text \<open>It draws blank blocks of the sizes that the real library promises; a character is one cell.\<close>

definition cells :: "string \<Rightarrow> int" where
  "cells s = Max (set (map (\<lambda>l. int (length (filter (\<lambda>c. \<not> in_range 128 191 c) l))) (split_on (CHR 0x0A) s)))"

definition blank :: "int \<Rightarrow> int \<Rightarrow> string" where
  "blank w h = join_on (CHR 0x0A) (replicate (nat h) (replicate (nat w) (CHR '' '')))"

definition rows_of :: "string \<Rightarrow> int" where
  "rows_of s = int (count_list s (CHR 0x0A)) + 1"

definition blank_terminal :: lipgloss where
  "blank_terminal =
     \<lparr>lg_Render = (\<lambda>sty s. if block_style sty then blank (sy_width sty) (max 1 (sy_height sty))
        else blank (max (sy_width sty) (cells s + sy_padLeft sty + sy_padRight sty)) 1),
      lg_Width = cells, lg_Height = rows_of,
      lg_JoinHorizontal = (\<lambda>p xs. blank (sum_list (map cells xs)) (Max (set (map rows_of xs)))),
      lg_JoinVertical = (\<lambda>p xs. blank (Max (set (map cells xs))) (sum_list (map rows_of xs))),
      lg_Place = (\<lambda>w h p q s. blank (max w (cells s)) (max h (rows_of s))),
      lg_Truncate = (\<lambda>s n tail. if cells s \<le> n then s else take (nat n) s)\<rparr>"

lemma cells_single: "CHR 0x0A \<notin> set s \<Longrightarrow> cells s = int (length (filter (\<lambda>c. \<not> in_range 128 191 c) s))"
  by (simp add: cells_def split_on_no_sep)

lemma cells_nonneg: "0 \<le> cells s"
proof -
  obtain l ls where "split_on (CHR 0x0A) s = l # ls" using split_on_nonempty [of "CHR 0x0A" s] by (cases "split_on (CHR 0x0A) s") auto
  then show ?thesis by (cases "ls = []") (simp_all add: cells_def max_def)
qed

lemma split_on_parts_append: "split_on c (w @ c # s) = split_on c w @ split_on c s"
  by (induction w) (auto split: list.splits simp: split_on_nonempty)

lemma cells_append_line: "cells (w @ CHR 0x0A # s) = max (cells w) (cells s)"
proof -
  let ?f = "\<lambda>l. int (length (filter (\<lambda>c. \<not> in_range 128 191 c) l))"
  have "Max (?f ` set (split_on (CHR 0x0A) w) \<union> ?f ` set (split_on (CHR 0x0A) s)) =
      max (Max (?f ` set (split_on (CHR 0x0A) w))) (Max (?f ` set (split_on (CHR 0x0A) s)))"
    using split_on_nonempty [of "CHR 0x0A"] by (intro Max_Un) simp_all
  then show ?thesis by (simp add: cells_def split_on_parts_append image_Un)
qed

lemma cells_join: "ls \<noteq> [] \<Longrightarrow> cells (join_on (CHR 0x0A) ls) = Max (set (map cells ls))"
  by (induction "CHR 0x0A" ls rule: join_on.induct) (simp_all add: cells_append_line)

lemma blank_size:
  assumes "0 \<le> w" "1 \<le> h"
  shows "cells (blank w h) = w" "rows_of (blank w h) = h"
proof -
  let ?row = "replicate (nat w) (CHR '' '')"
  have "cells ?row = w" using assms by (simp add: cells_single in_range_def byte_val_def)
  then show "cells (blank w h) = w" using assms by (simp add: blank_def cells_join)
  show "rows_of (blank w h) = h"
    using join_on_lines [of "replicate (nat h) ?row" "CHR 0x0A"] assms by (simp add: blank_def rows_of_def)
qed

lemma plain_blank: "plain_text (blank w 1)"
  by (simp add: blank_def plain_text_def list_all_iff)

lemma rows_pos: "1 \<le> rows_of s"
  by (simp add: rows_of_def)

lemma list_size_bounds:
  assumes "xs \<noteq> []"
  shows "0 \<le> sum_list (map cells xs)" "1 \<le> Max (set (map rows_of xs))" "0 \<le> Max (set (map cells xs))" "1 \<le> sum_list (map rows_of xs)"
proof -
  obtain y ys where xs: "xs = y # ys" using assms by (cases xs) auto
  show "0 \<le> sum_list (map cells xs)" by (intro sum_list_nonneg) (auto simp: cells_nonneg)
  have "rows_of y \<le> Max (set (map rows_of xs))" "cells y \<le> Max (set (map cells xs))" by (auto simp: xs intro: Max_ge)
  then show "1 \<le> Max (set (map rows_of xs))" "0 \<le> Max (set (map cells xs))" using rows_pos [of y] cells_nonneg [of y] by linarith+
  have "0 \<le> sum_list (map rows_of ys)" by (intro sum_list_nonneg) (auto simp: rows_of_def)
  then show "1 \<le> sum_list (map rows_of xs)" using rows_pos [of y] by (simp add: xs)
qed

lemma blank_terminal_laws: "lipgloss_laws blank_terminal"
proof -
  have glyphs: "cells rightArrow = 1" "cells leftArrow = 1" "cells ellipsis = 1" "cells ''Camera off'' = 10" "cells [] = 0" by code_simp+
  have measure: "measure_laws blank_terminal"
    by (simp add: measure_laws_def blank_terminal_def rows_of_def cells_nonneg cells_join glyphs)
  have join: "join_laws blank_terminal"
    unfolding join_laws_def using list_size_bounds rows_pos cells_nonneg
    by (auto simp: blank_terminal_def blank_size max.coboundedI2)
  have style: "style_laws blank_terminal"
    unfolding style_laws_def
    by (auto simp: blank_terminal_def blank_size plain_blank block_style_def inline_style_def cells_nonneg glyphs)
  have take: "cells (take (nat n) s) \<le> n" if "CHR 0x0A \<notin> set s" "0 \<le> n" for n s
  proof -
    have "length (filter (\<lambda>c. \<not> in_range 128 191 c) (take (nat n) s)) \<le> nat n"
      using length_filter_le [of "\<lambda>c. \<not> in_range 128 191 c" "take (nat n) s"] by simp
    moreover have "CHR 0x0A \<notin> set (take (nat n) s)" using that(1) by (meson in_set_takeD)
    ultimately show ?thesis using that(2) by (simp add: cells_single)
  qed
  have "0 \<le> n" if "cells t \<le> n" for t n using cells_nonneg [of t] that by linarith
  then have "truncate_laws blank_terminal"
    unfolding truncate_laws_def
    by (auto simp: blank_terminal_def take plain_text_def list_all_iff dest: in_set_takeD)
  with measure join style show ?thesis by (simp add: lipgloss_laws_def)
qed

text \<open>A call of four on a window of 205 by 32 cells, with statistics shown.\<close>

definition four_call :: CallModel where
  "four_call = foldl (\<lambda>m (p, n). AddPeer p n m) ((NewCallModel ''ABCDEF'')\<lparr>cm_width := 205, cm_height := 32, cm_showStats := True\<rparr>)
     [(''p'', ''ann''), (''q'', ''bob''), (''r'', ''eve'')]"

lemma four_call_height: "availableHeight blank_terminal four_call = 29"
proof -
  have m: "cm_width four_call = 205" "cm_height four_call = 32" "cm_callError four_call = []" "cm_roomID four_call = ''ABCDEF''" by code_simp+
  have "lg_Height blank_terminal (titleBar blank_terminal four_call) = 1" by (rule title_height [OF blank_terminal_laws]) (simp add: m)
  moreover have "lg_Height blank_terminal (statusBar blank_terminal four_call) = 1" by (simp add: statusBar_def m blank_terminal_def rows_of_def)
  moreover have "lg_Height blank_terminal (controlBar blank_terminal four_call) = 1"
    by (simp add: controlBar_def renderControls_def Let_def m blank_terminal_def block_style_def styles blank_size)
  ultimately show ?thesis by (simp add: availableHeight_def m)
qed

theorem call_screen_fits_witness: "\<exists>screen. call_View blank_terminal four_call = Some screen \<and> rows_of screen = 32"
proof -
  have h: "lg_Height blank_terminal = rows_of" by (simp add: blank_terminal_def)
  have "computeGrid 4 205 29 = (2, 102, 14, 100, 11)" by code_simp
  moreover have "names_plain four_call" by code_simp
  moreover have "cm_width four_call = 205" "cm_height four_call = 32" "length (cm_peers four_call) = 3" by code_simp+
  ultimately show ?thesis
    using call_screen_fits [OF blank_terminal_laws, of four_call 2 102 14 100 11] by (auto simp: four_call_height h)
qed

end
