(* ===== verification/Mesh_Facts.thy ===== *)
theory Mesh_Facts
  imports Mesh
begin

text \<open>
  The mesh as a step relation at the granularity of its lock: the signaling goroutine creates,
  registers, announces and offers in separate steps, hands a description to the library between two
  steps, a peer that leaves is taken out of the map in one step and closed and reported in a later
  one, muting lists the senders in one step and replaces their tracks in later ones, and callbacks of the connections, cancellation
  and \<open>Stop\<close> happen in between in any order. The invariant says that no connection leaks and that
  the events shown to the user interface add up to the registered peers.
\<close>

section \<open>Events\<close>

definition joins :: "string \<Rightarrow> mesh_event list \<Rightarrow> nat" where
  "joins k es = length (filter (\<lambda>e. case e of PeerJoin k' _ \<Rightarrow> k' = k | _ \<Rightarrow> False) es)"

definition leaves :: "string \<Rightarrow> mesh_event list \<Rightarrow> nat" where
  "leaves k es = length (filter (\<lambda>e. e = PeerLeave k) es)"

lemma joins_leaves_simps [simp]:
  "joins k [] = 0" "leaves k [] = 0"
  "joins k (es @ fs) = joins k es + joins k fs" "leaves k (es @ fs) = leaves k es + leaves k fs"
  "joins k [PeerJoin k' u] = (if k' = k then 1 else 0)" "leaves k [PeerJoin k' u] = 0"
  "joins k [PeerLeave k'] = 0" "leaves k [PeerLeave k'] = (if k' = k then 1 else 0)"
  by (simp_all add: joins_def leaves_def)

text \<open>Steps that leave the registration alone.\<close>

definition plain_event :: "mesh_event \<Rightarrow> bool" where
  "plain_event e \<longleftrightarrow> (case e of PeerJoin _ _ \<Rightarrow> False | PeerLeave _ \<Rightarrow> False | _ \<Rightarrow> True)"

lemma count_plain: "list_all plain_event fs \<Longrightarrow> joins k fs = 0 \<and> leaves k fs = 0"
  by (induction fs) (auto simp: plain_event_def joins_def leaves_def split: mesh_event.splits)

text \<open>Calls that leave no connection open.\<close>

definition opens_none :: "rtc_call list \<Rightarrow> bool" where
  "opens_none cs \<longleftrightarrow> (\<forall>con. NewConnection con \<in> set cs \<longrightarrow> ConnectionClose con \<in> set cs)"

lemma opens_none_simps [simp]:
  "opens_none []" "opens_none (map (AddCandidate pc) cs)" "opens_none [AddTrack pc t]" "opens_none [ChannelClose ch]"
  "opens_none [PlayerClose pl]" "opens_none [SendSignal msg]" "opens_none [ReplaceTrack s t]" "opens_none [SendText ch txt]"
  "opens_none [RemoteDescription pc k d]" "opens_none [AddCandidate pc c]"
  "opens_none [NewConnection pc, AddTrack pc t, ConnectionClose pc]"
  by (auto simp: opens_none_def)

definition quiet :: "MeshManager \<Rightarrow> MeshManager \<Rightarrow> bool" where
  "quiet m m' \<longleftrightarrow>
     ms_Peers m' = ms_Peers m \<and> ms_next m' = ms_next m \<and> ms_cancelled m' = ms_cancelled m \<and> ms_stopped m' = ms_stopped m \<and>
     ms_LocalPeerID m' = ms_LocalPeerID m \<and>
     (\<forall>a. rp_PeerID (ms_heap m' a) = rp_PeerID (ms_heap m a) \<and> rp_closed (ms_heap m' a) = rp_closed (ms_heap m a) \<and>
          rp_PC (ms_heap m' a) = rp_PC (ms_heap m a)) \<and>
     set (ms_calls m) \<subseteq> set (ms_calls m') \<and>
     (\<forall>con. NewConnection con \<in> set (ms_calls m') \<longrightarrow> NewConnection con \<in> set (ms_calls m) \<or> ConnectionClose con \<in> set (ms_calls m')) \<and>
     (\<exists>fs. ms_events m' = ms_events m @ fs \<and> list_all plain_event fs)"

lemma quiet_refl [simp]: "quiet m m"
  by (auto simp: quiet_def)

lemma quiet_trans:
  assumes "quiet a b" "quiet b c"
  shows "quiet a c"
proof -
  from assms obtain fs gs where e: "ms_events b = ms_events a @ fs" "list_all plain_event fs"
    "ms_events c = ms_events b @ gs" "list_all plain_event gs" by (auto simp: quiet_def)
  then have "ms_events c = ms_events a @ (fs @ gs)" "list_all plain_event (fs @ gs)" by simp_all
  then have "\<exists>hs. ms_events c = ms_events a @ hs \<and> list_all plain_event hs" by blast
  moreover have "set (ms_calls a) \<subseteq> set (ms_calls c)" using assms by (auto simp: quiet_def)
  moreover have "NewConnection con \<in> set (ms_calls c) \<longrightarrow> NewConnection con \<in> set (ms_calls a) \<or> ConnectionClose con \<in> set (ms_calls c)" for con
    using assms by (auto simp: quiet_def)
  ultimately show ?thesis using assms by (simp add: quiet_def)
qed

text \<open>Introduction rules that follow the structure of a handler.\<close>

lemma quiet_log: "opens_none cs \<Longrightarrow> quiet m (log_calls cs m)"
  by (auto simp: quiet_def log_calls_def opens_none_def)

lemma quiet_notify: "quiet m (notifyError e m)"
  by (auto simp: quiet_def notifyError_def emit_event_def plain_event_def)

lemma quiet_frame: "quiet m (emit_event (FrameShown k f) m)"
  by (auto simp: quiet_def emit_event_def plain_event_def)

lemma quiet_set_remote:
  "rp_PeerID p = rp_PeerID (ms_heap m a) \<and> rp_closed p = rp_closed (ms_heap m a) \<and> rp_PC p = rp_PC (ms_heap m a) \<Longrightarrow>
   quiet m (set_remote a p m)"
  by (auto simp: quiet_def set_remote_def)

lemma quiet_intros [intro!]:
  "opens_none cs \<Longrightarrow> quiet m n \<Longrightarrow> quiet m (log_calls cs n)"
  "quiet m n \<Longrightarrow> quiet m (notifyError e n)"
  "quiet m n \<Longrightarrow> quiet m (emit_event (FrameShown k f) n)"
  "rp_PeerID p = rp_PeerID (ms_heap m a) \<and> rp_closed p = rp_closed (ms_heap m a) \<and> rp_PC p = rp_PC (ms_heap m a) \<Longrightarrow>
   quiet m (set_remote a p m)"
  by (blast intro: quiet_trans quiet_log quiet_notify quiet_frame quiet_set_remote)+

lemma quiet_remote_ops:
  "AddICECandidate ok c p = (err, calls, q) \<Longrightarrow>
     rp_PeerID q = rp_PeerID p \<and> rp_closed q = rp_closed p \<and> rp_PC q = rp_PC p \<and> opens_none calls"
  "SetRemoteDescription_finish cok pc p = (err, calls, q) \<Longrightarrow>
     rp_PeerID q = rp_PeerID p \<and> rp_closed q = rp_closed p \<and> rp_PC q = rp_PC p \<and> opens_none calls"
  "SetDataChannel ch p = (b, q) \<Longrightarrow> rp_PeerID q = rp_PeerID p \<and> rp_closed q = rp_closed p \<and> rp_PC q = rp_PC p"
  "SetPlayer pl p = (r, q) \<Longrightarrow> rp_PeerID q = rp_PeerID p \<and> rp_closed q = rp_closed p \<and> rp_PC q = rp_PC p"
  "onMessage b l raw p = (f, q) \<Longrightarrow> rp_PeerID q = rp_PeerID p \<and> rp_closed q = rp_closed p \<and> rp_PC q = rp_PC p"
  "SetRemoteDescription_begin ok k d p = (x, calls) \<Longrightarrow> opens_none calls"
  by (auto simp: AddICECandidate_def SetRemoteDescription_finish_def SetDataChannel_def SetPlayer_def onMessage_def UpdateFrame_def
        SetRemoteDescription_begin_def split: if_splits option.splits prod.splits bool.splits)

lemma quiet_register: "quiet m (registerDataChannel a ch l m)"
  by (auto simp: registerDataChannel_def split: prod.splits bool.splits dest!: quiet_remote_ops(3))

lemma quiet_sendSDP [intro!]: "quiet m n \<Longrightarrow> quiet m (sendSDP lib k d pid n)"
  by (auto simp: sendSDP_def Let_def split: sum.splits)

lemma quiet_begin: "receiveDescription kind lib msg m = (x, m') \<Longrightarrow> quiet m m'"
  by (auto simp: receiveDescription_def Let_def split: option.splits sum.splits prod.splits if_splits dest!: quiet_remote_ops(6))

lemma quiet_handlers:
  "quiet m (handleICECandidate lib msg m)" "quiet m (handleError msg m)"
  "quiet m (handleOffer_finish lib pid x m)" "quiet m (handleAnswer_finish lib pid x m)"
  by (auto simp: handleOffer_finish_def handleAnswer_finish_def handleICECandidate_def handleError_def Let_def
      split: option.splits sum.splits prod.splits dest!: quiet_remote_ops(1,2))

lemma quiet_callbacks:
  "quiet m (onTrack pid pl m)" "quiet m (onICECandidate lib pid c m)" "quiet m (onChannelMessage a b l raw m)"
  by (auto simp: onTrack_def onICECandidate_def onChannelMessage_def Let_def
      split: option.splits prod.splits bool.splits sum.splits dest!: quiet_remote_ops(4,5))

section \<open>Closing a peer\<close>

lemma close_remote_eqs [simp]:
  "ms_Peers (close_remote a m) = ms_Peers m" "ms_next (close_remote a m) = ms_next m"
  "ms_cancelled (close_remote a m) = ms_cancelled m" "ms_stopped (close_remote a m) = ms_stopped m"
  "ms_events (close_remote a m) = ms_events m" "ms_LocalPeerID (close_remote a m) = ms_LocalPeerID m"
  "rp_PeerID (ms_heap (close_remote a m) b) = rp_PeerID (ms_heap m b)"
  "rp_PC (ms_heap (close_remote a m) b) = rp_PC (ms_heap m b)"
  "rp_closed (ms_heap (close_remote a m) b) = (b = a \<or> rp_closed (ms_heap m b))"
  by (auto simp: close_remote_def peer_Close_def log_calls_def set_remote_def split: prod.splits if_splits)

lemma close_remote_opens: "NewConnection con \<in> set (ms_calls (close_remote a m)) \<longleftrightarrow> NewConnection con \<in> set (ms_calls m)"
  by (auto simp: close_remote_def peer_Close_def log_calls_def set_remote_def split: prod.splits if_splits option.splits)

lemma close_remote_calls:
  "set (ms_calls m) \<subseteq> set (ms_calls (close_remote a m))"
  "\<not> rp_closed (ms_heap m a) \<Longrightarrow> rp_PC (ms_heap m a) = Some pc \<Longrightarrow> ConnectionClose pc \<in> set (ms_calls (close_remote a m))"
  by (auto simp: close_remote_def peer_Close_def log_calls_def set_remote_def split: prod.splits if_splits)

text \<open>The connection of a closed peer is closed, and a connection that the library ever made is
  closed or belongs to a peer.\<close>

definition closed_ok :: "MeshManager \<Rightarrow> bool" where
  "closed_ok m \<longleftrightarrow>
     (\<forall>a < ms_next m. \<forall>pc. rp_closed (ms_heap m a) \<longrightarrow> rp_PC (ms_heap m a) = Some pc \<longrightarrow> ConnectionClose pc \<in> set (ms_calls m)) \<and>
     (\<forall>pc. NewConnection pc \<in> set (ms_calls m) \<longrightarrow>
        ConnectionClose pc \<in> set (ms_calls m) \<or> (\<exists>a < ms_next m. rp_PC (ms_heap m a) = Some pc))"

lemma closed_ok_close:
  assumes "closed_ok m"
  shows "closed_ok (close_remote a m)"
proof -
  have "ConnectionClose pc \<in> set (ms_calls (close_remote a m))" if "b < ms_next m" "b = a \<or> rp_closed (ms_heap m b)" "rp_PC (ms_heap m b) = Some pc" for b pc
    using assms that close_remote_calls [of m a] unfolding closed_ok_def by blast
  moreover have "ConnectionClose pc \<in> set (ms_calls (close_remote a m)) \<or> (\<exists>a < ms_next m. rp_PC (ms_heap m a) = Some pc)"
    if "NewConnection pc \<in> set (ms_calls m)" for pc
    using assms that close_remote_calls(1) [of m a] unfolding closed_ok_def by blast
  ultimately show ?thesis by (simp add: closed_ok_def close_remote_opens)
qed

lemma closed_ok_cong:
  "closed_ok m \<Longrightarrow> ms_next m' = ms_next m \<Longrightarrow> ms_heap m' = ms_heap m \<Longrightarrow> ms_calls m' = ms_calls m \<Longrightarrow> closed_ok m'"
  by (simp add: closed_ok_def)

section \<open>The world\<close>

text \<open>Where the signaling goroutine is inside \<open>handlePeerJoined\<close> or, with a description in the hands of the
  library (\<open>Describing\<close>, of an offer or an answer), inside \<open>handleOffer\<close> or \<open>handleAnswer\<close>; the peers that were taken out
  of the map and are not closed yet, each with the identifier to report, if it is to be reported; and the
  calls of \<open>SetMuteAudio\<close> under way, each with its track and the peers still to be given it.\<close>

datatype join_pc = Idle | Created nat | Registered nat | Announced nat | Describing bool string "nat \<times> nat"

record mesh_world =
  mw_mesh :: MeshManager
  mw_pc :: join_pc
  mw_leaving :: "(nat \<times> string option) list"
  mw_muting :: "(nat \<times> nat list) list"

definition reported :: "string \<Rightarrow> (nat \<times> string option) list \<Rightarrow> nat" where
  "reported k lv = length (filter (\<lambda>x. snd x = Some k) lv)"

definition is_registered :: "string \<Rightarrow> MeshManager \<Rightarrow> nat" where
  "is_registered k m = (if gm_get (ms_Peers m) k = None then 0 else 1)"

definition to_announce :: "string \<Rightarrow> join_pc \<Rightarrow> MeshManager \<Rightarrow> nat" where
  "to_announce k pc m = (case pc of Registered a \<Rightarrow> if rp_PeerID (ms_heap m a) = k then 1 else 0 | _ \<Rightarrow> 0)"

definition mesh_inv :: "MeshManager \<Rightarrow> join_pc \<Rightarrow> (nat \<times> string option) list \<Rightarrow> bool" where
  "mesh_inv m pc lv \<longleftrightarrow>
     gm_wf (ms_Peers m) \<and>
     (\<forall>k a. gm_get (ms_Peers m) k = Some a \<longrightarrow> a < ms_next m \<and> rp_PeerID (ms_heap m a) = k \<and> \<not> rp_closed (ms_heap m a)) \<and>
     (\<forall>a < ms_next m. \<not> rp_closed (ms_heap m a) \<longrightarrow>
        gm_get (ms_Peers m) (rp_PeerID (ms_heap m a)) = Some a \<or> pc = Created a \<or> a \<in> fst ` set lv) \<and>
     (\<forall>a. pc = Created a \<longrightarrow>
        a < ms_next m \<and> \<not> rp_closed (ms_heap m a) \<and> gm_get (ms_Peers m) (rp_PeerID (ms_heap m a)) \<noteq> Some a \<and> a \<notin> fst ` set lv) \<and>
     (\<forall>a \<in> fst ` set lv. a < ms_next m \<and> gm_get (ms_Peers m) (rp_PeerID (ms_heap m a)) \<noteq> Some a) \<and>
     closed_ok m \<and>
     (ms_stopped m \<longrightarrow> ms_cancelled m \<and> ms_Peers m = gm_empty) \<and>
     (\<not> ms_stopped m \<longrightarrow> (\<forall>k. joins k (ms_events m) + to_announce k pc m = leaves k (ms_events m) + reported k lv + is_registered k m))"

lemma mesh_invI:
  assumes "gm_wf (ms_Peers m)"
    and "\<And>k a. gm_get (ms_Peers m) k = Some a \<Longrightarrow> a < ms_next m \<and> rp_PeerID (ms_heap m a) = k \<and> \<not> rp_closed (ms_heap m a)"
    and "\<And>a. a < ms_next m \<Longrightarrow> \<not> rp_closed (ms_heap m a) \<Longrightarrow>
      gm_get (ms_Peers m) (rp_PeerID (ms_heap m a)) = Some a \<or> pc = Created a \<or> a \<in> fst ` set lv"
    and "\<And>a. pc = Created a \<Longrightarrow>
      a < ms_next m \<and> \<not> rp_closed (ms_heap m a) \<and> gm_get (ms_Peers m) (rp_PeerID (ms_heap m a)) \<noteq> Some a \<and> a \<notin> fst ` set lv"
    and "\<And>a. a \<in> fst ` set lv \<Longrightarrow> a < ms_next m \<and> gm_get (ms_Peers m) (rp_PeerID (ms_heap m a)) \<noteq> Some a"
    and "closed_ok m" and "ms_stopped m \<Longrightarrow> ms_cancelled m \<and> ms_Peers m = gm_empty"
    and "\<And>k. \<not> ms_stopped m \<Longrightarrow> joins k (ms_events m) + to_announce k pc m = leaves k (ms_events m) + reported k lv + is_registered k m"
  shows "mesh_inv m pc lv"
  using assms unfolding mesh_inv_def by blast

lemma mesh_invD:
  assumes "mesh_inv m pc lv"
  shows inv_wf: "gm_wf (ms_Peers m)"
    and inv_reg: "\<And>k a. gm_get (ms_Peers m) k = Some a \<Longrightarrow> a < ms_next m \<and> rp_PeerID (ms_heap m a) = k \<and> \<not> rp_closed (ms_heap m a)"
    and inv_open: "\<And>a. a < ms_next m \<Longrightarrow> \<not> rp_closed (ms_heap m a) \<Longrightarrow>
      gm_get (ms_Peers m) (rp_PeerID (ms_heap m a)) = Some a \<or> pc = Created a \<or> a \<in> fst ` set lv"
    and inv_created: "\<And>a. pc = Created a \<Longrightarrow>
      a < ms_next m \<and> \<not> rp_closed (ms_heap m a) \<and> gm_get (ms_Peers m) (rp_PeerID (ms_heap m a)) \<noteq> Some a \<and> a \<notin> fst ` set lv"
    and inv_leaving: "\<And>a. a \<in> fst ` set lv \<Longrightarrow> a < ms_next m \<and> gm_get (ms_Peers m) (rp_PeerID (ms_heap m a)) \<noteq> Some a"
    and inv_closed: "closed_ok m" and inv_stop: "ms_stopped m \<Longrightarrow> ms_cancelled m \<and> ms_Peers m = gm_empty"
    and inv_count: "\<And>k. \<not> ms_stopped m \<Longrightarrow> joins k (ms_events m) + to_announce k pc m = leaves k (ms_events m) + reported k lv + is_registered k m"
  using assms unfolding mesh_inv_def by blast+

lemma quiet_inv:
  assumes q: "quiet m m'" and inv: "mesh_inv m pc lv"
  shows "mesh_inv m' pc lv"
proof -
  from q obtain fs where e: "ms_events m' = ms_events m @ fs" "list_all plain_event fs" by (auto simp: quiet_def)
  have eqs: "ms_Peers m' = ms_Peers m" "ms_next m' = ms_next m" "ms_cancelled m' = ms_cancelled m" "ms_stopped m' = ms_stopped m"
    "\<And>a. rp_PeerID (ms_heap m' a) = rp_PeerID (ms_heap m a)" "\<And>a. rp_closed (ms_heap m' a) = rp_closed (ms_heap m a)"
    "\<And>a. rp_PC (ms_heap m' a) = rp_PC (ms_heap m a)" and calls: "set (ms_calls m) \<subseteq> set (ms_calls m')"
    using q by (simp_all add: quiet_def)
  have ev: "joins k (ms_events m') = joins k (ms_events m)" "leaves k (ms_events m') = leaves k (ms_events m)" for k
    using count_plain [OF e(2), of k] by (simp_all add: e(1))
  have counts: "to_announce k pc m' = to_announce k pc m" "is_registered k m' = is_registered k m" for k
    unfolding to_announce_def is_registered_def eqs by (rule refl)+
  have "closed_ok m'" using inv_closed [OF inv] calls q unfolding closed_ok_def quiet_def eqs by blast
  with inv show ?thesis unfolding mesh_inv_def eqs ev counts by blast
qed

text \<open>Where a connection that was made can be.\<close>

lemma inv_connection:
  assumes inv: "mesh_inv m pc lv" and new: "NewConnection con \<in> set (ms_calls m)"
  shows "ConnectionClose con \<in> set (ms_calls m) \<or>
    (\<exists>a. rp_PC (ms_heap m a) = Some con \<and> (gm_get (ms_Peers m) (rp_PeerID (ms_heap m a)) = Some a \<or> pc = Created a \<or> a \<in> fst ` set lv))"
proof (cases "ConnectionClose con \<in> set (ms_calls m)")
  case False
  with inv_closed [OF inv] new obtain a where a: "a < ms_next m" "rp_PC (ms_heap m a) = Some con" unfolding closed_ok_def by blast
  with inv_closed [OF inv] False have "\<not> rp_closed (ms_heap m a)" unfolding closed_ok_def by blast
  from inv_open [OF inv a(1) this] a(2) show ?thesis by blast
qed simp

text \<open>The invariant only reads the events through their counts.\<close>

lemma inv_move:
  assumes inv: "mesh_inv m pc lv"
    and same: "ms_Peers m' = ms_Peers m" "ms_next m' = ms_next m" "ms_heap m' = ms_heap m" "ms_cancelled m' = ms_cancelled m"
      "ms_stopped m' = ms_stopped m" "ms_calls m' = ms_calls m"
    and pcs: "\<And>a. pc' = Created a \<longleftrightarrow> pc = Created a"
    and ev: "\<And>k. joins k (ms_events m') + to_announce k pc' m' = joins k (ms_events m) + to_announce k pc m \<and>
      leaves k (ms_events m') = leaves k (ms_events m)"
  shows "mesh_inv m' pc' lv"
  using inv ev unfolding mesh_inv_def same pcs closed_ok_def is_registered_def by auto

section \<open>The steps keep the invariant\<close>

lemma create_shape:
  assumes "handlePeerJoined_create U lib msg m = (r, m')"
  shows "r = None \<and> quiet m m' \<or>
    (\<exists>con sender username. r = Some (ms_next m) \<and>
       m' = (set_remote (ms_next m) (new_peer (m_PeerID msg) username con (Some sender)) (log_calls [NewConnection con, AddTrack con (outgoingTrack m)] m))
              \<lparr>ms_next := Suc (ms_next m)\<rparr>)"
proof -
  have n: "ms_next (log_calls cs m) = ms_next m" for cs by (simp add: log_calls_def)
  show ?thesis
    using assms
    by (auto simp: handlePeerJoined_create_def createPeerConnection_def n split: if_splits option.splits sum.splits prod.splits)
qed

text \<open>A participant is announced with a normalised name.\<close>

lemma created_name:
  "handlePeerJoined_create U lib msg m = (Some a, m') \<Longrightarrow> NormalizeUsername U (m_Username msg) = Inr (rp_Username (ms_heap m' a))"
  by (auto simp: handlePeerJoined_create_def set_remote_def new_peer_def split: if_splits option.splits sum.splits prod.splits)

lemma create_inv:
  assumes inv: "mesh_inv m Idle lv" and c: "handlePeerJoined_create U lib msg m = (r, m')"
  shows "mesh_inv m' (case r of None \<Rightarrow> Idle | Some a \<Rightarrow> Created a) lv"
  using create_shape [OF c]
proof (elim disjE conjE exE)
  assume "r = None" "quiet m m'"
  then show ?thesis using inv by (simp add: quiet_inv)
next
  fix con sender username
  assume r: "r = Some (ms_next m)" and m': "m' = (set_remote (ms_next m) (new_peer (m_PeerID msg) username con (Some sender))
    (log_calls [NewConnection con, AddTrack con (outgoingTrack m)] m))\<lparr>ms_next := Suc (ms_next m)\<rparr>"
  let ?m1 = "log_calls [AddTrack con (outgoingTrack m)] m" and ?a = "ms_next m"
  have inv1: "mesh_inv ?m1 Idle lv" by (rule quiet_inv [OF quiet_log inv]) simp
  have n: "ms_next ?m1 = ?a" by (simp add: log_calls_def)
  have eqs: "ms_Peers m' = ms_Peers ?m1" "ms_next m' = Suc ?a" "ms_stopped m' = ms_stopped ?m1" "ms_events m' = ms_events ?m1"
    "ms_cancelled m' = ms_cancelled ?m1" "set (ms_calls m') = insert (NewConnection con) (set (ms_calls ?m1))"
    "ms_heap m' = (ms_heap ?m1)(?a := new_peer (m_PeerID msg) username con (Some sender))"
    by (auto simp: m' set_remote_def log_calls_def)
  have below: "b < ?a" if "gm_get (ms_Peers ?m1) k = Some b" for k b using inv_reg [OF inv1 that] n by simp
  have below': "b < ?a" if "b \<in> fst ` set lv" for b using inv_leaving [OF inv1 that] n by simp
  have "mesh_inv m' (Created ?a) lv"
  proof (rule mesh_invI)
    show "gm_wf (ms_Peers m')" unfolding eqs by (rule inv_wf [OF inv1])
    show "b < ms_next m' \<and> rp_PeerID (ms_heap m' b) = k \<and> \<not> rp_closed (ms_heap m' b)" if "gm_get (ms_Peers m') k = Some b" for k b
      using inv_reg [OF inv1, of k b] below [of k b] that unfolding eqs by simp
    show "gm_get (ms_Peers m') (rp_PeerID (ms_heap m' b)) = Some b \<or> Created ?a = Created b \<or> b \<in> fst ` set lv"
      if "b < ms_next m'" "\<not> rp_closed (ms_heap m' b)" for b
      using inv_open [OF inv1, of b] that n unfolding eqs by (auto simp: less_Suc_eq split: if_splits)
    show "b < ms_next m' \<and> \<not> rp_closed (ms_heap m' b) \<and> gm_get (ms_Peers m') (rp_PeerID (ms_heap m' b)) \<noteq> Some b \<and> b \<notin> fst ` set lv"
      if "Created ?a = Created b" for b
      using that below [of "m_PeerID msg" ?a] below' [of ?a] unfolding eqs by (auto simp: new_peer_def)
    show "b < ms_next m' \<and> gm_get (ms_Peers m') (rp_PeerID (ms_heap m' b)) \<noteq> Some b" if "b \<in> fst ` set lv" for b
      using inv_leaving [OF inv1 that] below' [OF that] unfolding eqs by simp
    show "closed_ok m'" unfolding closed_ok_def
    proof (intro conjI allI impI)
      show "ConnectionClose pc \<in> set (ms_calls m')" if "b < ms_next m'" "rp_closed (ms_heap m' b)" "rp_PC (ms_heap m' b) = Some pc" for b pc
        using inv_closed [OF inv1] that n unfolding closed_ok_def eqs by (auto simp: less_Suc_eq new_peer_def)
      show "ConnectionClose pc \<in> set (ms_calls m') \<or> (\<exists>b < ms_next m'. rp_PC (ms_heap m' b) = Some pc)"
        if pc: "NewConnection pc \<in> set (ms_calls m')" for pc
      proof (cases "pc = con")
        case True
        have "rp_PC (ms_heap m' ?a) = Some con" "?a < ms_next m'" by (simp_all add: eqs new_peer_def)
        with True show ?thesis by blast
      next
        case False
        with pc inv_closed [OF inv1] n
        have "ConnectionClose pc \<in> set (ms_calls ?m1) \<or> (\<exists>b < ?a. rp_PC (ms_heap ?m1 b) = Some pc)"
          unfolding closed_ok_def eqs by fastforce
        moreover have "ms_heap m' b = ms_heap ?m1 b" if "b < ?a" for b using that by (simp add: eqs)
        ultimately show ?thesis unfolding eqs(2,6) by (metis insertI2 less_SucI)
      qed
    qed
    show "ms_cancelled m' \<and> ms_Peers m' = gm_empty" if "ms_stopped m'" using that inv_stop [OF inv1] unfolding eqs by simp
    show "joins k (ms_events m') + to_announce k (Created ?a) m' = leaves k (ms_events m') + reported k lv + is_registered k m'"
      if "\<not> ms_stopped m'" for k
      using inv_count [OF inv1, of k] that unfolding eqs to_announce_def is_registered_def by simp
  qed
  with r show ?thesis by simp
qed

lemma close_inv:
  assumes inv: "mesh_inv m pc lv" and free: "\<And>k. gm_get (ms_Peers m) k \<noteq> Some a" "pc \<noteq> Created a"
  shows "mesh_inv (close_remote a m) pc lv"
proof -
  have ann: "to_announce k pc (close_remote a m) = to_announce k pc m" "is_registered k (close_remote a m) = is_registered k m" for k
    by (simp_all add: to_announce_def is_registered_def split: join_pc.split)
  show ?thesis
    using inv closed_ok_close [OF inv_closed [OF inv], of a] free unfolding mesh_inv_def ann close_remote_eqs by blast
qed

lemma created_free:
  assumes inv: "mesh_inv m (Created a) lv"
  shows "gm_get (ms_Peers m) k \<noteq> Some a"
  using inv_created [OF inv refl] inv_reg [OF inv, of k a] by auto

lemma register_inv:
  assumes inv: "mesh_inv m (Created a) lv" and r: "handlePeerJoined_register a m = (ok, m')"
  shows "mesh_inv m' (if ok then Registered a else Idle) lv"
proof (cases ok)
  case False
  then have m': "m' = close_remote a m" using r by (auto simp: handlePeerJoined_register_def Let_def split: if_splits)
  let ?m = "close_remote a m"
  have counts: "to_announce k Idle ?m = to_announce k (Created a) m" "is_registered k ?m = is_registered k m" for k
    by (simp_all add: to_announce_def is_registered_def)
  have "mesh_inv ?m Idle lv"
    using inv closed_ok_close [OF inv_closed [OF inv], of a] created_free [OF inv]
    unfolding mesh_inv_def counts close_remote_eqs by blast
  with False m' show ?thesis by simp
next
  case True
  let ?id = "rp_PeerID (ms_heap m a)"
  have m': "m' = m\<lparr>ms_Peers := gm_set ?id a (ms_Peers m)\<rparr>" and fresh: "gm_get (ms_Peers m) ?id = None" "\<not> ms_cancelled m"
    using True r by (auto simp: handlePeerJoined_register_def Let_def split: if_splits)
  have eqs: "ms_Peers m' = gm_set ?id a (ms_Peers m)" "ms_next m' = ms_next m" "ms_heap m' = ms_heap m" "ms_cancelled m' = ms_cancelled m"
    "ms_stopped m' = ms_stopped m" "ms_events m' = ms_events m" "ms_calls m' = ms_calls m"
    by (simp_all add: m')
  note a = inv_created [OF inv refl]
  have "mesh_inv m' (Registered a) lv"
  proof (rule mesh_invI)
    show "gm_wf (ms_Peers m')" unfolding eqs using inv_wf [OF inv] by simp
    show "b < ms_next m' \<and> rp_PeerID (ms_heap m' b) = k \<and> \<not> rp_closed (ms_heap m' b)" if "gm_get (ms_Peers m') k = Some b" for k b
      using that inv_reg [OF inv, of k b] a unfolding eqs by (auto split: if_splits)
    show "gm_get (ms_Peers m') (rp_PeerID (ms_heap m' b)) = Some b \<or> Registered a = Created b \<or> b \<in> fst ` set lv"
      if "b < ms_next m'" "\<not> rp_closed (ms_heap m' b)" for b
      using that inv_open [OF inv, of b] fresh(1) unfolding eqs by auto
    show "b < ms_next m' \<and> gm_get (ms_Peers m') (rp_PeerID (ms_heap m' b)) \<noteq> Some b" if "b \<in> fst ` set lv" for b
      using inv_leaving [OF inv that] a that unfolding eqs by auto
    show "closed_ok m'" using inv_closed [OF inv] unfolding closed_ok_def eqs .
    show "ms_cancelled m' \<and> ms_Peers m' = gm_empty" if "ms_stopped m'" using that inv_stop [OF inv] fresh(2) unfolding eqs by simp
    show "joins k (ms_events m') + to_announce k (Registered a) m' = leaves k (ms_events m') + reported k lv + is_registered k m'"
      if "\<not> ms_stopped m'" for k
      using inv_count [OF inv, of k] that fresh(1) unfolding eqs to_announce_def is_registered_def by auto
  qed simp
  with True show ?thesis by simp
qed

lemma announce_inv: "mesh_inv m (Registered a) lv \<Longrightarrow> mesh_inv (handlePeerJoined_announce a m) (Announced a) lv"
  by (erule inv_move) (simp_all add: handlePeerJoined_announce_def emit_event_def to_announce_def)

lemma announced_inv: "mesh_inv m (Announced a) lv \<Longrightarrow> mesh_inv m Idle lv"
  by (erule inv_move) (simp_all add: to_announce_def)

lemma quiet_offer:
  assumes "handlePeerJoined_offer lib a m = (left, m')"
  shows "quiet m m'"
proof -
  have "quiet m (sendSDP lib k d pid (registerDataChannel a ch l m))" for k d pid ch l by (blast intro: quiet_register)
  then show ?thesis
    using assms quiet_register [of m a]
    by (auto simp: handlePeerJoined_offer_def Let_def split: if_splits option.splits)
qed

text \<open>The critical section of \<open>handlePeerLeft\<close>.\<close>

lemma take_inv:
  assumes inv: "mesh_inv m pc lv" and here: "gm_get (ms_Peers m) pid = Some a"
  shows "mesh_inv (remove_peer pid m) pc ((a, Some pid) # lv)"
proof -
  let ?m = "remove_peer pid m"
  have eqs: "ms_Peers ?m = gm_delete pid (ms_Peers m)" "ms_next ?m = ms_next m" "ms_heap ?m = ms_heap m" "ms_cancelled ?m = ms_cancelled m"
    "ms_stopped ?m = ms_stopped m" "ms_events ?m = ms_events m" "ms_calls ?m = ms_calls m"
    by (simp_all add: remove_peer_def)
  note a = inv_reg [OF inv here]
  have running: "\<not> ms_stopped m" using inv_stop [OF inv] here by auto
  have ids: "gm_get (ms_Peers m) k = Some a \<longleftrightarrow> k = pid" for k using inv_reg [OF inv, of k a] here a by auto
  show ?thesis
  proof (rule mesh_invI)
    show "gm_wf (ms_Peers ?m)" unfolding eqs using inv_wf [OF inv] by simp
    show "b < ms_next ?m \<and> rp_PeerID (ms_heap ?m b) = k \<and> \<not> rp_closed (ms_heap ?m b)" if "gm_get (ms_Peers ?m) k = Some b" for k b
      using that inv_reg [OF inv, of k b] unfolding eqs by (auto split: if_splits)
    show "gm_get (ms_Peers ?m) (rp_PeerID (ms_heap ?m b)) = Some b \<or> pc = Created b \<or> b \<in> fst ` set ((a, Some pid) # lv)"
      if "b < ms_next ?m" "\<not> rp_closed (ms_heap ?m b)" for b
      using that inv_open [OF inv, of b] here unfolding eqs by auto
    show "b < ms_next ?m \<and> \<not> rp_closed (ms_heap ?m b) \<and> gm_get (ms_Peers ?m) (rp_PeerID (ms_heap ?m b)) \<noteq> Some b \<and>
        b \<notin> fst ` set ((a, Some pid) # lv)" if "pc = Created b" for b
      using inv_created [OF inv that] ids a unfolding eqs by auto
    show "b < ms_next ?m \<and> gm_get (ms_Peers ?m) (rp_PeerID (ms_heap ?m b)) \<noteq> Some b" if "b \<in> fst ` set ((a, Some pid) # lv)" for b
      using inv_leaving [OF inv, of b] a that unfolding eqs by auto
    show "closed_ok ?m" using inv_closed [OF inv] unfolding closed_ok_def eqs .
    show "ms_cancelled ?m \<and> ms_Peers ?m = gm_empty" if "ms_stopped ?m" using that running unfolding eqs by simp
    show "joins k (ms_events ?m) + to_announce k pc ?m = leaves k (ms_events ?m) + reported k ((a, Some pid) # lv) + is_registered k ?m" for k
      using inv_count [OF inv running, of k] here unfolding eqs to_announce_def is_registered_def reported_def by auto
  qed
qed

lemma leaving_free:
  assumes inv: "mesh_inv m pc lv" and a: "a \<in> fst ` set lv"
  shows "gm_get (ms_Peers m) k \<noteq> Some a" "pc \<noteq> Created a"
  using inv_leaving [OF inv a] inv_reg [OF inv, of k a] inv_created [OF inv, of a] a by auto

text \<open>Closing a peer that was taken out, and reporting it.\<close>

lemma finish_inv:
  assumes inv: "mesh_inv m pc (xs @ (a, r) # ys)" and closed: "m' = close_remote a m"
  shows "mesh_inv (case r of None \<Rightarrow> m' | Some pid \<Rightarrow> emit_event (PeerLeave pid) m') pc (xs @ ys)"
proof -
  let ?m = "case r of None \<Rightarrow> m' | Some pid \<Rightarrow> emit_event (PeerLeave pid) m'"
  have inv1: "mesh_inv m' pc (xs @ (a, r) # ys)"
    unfolding closed by (rule close_inv [OF inv]) (use leaving_free [OF inv, of a] in auto)
  have eqs: "ms_Peers ?m = ms_Peers m'" "ms_next ?m = ms_next m'" "ms_heap ?m = ms_heap m'" "ms_cancelled ?m = ms_cancelled m'"
    "ms_stopped ?m = ms_stopped m'" "ms_calls ?m = ms_calls m'"
    by (simp_all add: emit_event_def split: option.split)
  have dead: "rp_closed (ms_heap m' a)" by (simp add: closed)
  show ?thesis
  proof (rule mesh_invI)
    show "gm_wf (ms_Peers ?m)" unfolding eqs by (rule inv_wf [OF inv1])
    show "b < ms_next ?m \<and> rp_PeerID (ms_heap ?m b) = k \<and> \<not> rp_closed (ms_heap ?m b)" if "gm_get (ms_Peers ?m) k = Some b" for k b
      using that inv_reg [OF inv1, of k b] unfolding eqs by simp
    show "gm_get (ms_Peers ?m) (rp_PeerID (ms_heap ?m b)) = Some b \<or> pc = Created b \<or> b \<in> fst ` set (xs @ ys)"
      if "b < ms_next ?m" "\<not> rp_closed (ms_heap ?m b)" for b
      using that inv_open [OF inv1, of b] dead unfolding eqs by auto
    show "b < ms_next ?m \<and> \<not> rp_closed (ms_heap ?m b) \<and> gm_get (ms_Peers ?m) (rp_PeerID (ms_heap ?m b)) \<noteq> Some b \<and> b \<notin> fst ` set (xs @ ys)"
      if "pc = Created b" for b
      using inv_created [OF inv1 that] unfolding eqs by auto
    show "b < ms_next ?m \<and> gm_get (ms_Peers ?m) (rp_PeerID (ms_heap ?m b)) \<noteq> Some b" if "b \<in> fst ` set (xs @ ys)" for b
      using inv_leaving [OF inv1, of b] that unfolding eqs by auto
    show "closed_ok ?m" using inv_closed [OF inv1] unfolding closed_ok_def eqs .
    show "ms_cancelled ?m \<and> ms_Peers ?m = gm_empty" if "ms_stopped ?m" using that inv_stop [OF inv1] unfolding eqs by simp
    show "joins k (ms_events ?m) + to_announce k pc ?m = leaves k (ms_events ?m) + reported k (xs @ ys) + is_registered k ?m"
      if "\<not> ms_stopped ?m" for k
      using inv_count [OF inv1, of k] that unfolding eqs to_announce_def is_registered_def reported_def
      by (cases r) (auto simp: emit_event_def)
  qed
qed

text \<open>The two parts of \<open>Stop\<close> that change the state under the lock.\<close>

lemma cancel_inv:
  assumes inv: "mesh_inv m pc lv"
  shows "mesh_inv (Stop_cancel m) pc lv"
proof -
  have eqs: "ms_Peers (Stop_cancel m) = ms_Peers m" "ms_next (Stop_cancel m) = ms_next m" "ms_heap (Stop_cancel m) = ms_heap m"
    "ms_stopped (Stop_cancel m) = ms_stopped m" "ms_events (Stop_cancel m) = ms_events m"
    "set (ms_calls (Stop_cancel m)) = insert SignalerClose (set (ms_calls m))"
    by (simp_all add: Stop_cancel_def log_calls_def)
  have "ms_cancelled (Stop_cancel m)" by (simp add: Stop_cancel_def log_calls_def)
  with inv show ?thesis unfolding mesh_inv_def closed_ok_def to_announce_def is_registered_def eqs by blast
qed

text \<open>The context of the program is cancelled.\<close>

lemma context_inv:
  assumes inv: "mesh_inv m pc lv"
  shows "mesh_inv (m\<lparr>ms_cancelled := True\<rparr>) pc lv"
proof -
  let ?m = "m\<lparr>ms_cancelled := True\<rparr>"
  have eqs: "ms_Peers ?m = ms_Peers m" "ms_next ?m = ms_next m" "ms_heap ?m = ms_heap m"
    "ms_stopped ?m = ms_stopped m" "ms_events ?m = ms_events m" "ms_calls ?m = ms_calls m" by simp_all
  have "ms_cancelled ?m" by simp
  with inv show ?thesis unfolding mesh_inv_def closed_ok_def to_announce_def is_registered_def eqs by blast
qed

lemma stop_inv:
  assumes inv: "mesh_inv m pc lv" and s: "Stop_take m = (peers, m')" and c: "ms_cancelled m"
  shows "mesh_inv m' pc (map (\<lambda>a. (a, None)) peers @ lv)"
proof -
  have peers: "peers = map snd (ms_Peers m)" and m': "m' = m\<lparr>ms_Peers := gm_empty, ms_stopped := True\<rparr>" using s by (simp_all add: Stop_take_def)
  have eqs: "ms_Peers m' = gm_empty" "ms_next m' = ms_next m" "ms_heap m' = ms_heap m" "ms_cancelled m' = ms_cancelled m" "ms_stopped m'"
    "ms_calls m' = ms_calls m" by (simp_all add: m')
  have mem: "a \<in> set peers \<longleftrightarrow> gm_get (ms_Peers m) (rp_PeerID (ms_heap m a)) = Some a" for a
  proof
    assume "a \<in> set peers"
    then obtain k where "(k, a) \<in> set (ms_Peers m)" by (auto simp: peers)
    then have "gm_get (ms_Peers m) k = Some a" by (rule gm_mem_get [OF inv_wf [OF inv]])
    with inv_reg [OF inv this] show "gm_get (ms_Peers m) (rp_PeerID (ms_heap m a)) = Some a" by simp
  next
    assume "gm_get (ms_Peers m) (rp_PeerID (ms_heap m a)) = Some a"
    then show "a \<in> set peers" using gm_get_mem by (force simp: peers)
  qed
  have fsts: "fst ` set (map (\<lambda>a. (a, None)) peers @ lv) = set peers \<union> fst ` set lv" by (simp add: image_Un image_image)
  show ?thesis
  proof (rule mesh_invI)
    show "gm_get (ms_Peers m') (rp_PeerID (ms_heap m' b)) = Some b \<or> pc = Created b \<or> b \<in> fst ` set (map (\<lambda>a. (a, None)) peers @ lv)"
      if "b < ms_next m'" "\<not> rp_closed (ms_heap m' b)" for b
      using that inv_open [OF inv, of b] mem [of b] unfolding eqs fsts by auto
    show "b < ms_next m' \<and> \<not> rp_closed (ms_heap m' b) \<and> gm_get (ms_Peers m') (rp_PeerID (ms_heap m' b)) \<noteq> Some b \<and>
        b \<notin> fst ` set (map (\<lambda>a. (a, None)) peers @ lv)" if "pc = Created b" for b
      using inv_created [OF inv that] mem [of b] unfolding eqs fsts by auto
    show "b < ms_next m' \<and> gm_get (ms_Peers m') (rp_PeerID (ms_heap m' b)) \<noteq> Some b"
      if "b \<in> fst ` set (map (\<lambda>a. (a, None)) peers @ lv)" for b
      using that inv_leaving [OF inv, of b] mem [of b] inv_reg [OF inv, of "rp_PeerID (ms_heap m b)" b] unfolding eqs fsts by auto
    show "closed_ok m'" using inv_closed [OF inv] unfolding closed_ok_def eqs .
  qed (simp_all add: eqs c)
qed

section \<open>Other quiet operations\<close>

lemma quiet_replaceTracks: "quiet m (replaceTracks ok track as m)"
proof (induction as arbitrary: m)
  case Nil
  show ?case by simp
next
  case (Cons a as)
  show ?case
    by (simp only: replaceTracks.simps, rule quiet_trans [OF _ Cons.IH]) (auto simp: Let_def split: option.split)
qed

lemma quiet_media:
  "quiet m (SetLocalAudioTrack t m)" "quiet m (snd (SetMuteAudio_begin b m))" "quiet m (BroadcastFrame chans frame m)"
proof -
  show "quiet m (SetLocalAudioTrack t m)" by (simp add: quiet_def SetLocalAudioTrack_def)
  show "quiet m (snd (SetMuteAudio_begin b m))" by (simp add: SetMuteAudio_begin_def quiet_def Let_def)
  have "quiet m (m\<lparr>ms_frameSeq := n\<rparr>)" for n by (simp add: quiet_def)
  moreover have "opens_none (concat (map (sendFrame chans tagged m \<circ> snd) ps))" for tagged and ps :: "(string \<times> nat) list"
    by (auto simp: opens_none_def sendFrame_def split: option.splits if_splits)
  ultimately show "quiet m (BroadcastFrame chans frame m)" by (auto simp: BroadcastFrame_def split: prod.splits option.splits)
qed

text \<open>Every message that a broadcast hands to a data channel fits the size the channel was set up for,
  and the peer at the other end parses it back to the frame.\<close>

lemma api_message_size: "uint (api_maxMessageSize (webrtc_settings options)) = MaxEncodedFrameBytes + 21"
  by (simp add: webrtc_settings_def MaxEncodedFrameBytes_def)

lemma broadcast_fits:
  assumes "SendText channel t \<in> set (drop (length (ms_calls m)) (ms_calls (BroadcastFrame chans frame m)))"
  shows "int (length t) \<le> uint (api_maxMessageSize (webrtc_settings options)) \<and> t = tagFrame (ms_frameSeq m + 1) frame"
  using assms tagFrame_length [of frame "ms_frameSeq m + 1"]
  by (auto simp: BroadcastFrame_def nextFrame_def sendFrame_def log_calls_def api_message_size frame_ok_def
      split: if_splits option.splits)

lemma updateStat_same:
  "rp_PeerID (updateStat e p st) = rp_PeerID p \<and> rp_closed (updateStat e p st) = rp_closed p \<and> rp_PC (updateStat e p st) = rp_PC p"
  by (auto simp: updateStat_def Let_def split: rtc_stat.splits)

lemma foldl_updateStat_same:
  "rp_PeerID (foldl (updateStat e) p sts) = rp_PeerID p \<and> rp_closed (foldl (updateStat e) p sts) = rp_closed p \<and>
   rp_PC (foldl (updateStat e) p sts) = rp_PC p"
  by (induction sts arbitrary: p) (auto simp: updateStat_same)


lemma quiet_stats: "quiet m (set_remote a (UpdateStats st st2 stats i (ms_heap m a)) m)"
  by (rule quiet_set_remote) (simp add: UpdateStats_def foldl_updateStat_same)

lemma quiet_play_end: "quiet m (playTrackEnd a pl m)"
  unfolding playTrackEnd_def by (intro quiet_intros(1) quiet_set_remote) (simp_all add: ClearPlayer_def)

section \<open>The step relation\<close>

definition world_do :: "(MeshManager \<Rightarrow> MeshManager) \<Rightarrow> mesh_world \<Rightarrow> mesh_world" where
  "world_do f w = w\<lparr>mw_mesh := f (mw_mesh w)\<rparr>"

inductive mesh_step :: "unicode_tables \<Rightarrow> mesh_world \<Rightarrow> mesh_world \<Rightarrow> bool" for U :: unicode_tables where
  step_create: "mw_pc w = Idle \<Longrightarrow> handlePeerJoined_create U lib msg (mw_mesh w) = (r, m) \<Longrightarrow>
     mesh_step U w (w\<lparr>mw_mesh := m, mw_pc := (case r of None \<Rightarrow> Idle | Some a \<Rightarrow> Created a)\<rparr>)"
| step_register: "mw_pc w = Created a \<Longrightarrow> handlePeerJoined_register a (mw_mesh w) = (ok, m) \<Longrightarrow>
     mesh_step U w (w\<lparr>mw_mesh := m, mw_pc := (if ok then Registered a else Idle)\<rparr>)"
| step_announce: "mw_pc w = Registered a \<Longrightarrow>
     mesh_step U w (w\<lparr>mw_mesh := handlePeerJoined_announce a (mw_mesh w), mw_pc := Announced a\<rparr>)"
| step_offer: "mw_pc w = Announced a \<Longrightarrow> handlePeerJoined_offer lib a (mw_mesh w) = (left, m) \<Longrightarrow>
     mesh_step U w (w\<lparr>mw_mesh := m, mw_pc := Idle\<rparr>)"
| step_take: "gm_get (ms_Peers (mw_mesh w)) pid = Some a \<Longrightarrow>
     mesh_step U w (w\<lparr>mw_mesh := remove_peer pid (mw_mesh w), mw_leaving := (a, Some pid) # mw_leaving w\<rparr>)"
| step_finish: "mw_leaving w = xs @ (a, r) # ys \<Longrightarrow>
     mesh_step U w (w\<lparr>mw_mesh := (case r of None \<Rightarrow> close_remote a (mw_mesh w) | Some pid \<Rightarrow> handlePeerLeft_finish pid a (mw_mesh w)),
       mw_leaving := xs @ ys\<rparr>)"
| step_context: "mesh_step U w (world_do (\<lambda>m. m\<lparr>ms_cancelled := True\<rparr>) w)"
| step_cancel: "mesh_step U w (world_do Stop_cancel w)"
| step_stop: "ms_cancelled (mw_mesh w) \<Longrightarrow> \<not> ms_stopped (mw_mesh w) \<Longrightarrow> Stop_take (mw_mesh w) = (peers, m) \<Longrightarrow>
     mesh_step U w (w\<lparr>mw_mesh := m, mw_leaving := map (\<lambda>a. (a, None)) peers @ mw_leaving w\<rparr>)"
| step_offered: "mw_pc w = Idle \<Longrightarrow> handleOffer_begin lib msg (mw_mesh w) = (r, m) \<Longrightarrow>
     mesh_step U w (w\<lparr>mw_mesh := m, mw_pc := (case r of None \<Rightarrow> Idle | Some x \<Rightarrow> Describing True (m_PeerID msg) x)\<rparr>)"
| step_answered: "mw_pc w = Idle \<Longrightarrow> handleAnswer_begin lib msg (mw_mesh w) = (r, m) \<Longrightarrow>
     mesh_step U w (w\<lparr>mw_mesh := m, mw_pc := (case r of None \<Rightarrow> Idle | Some x \<Rightarrow> Describing False (m_PeerID msg) x)\<rparr>)"
| step_described: "mw_pc w = Describing offer pid x \<Longrightarrow>
     mesh_step U w (w\<lparr>mw_mesh := (if offer then handleOffer_finish lib pid x (mw_mesh w) else handleAnswer_finish lib pid x (mw_mesh w)),
       mw_pc := Idle\<rparr>)"
| step_candidate: "mesh_step U w (world_do (handleICECandidate lib msg) w)"
| step_error: "mesh_step U w (world_do (handleError msg) w)"
| step_notify: "mesh_step U w (world_do (notifyError e) w)"
| step_channel: "mesh_step U w (world_do (registerDataChannel a ch l) w)"
| step_frame: "mesh_step U w (world_do (onChannelMessage a str allowed raw) w)"
| step_track: "mesh_step U w (world_do (onTrack pid pl) w)"
| step_track_end: "mesh_step U w (world_do (playTrackEnd a pl') w)"
| step_local_candidate: "mesh_step U w (world_do (onICECandidate lib pid c) w)"
| step_audio: "mesh_step U w (world_do (SetLocalAudioTrack t) w)"
| step_mute: "SetMuteAudio_begin b (mw_mesh w) = (x, m) \<Longrightarrow>
     mesh_step U w (w\<lparr>mw_mesh := m, mw_muting := x # mw_muting w\<rparr>)"
| step_replace: "mw_muting w = xs @ (track, a # as) # ys \<Longrightarrow>
     mesh_step U w (w\<lparr>mw_mesh := replaceTracks rok track [a] (mw_mesh w), mw_muting := xs @ (track, as) # ys\<rparr>)"
| step_replaced: "mw_muting w = xs @ (track, []) # ys \<Longrightarrow> mesh_step U w (w\<lparr>mw_muting := xs @ ys\<rparr>)"
| step_broadcast: "mesh_step U w (world_do (BroadcastFrame chans frame) w)"
| step_stats: "mesh_step U w (world_do (\<lambda>m. set_remote a (UpdateStats st st2 stats i (ms_heap m a)) m) w)"

definition world_inv :: "mesh_world \<Rightarrow> bool" where
  "world_inv w \<longleftrightarrow> mesh_inv (mw_mesh w) (mw_pc w) (mw_leaving w)"

definition mesh_start :: "unicode_tables \<Rightarrow> JoinAcceptedPayload \<Rightarrow> mesh_world \<Rightarrow> bool" where
  "mesh_start U admission w \<longleftrightarrow>
     (\<exists>silent options m. NewMeshManagerWithOptions U True True (Some silent) admission options = Inr m \<and>
        w = \<lparr>mw_mesh = m, mw_pc = Idle, mw_leaving = [], mw_muting = []\<rparr>)"

lemma world_do_inv: "world_inv w \<Longrightarrow> quiet (mw_mesh w) (f (mw_mesh w)) \<Longrightarrow> world_inv (world_do f w)"
  by (simp add: world_inv_def world_do_def quiet_inv)

lemma describing_inv: "mesh_inv m (Describing offer pid x) lv \<longleftrightarrow> mesh_inv m Idle lv"
  by (simp add: mesh_inv_def to_announce_def)

lemma mesh_start_inv: "mesh_start U admission w \<Longrightarrow> world_inv w"
  by (auto simp: mesh_start_def world_inv_def NewMeshManagerWithOptions_def mesh_inv_def closed_ok_def to_announce_def reported_def
      is_registered_def split: option.splits if_splits)

lemma mesh_step_inv: "mesh_step U w w' \<Longrightarrow> world_inv w \<Longrightarrow> world_inv w'"
proof (induction rule: mesh_step.induct)
  case (step_create w lib msg r m)
  then show ?case using create_inv by (auto simp: world_inv_def)
next
  case (step_register w a ok m)
  then show ?case using register_inv [of "mw_mesh w" a "mw_leaving w" ok m] by (simp add: world_inv_def)
next
  case (step_announce w a)
  then show ?case by (simp add: world_inv_def announce_inv)
next
  case (step_offer w a lib left m)
  then show ?case using quiet_inv [OF quiet_offer, of lib a "mw_mesh w" left m] by (simp add: world_inv_def announced_inv)
next
  case (step_take w pid a)
  then show ?case by (simp add: world_inv_def take_inv)
next
  case (step_finish w xs a r ys)
  then show ?case
    using finish_inv [of "mw_mesh w" "mw_pc w" xs a r ys, OF _ refl]
    by (cases r) (simp_all add: world_inv_def handlePeerLeft_finish_def)
next
  case (step_context w)
  then show ?case by (simp add: world_inv_def world_do_def context_inv)
next
  case (step_cancel w)
  then show ?case by (simp add: world_inv_def world_do_def cancel_inv)
next
  case (step_stop w peers m)
  then show ?case using stop_inv [of "mw_mesh w" "mw_pc w" "mw_leaving w" peers m] by (simp add: world_inv_def)
next
  case (step_offered w lib msg r m)
  then have "mesh_inv m Idle (mw_leaving w)"
    using quiet_inv [OF quiet_begin] by (simp add: world_inv_def handleOffer_begin_def)
  then show ?case by (cases r) (simp_all add: world_inv_def describing_inv)
next
  case (step_answered w lib msg r m)
  then have "mesh_inv m Idle (mw_leaving w)"
    using quiet_inv [OF quiet_begin] by (simp add: world_inv_def handleAnswer_begin_def)
  then show ?case by (cases r) (simp_all add: world_inv_def describing_inv)
next
  case (step_described w offer pid x lib)
  then have "mesh_inv (mw_mesh w) Idle (mw_leaving w)" by (simp add: world_inv_def describing_inv)
  then show ?case using quiet_inv [OF quiet_handlers(3)] quiet_inv [OF quiet_handlers(4)] by (simp add: world_inv_def)
next
  case (step_mute b w x m)
  then show ?case using quiet_inv [OF quiet_media(2), of "mw_mesh w" "mw_pc w" "mw_leaving w" b] by (simp add: world_inv_def)
next
  case (step_replace w xs track a as ys rok)
  then show ?case using quiet_inv [OF quiet_replaceTracks, of "mw_mesh w"] by (simp add: world_inv_def del: replaceTracks.simps)
next
  case (step_replaced w xs track ys)
  then show ?case by (simp add: world_inv_def)
qed (rule world_do_inv, assumption, rule quiet_handlers quiet_callbacks quiet_notify quiet_register quiet_media quiet_stats quiet_play_end)+

interpretation mesh_run: transition_invariant "mesh_start U admission" "mesh_step U" world_inv for U admission
  by unfold_locales (blast intro: mesh_start_inv mesh_step_inv)+

text \<open>A call of \<open>Stop\<close> is a run of steps of the goroutine that makes it.\<close>

lemma close_all_steps:
  "(mesh_step U)\<^sup>*\<^sup>* (w\<lparr>mw_mesh := m, mw_leaving := map (\<lambda>a. (a, None)) peers @ lv\<rparr>) (w\<lparr>mw_mesh := close_all peers m, mw_leaving := lv\<rparr>)"
proof (induction peers arbitrary: m)
  case (Cons a peers)
  let ?w = "w\<lparr>mw_mesh := m, mw_leaving := map (\<lambda>a. (a, None)) (a # peers) @ lv\<rparr>"
  have "mesh_step U ?w (w\<lparr>mw_mesh := close_remote a m, mw_leaving := map (\<lambda>a. (a, None)) peers @ lv\<rparr>)"
    using step_finish [of ?w "[]" a None "map (\<lambda>a. (a, None)) peers @ lv" U] by simp
  with Cons.IH show ?case by (metis close_all.simps(2) converse_rtranclp_into_rtranclp)
qed simp

lemma Stop_steps:
  assumes "\<not> ms_stopped (mw_mesh w)"
  shows "(mesh_step U)\<^sup>*\<^sup>* w (w\<lparr>mw_mesh := Stop (mw_mesh w)\<rparr>)"
proof -
  let ?m = "Stop_cancel (mw_mesh w)"
  obtain peers m1 where t: "Stop_take ?m = (peers, m1)" by (cases "Stop_take ?m")
  have flags: "ms_cancelled (mw_mesh (world_do Stop_cancel w))" "\<not> ms_stopped (mw_mesh (world_do Stop_cancel w))"
    using assms by (simp_all add: world_do_def Stop_cancel_def log_calls_def)
  have "mesh_step U (world_do Stop_cancel w) (w\<lparr>mw_mesh := m1, mw_leaving := map (\<lambda>a. (a, None)) peers @ mw_leaving w\<rparr>)"
    using step_stop [OF flags, of peers m1 U] t by (simp add: world_do_def)
  moreover have "w\<lparr>mw_mesh := Stop (mw_mesh w)\<rparr> = w\<lparr>mw_mesh := close_all peers m1, mw_leaving := mw_leaving w\<rparr>"
    using assms t by (cases w) (simp add: Stop_def)
  ultimately show ?thesis
    using step_cancel [of U w] close_all_steps [where U = U and w = w and m = m1 and peers = peers and lv = "mw_leaving w"]
    by (metis (no_types, lifting) converse_rtranclp_into_rtranclp)
qed

text \<open>A call of \<open>SetMuteAudio\<close>, too.\<close>

lemma replaceTracks_steps:
  "(mesh_step U)\<^sup>*\<^sup>* (w\<lparr>mw_mesh := m, mw_muting := (track, as) # mt\<rparr>) (w\<lparr>mw_mesh := replaceTracks rok track as m, mw_muting := mt\<rparr>)"
proof (induction as arbitrary: m)
  case Nil
  show ?case using step_replaced [of "w\<lparr>mw_mesh := m, mw_muting := (track, []) # mt\<rparr>" "[]" track mt U] by (simp add: r_into_rtranclp)
next
  case (Cons a as)
  have one: "replaceTracks rok track (a # as) m = replaceTracks rok track as (replaceTracks rok track [a] m)" by simp
  have "mesh_step U (w\<lparr>mw_mesh := m, mw_muting := (track, a # as) # mt\<rparr>)
      (w\<lparr>mw_mesh := replaceTracks rok track [a] m, mw_muting := (track, as) # mt\<rparr>)"
    using step_replace [of "w\<lparr>mw_mesh := m, mw_muting := (track, a # as) # mt\<rparr>" "[]" track a as mt U rok]
    by (simp del: replaceTracks.simps)
  then show ?case unfolding one using Cons.IH by (rule converse_rtranclp_into_rtranclp)
qed

lemma SetMuteAudio_steps: "(mesh_step U)\<^sup>*\<^sup>* w (world_do (SetMuteAudio rok b) w)"
proof -
  obtain track peers m1 where x: "SetMuteAudio_begin b (mw_mesh w) = ((track, peers), m1)" by (metis surj_pair)
  from step_mute [OF x, of U] have "mesh_step U w (w\<lparr>mw_mesh := m1, mw_muting := (track, peers) # mw_muting w\<rparr>)" .
  moreover have "w\<lparr>mw_mesh := replaceTracks rok track peers m1, mw_muting := mw_muting w\<rparr> = world_do (SetMuteAudio rok b) w"
    using x by (cases w) (simp add: world_do_def SetMuteAudio_def)
  ultimately show ?thesis using replaceTracks_steps [where U = U and w = w and m = m1 and track = track and as = peers and mt = "mw_muting w" and rok = rok] by (metis converse_rtranclp_into_rtranclp)
qed

section \<open>Properties of every interleaving\<close>

text \<open>C6: However the signaling goroutine, the callbacks and \<open>Stop\<close> interleave, no peer connection
  leaks: every connection that the library ever made, whatever failed afterwards, has been closed or
  belongs to a peer that is registered, about to be registered or about to be closed; once
  \<open>Stop\<close> has run and nothing is under way, no peer is registered and every connection that was
  ever made has been closed.\<close>

theorem no_connection_leaks:
  assumes "mesh_start U admission w0" and "(mesh_step U)\<^sup>*\<^sup>* w0 w" and "NewConnection con \<in> set (ms_calls (mw_mesh w))"
  shows "(ConnectionClose con \<in> set (ms_calls (mw_mesh w)) \<or>
      (\<exists>a. rp_PC (ms_heap (mw_mesh w) a) = Some con \<and>
        (gm_get (ms_Peers (mw_mesh w)) (rp_PeerID (ms_heap (mw_mesh w) a)) = Some a \<or> mw_pc w = Created a \<or> a \<in> fst ` set (mw_leaving w)))) \<and>
    (ms_stopped (mw_mesh w) \<and> mw_pc w = Idle \<and> mw_leaving w = [] \<longrightarrow>
      ms_Peers (mw_mesh w) = gm_empty \<and> ConnectionClose con \<in> set (ms_calls (mw_mesh w)))"
proof -
  have inv: "mesh_inv (mw_mesh w) (mw_pc w) (mw_leaving w)"
    using mesh_run.reach_inv [OF assms(1,2)] by (simp add: world_inv_def)
  show ?thesis using inv_connection [OF inv assms(3)] inv_stop [OF inv] by auto
qed

text \<open>C17: The callbacks to the user interface add up in every interleaving: until \<open>Stop\<close>, whenever
  nothing is under way, the number of times a peer was reported as joined is the number of times it
  was reported as gone, plus one exactly when it is registered.\<close>

theorem events_add_up:
  assumes "mesh_start U admission w0" and "(mesh_step U)\<^sup>*\<^sup>* w0 w"
    and "\<not> ms_stopped (mw_mesh w)" and "mw_pc w = Idle" and "mw_leaving w = []"
  shows "joins k (ms_events (mw_mesh w)) =
    leaves k (ms_events (mw_mesh w)) + (if mesh_peer k (mw_mesh w) = None then 0 else 1)"
proof -
  have "mesh_inv (mw_mesh w) (mw_pc w) (mw_leaving w)"
    using mesh_run.reach_inv [OF assms(1,2)] by (simp add: world_inv_def)
  from inv_count [OF this assms(3), of k] assms(4,5) show ?thesis
    by (simp add: to_announce_def reported_def is_registered_def mesh_peer_def)
qed

section \<open>Who offers\<close>





lemma calls_simps [simp]:
  "ms_calls (notifyError e m) = ms_calls m" "ms_calls (log_calls cs m) = ms_calls m @ cs" "ms_calls (set_remote a p m) = ms_calls m"
  by (simp_all add: notifyError_def emit_event_def log_calls_def set_remote_def)




section \<open>Concrete runs\<close>

definition mesh_id :: string where
  "mesh_id = ''123e4567-e89b-42d3-a456-426614174000''"

definition meshrun_message :: SignalingMessage where
  "meshrun_message = (NewMessage MsgPeerJoined)\<lparr>m_PeerID := mesh_id, m_Username := ''ann''\<rparr>"

definition meshrun_lib :: rtc_lib where
  "meshrun_lib = \<lparr>lib_connection = Some 7, lib_sender = Some 8, lib_channel = Some 9, lib_offer = Some ''v=0'', lib_answer = None,
     lib_local = True, lib_remote = True, lib_candidate = (\<lambda>_. True), lib_send = True\<rparr>"

definition meshrun_admission :: JoinAcceptedPayload where
  "meshrun_admission = \<lparr>ja_RoomID = ''ABCDEF'', ja_PeerID = ''023e4567-e89b-42d3-a456-426614174000'', ja_Peers = [], ja_ICEServers = []\<rparr>"

definition meshrun_mesh :: MeshManager where
  "meshrun_mesh = \<lparr>ms_frameSeq = 0, ms_LocalPeerID = ''023e4567-e89b-42d3-a456-426614174000'', ms_Peers = gm_empty,
     ms_heap = (\<lambda>_. new_peer [] [] 0 None), ms_next = 0,
     ms_webrtcAPI = webrtc_settings \<lparr>mo_AllowPrivateCandidates = False\<rparr>, ms_iceServers = [], ms_initialPeers = [],
     ms_localAudioTrack = None, ms_silentAudioTrack = 5, ms_isMuted = True,
     ms_cancelled = False, ms_started = False, ms_stopped = False, ms_events = [], ms_calls = []\<rparr>"

definition meshrun_world :: mesh_world where
  "meshrun_world = \<lparr>mw_mesh = meshrun_mesh, mw_pc = Idle, mw_leaving = [], mw_muting = []\<rparr>"

definition meshrun_created :: mesh_world where
  "meshrun_created = \<lparr>mw_mesh = snd (handlePeerJoined_create no_tables meshrun_lib meshrun_message meshrun_mesh),
     mw_pc = Created 0, mw_leaving = [], mw_muting = []\<rparr>"

lemma meshrun_start_ok: "mesh_start no_tables meshrun_admission meshrun_world"
proof -
  have "ValidatePeerID no_tables (ja_PeerID meshrun_admission) = None" by code_simp
  then have "NewMeshManagerWithOptions no_tables True True (Some 5) meshrun_admission \<lparr>mo_AllowPrivateCandidates = False\<rparr> = Inr meshrun_mesh"
    by (simp add: NewMeshManagerWithOptions_def meshrun_admission_def meshrun_mesh_def)
  then show ?thesis by (auto simp: mesh_start_def meshrun_world_def)
qed

lemma meshrun_created_eq:
  "handlePeerJoined_create no_tables meshrun_lib meshrun_message meshrun_mesh =
     (Some 0, meshrun_mesh\<lparr>ms_heap := (ms_heap meshrun_mesh)(0 := new_peer mesh_id ''ann'' 7 (Some 8)), ms_next := 1, ms_calls := [NewConnection 7, AddTrack 7 5]\<rparr>)"
proof -
  have "ValidatePeerID no_tables (m_PeerID meshrun_message) = None" "NormalizeUsername no_tables (m_Username meshrun_message) = Inr ''ann''"
    by code_simp+
  moreover have "m_PeerID meshrun_message = mesh_id" by (simp add: meshrun_message_def)
  ultimately show ?thesis
    by (simp add: handlePeerJoined_create_def createPeerConnection_def meshrun_mesh_def meshrun_lib_def mesh_peer_def log_calls_def
        set_remote_def outgoingTrack_def)
qed

lemma meshrun_step1: "mesh_step no_tables meshrun_world meshrun_created"
  using step_create [of meshrun_world no_tables meshrun_lib meshrun_message "Some 0" "mw_mesh meshrun_created"] meshrun_created_eq
  by (simp add: meshrun_world_def meshrun_created_def)

text \<open>The context is cancelled while the connection is being made: registration closes it.\<close>

definition meshrun_stopped :: mesh_world where
  "meshrun_stopped = \<lparr>mw_mesh = snd (Stop_take (close_remote 0 (Stop_cancel (mw_mesh meshrun_created)))), mw_pc = Idle, mw_leaving = [], mw_muting = []\<rparr>"

lemma meshrun_run_stopped: "(mesh_step no_tables)\<^sup>*\<^sup>* meshrun_world meshrun_stopped"
proof -
  let ?w2 = "world_do Stop_cancel meshrun_created"
  let ?w3 = "?w2\<lparr>mw_mesh := close_remote 0 (mw_mesh ?w2), mw_pc := Idle\<rparr>"
  have m: "mw_mesh meshrun_created = meshrun_mesh\<lparr>ms_heap := (ms_heap meshrun_mesh)(0 := new_peer mesh_id ''ann'' 7 (Some 8)), ms_next := 1, ms_calls := [NewConnection 7, AddTrack 7 5]\<rparr>"
    by (simp add: meshrun_created_def meshrun_created_eq)
  have pc: "mw_pc ?w2 = Created 0" by (simp add: world_do_def meshrun_created_def)
  have "handlePeerJoined_register 0 (mw_mesh ?w2) = (False, close_remote 0 (mw_mesh ?w2))"
    by (simp add: handlePeerJoined_register_def world_do_def Stop_cancel_def log_calls_def)
  from step_register [OF pc this, of no_tables] have s3: "mesh_step no_tables ?w2 ?w3" by simp
  have stop: "Stop_take (mw_mesh ?w3) = ([], mw_mesh meshrun_stopped)"
    by (simp add: Stop_take_def meshrun_stopped_def world_do_def) (simp add: m Stop_cancel_def log_calls_def meshrun_mesh_def gm_empty_def)
  have flags: "ms_cancelled (mw_mesh ?w3)" "\<not> ms_stopped (mw_mesh ?w3)"
    using m by (simp_all add: world_do_def Stop_cancel_def log_calls_def meshrun_mesh_def)
  have "?w3\<lparr>mw_mesh := mw_mesh meshrun_stopped, mw_leaving := map (\<lambda>a. (a, None)) [] @ mw_leaving ?w3\<rparr> = meshrun_stopped"
    by (simp add: world_do_def meshrun_stopped_def meshrun_created_def)
  with step_stop [OF flags stop, of no_tables] have "mesh_step no_tables ?w3 meshrun_stopped" by simp
  with s3 step_cancel [of no_tables meshrun_created] meshrun_step1 show ?thesis
    by (meson r_into_rtranclp rtranclp.rtrancl_into_rtrancl)
qed

theorem no_connection_leaks_witness: "ConnectionClose 7 \<in> set (ms_calls (mw_mesh meshrun_stopped))"
proof -
  have n: "NewConnection 7 \<in> set (ms_calls (mw_mesh meshrun_stopped))" "ms_stopped (mw_mesh meshrun_stopped)" by code_simp+
  show ?thesis
    using no_connection_leaks [OF meshrun_start_ok meshrun_run_stopped n(1)] n(2) by (simp add: meshrun_stopped_def)
qed

text \<open>The peer is registered, announced and sent an offer.\<close>

definition meshrun_joined :: mesh_world where
  "meshrun_joined = \<lparr>mw_mesh = handlePeerJoined_commit meshrun_lib 0 (mw_mesh meshrun_created), mw_pc = Idle, mw_leaving = [], mw_muting = []\<rparr>"

lemma commit_steps:
  assumes pc: "mw_pc w = Created a" and reg: "handlePeerJoined_register a (mw_mesh w) = (True, m1)"
    and offer: "handlePeerJoined_offer lib a (handlePeerJoined_announce a m1) = (False, m2)"
  shows "handlePeerJoined_commit lib a (mw_mesh w) = m2 \<and> (mesh_step U)\<^sup>*\<^sup>* w (w\<lparr>mw_mesh := m2, mw_pc := Idle\<rparr>)"
proof -
  let ?w1 = "w\<lparr>mw_mesh := m1, mw_pc := Registered a\<rparr>"
  let ?w2 = "w\<lparr>mw_mesh := handlePeerJoined_announce a m1, mw_pc := Announced a\<rparr>"
  have "mesh_step U w ?w1" using step_register [OF pc reg, of U] by simp
  moreover have "mesh_step U ?w1 ?w2" using step_announce [of ?w1 a U] by simp
  moreover have "mesh_step U ?w2 (w\<lparr>mw_mesh := m2, mw_pc := Idle\<rparr>)" using step_offer [of ?w2 a lib False m2 U] offer by simp
  ultimately have "(mesh_step U)\<^sup>*\<^sup>* w (w\<lparr>mw_mesh := m2, mw_pc := Idle\<rparr>)" by (meson r_into_rtranclp rtranclp.rtrancl_into_rtrancl)
  with reg offer show ?thesis by (simp add: handlePeerJoined_commit_def)
qed

lemma meshrun_run_joined: "(mesh_step no_tables)\<^sup>*\<^sup>* meshrun_world meshrun_joined"
proof -
  let ?m = "mw_mesh meshrun_created"
  let ?m1 = "?m\<lparr>ms_Peers := gm_set mesh_id 0 (ms_Peers ?m)\<rparr>"
  have m: "?m = meshrun_mesh\<lparr>ms_heap := (ms_heap meshrun_mesh)(0 := new_peer mesh_id ''ann'' 7 (Some 8)), ms_next := 1, ms_calls := [NewConnection 7, AddTrack 7 5]\<rparr>"
    by (simp add: meshrun_created_def meshrun_created_eq)
  have pc: "mw_pc meshrun_created = Created 0" by (simp add: meshrun_created_def)
  have reg: "handlePeerJoined_register 0 ?m = (True, ?m1)"
    by (simp add: m handlePeerJoined_register_def meshrun_mesh_def new_peer_def)
  obtain l m2 where offer: "handlePeerJoined_offer meshrun_lib 0 (handlePeerJoined_announce 0 ?m1) = (l, m2)" by fastforce
  then have "l = False" by (auto simp: handlePeerJoined_offer_def meshrun_lib_def Let_def split: if_splits)
  with offer have "handlePeerJoined_offer meshrun_lib 0 (handlePeerJoined_announce 0 ?m1) = (False, m2)" by simp
  from commit_steps [OF pc reg this, of no_tables] have "(mesh_step no_tables)\<^sup>*\<^sup>* meshrun_created meshrun_joined"
    by (simp add: meshrun_joined_def) (simp add: meshrun_created_def)
  then show ?thesis by (rule converse_rtranclp_into_rtranclp [of "mesh_step no_tables", OF meshrun_step1])
qed

theorem events_add_up_witness:
  "joins mesh_id (ms_events (mw_mesh meshrun_joined)) = leaves mesh_id (ms_events (mw_mesh meshrun_joined)) + 1"
proof -
  have "ms_stopped (mw_mesh meshrun_joined) = False" "mesh_peer mesh_id (mw_mesh meshrun_joined) = Some 0"
    by code_simp+
  then show ?thesis
    using events_add_up [OF meshrun_start_ok meshrun_run_joined, of mesh_id] by (simp add: meshrun_joined_def)
qed


section \<open>Muting\<close>

text \<open>The track that a peer's sender carries: the last one it was given.\<close>

fun carried :: "RemotePeer \<Rightarrow> rtc_call list \<Rightarrow> nat option \<Rightarrow> nat option" where
  "carried p [] t = t"
| "carried p (AddTrack con t' # cs) t = carried p cs (if rp_PC p = Some con then Some t' else t)"
| "carried p (ReplaceTrack sender t' # cs) t = carried p cs (if rp_AudioSender p = Some sender then Some t' else t)"
| "carried p (_ # cs) t = carried p cs t"

lemma carried_append: "carried p (cs @ ds) t = carried p ds (carried p cs t)"
  by (induction p cs t rule: carried.induct) simp_all

text \<open>A connection whose sender is given the track at creation.\<close>

lemma replaceTracks_heap [simp]: "ms_heap (replaceTracks ok track as m) = ms_heap m"
  by (induction as arbitrary: m) (simp_all add: Let_def log_calls_def notifyError_def emit_event_def split: option.split)

lemma replaceTracks_calls:
  "ms_calls (replaceTracks ok track as m) =
     ms_calls m @ concat (map (\<lambda>a. case rp_AudioSender (ms_heap m a) of None \<Rightarrow> [] | Some s \<Rightarrow> [ReplaceTrack s track]) as)"
proof (induction as arbitrary: m)
  case (Cons a as)
  have heaps: "ms_heap (log_calls cs m) = ms_heap m" "ms_heap (notifyError e m) = ms_heap m" for cs e m
    by (simp_all add: log_calls_def notifyError_def emit_event_def)
  show ?case
    by (cases "rp_AudioSender (ms_heap m a)") (simp_all add: Cons.IH Let_def heaps)
qed simp

lemma carried_replaced:
  "rp_AudioSender p = Some s \<Longrightarrow> list_all (\<lambda>c. \<exists>s'. c = ReplaceTrack s' t) cs \<Longrightarrow> ReplaceTrack s t \<in> set cs \<or> u = Some t \<Longrightarrow>
   carried p cs u = Some t"
  by (induction p cs u rule: carried.induct) (auto split: if_splits)

lemma replaceTracks_events: "set (ms_events m) \<subseteq> set (ms_events (replaceTracks ok track as m))"
  using quiet_replaceTracks [of m ok track as] by (auto simp: quiet_def)

lemma replaceTracks_reports:
  "a \<in> set as \<Longrightarrow> rp_AudioSender (ms_heap m a) = Some s \<Longrightarrow> \<not> ok s \<Longrightarrow>
   MeshError (AudioTrackFailure (rp_PeerID (ms_heap m a))) \<in> set (ms_events (replaceTracks ok track as m))"
proof (induction as arbitrary: m)
  case (Cons b bs)
  let ?m = "case rp_AudioSender (ms_heap m b) of None \<Rightarrow> m | Some sender \<Rightarrow> let m1 = log_calls [ReplaceTrack sender track] m
            in if ok sender then m1 else notifyError (AudioTrackFailure (rp_PeerID (ms_heap m b))) m1"
  have m: "ms_heap ?m = ms_heap m"
    by (simp add: Let_def log_calls_def notifyError_def emit_event_def split: option.split)
  have step: "replaceTracks ok track (b # bs) m = replaceTracks ok track bs ?m" by simp
  show ?case
  proof (cases "a = b")
    case True
    then have "MeshError (AudioTrackFailure (rp_PeerID (ms_heap m a))) \<in> set (ms_events ?m)"
      using Cons.prems by (simp add: Let_def notifyError_def emit_event_def)
    then show ?thesis unfolding step using replaceTracks_events [of ?m ok track bs] by blast
  next
    case False
    then show ?thesis unfolding step using Cons.IH [of ?m] Cons.prems m by simp
  qed
qed simp

text \<open>C21: Muting reaches every registered participant: by a mute or unmute, the audio sender of
  every registered peer is last given the silent track when muted, and the microphone's
  track, if there is one, when not; where the library refuses the track, the failure is
  reported.\<close>

theorem mute_reaches_registered:
  assumes "mesh_peer k m = Some a" and "rp_AudioSender (ms_heap m a) = Some s"
  shows "carried (ms_heap (SetMuteAudio ok muted m) a) (ms_calls (SetMuteAudio ok muted m)) None =
      Some (if muted then ms_silentAudioTrack m else (case ms_localAudioTrack m of None \<Rightarrow> ms_silentAudioTrack m | Some t \<Rightarrow> t)) \<and>
    (\<not> ok s \<longrightarrow> MeshError (AudioTrackFailure (rp_PeerID (ms_heap m a))) \<in> set (ms_events (SetMuteAudio ok muted m)))"
proof -
  let ?t = "outgoingTrack (m\<lparr>ms_isMuted := muted\<rparr>)"
  let ?cs = "concat (map (\<lambda>a. case rp_AudioSender (ms_heap m a) of None \<Rightarrow> [] | Some s \<Rightarrow> [ReplaceTrack s ?t]) (map snd (ms_Peers m)))"
  have heap: "ms_heap (SetMuteAudio ok muted m) = ms_heap m" by (simp add: SetMuteAudio_def SetMuteAudio_begin_def Let_def)
  have calls: "ms_calls (SetMuteAudio ok muted m) = ms_calls m @ ?cs"
    by (simp add: SetMuteAudio_def SetMuteAudio_begin_def Let_def replaceTracks_calls)
  have mem: "a \<in> set (map snd (ms_Peers m))" using gm_get_mem [of "ms_Peers m" k a] assms(1) by (force simp: mesh_peer_def)
  then have "ReplaceTrack s ?t \<in> set ?cs" using assms(2) by (force split: option.splits)
  moreover have "list_all (\<lambda>c. \<exists>s'. c = ReplaceTrack s' ?t) ?cs" by (auto simp: list_all_iff split: option.splits)
  ultimately have c: "carried (ms_heap m a) ?cs u = Some ?t" for u using carried_replaced [OF assms(2)] by blast
  have t: "?t = (if muted then ms_silentAudioTrack m else (case ms_localAudioTrack m of None \<Rightarrow> ms_silentAudioTrack m | Some t \<Rightarrow> t))"
    by (simp add: outgoingTrack_def split: option.split)
  have "\<not> ok s \<longrightarrow> MeshError (AudioTrackFailure (rp_PeerID (ms_heap m a))) \<in> set (ms_events (SetMuteAudio ok muted m))"
    using replaceTracks_reports [of a "map snd (ms_Peers m)" "m\<lparr>ms_isMuted := muted\<rparr>" s ok ?t] mem assms(2)
    by (simp add: SetMuteAudio_def SetMuteAudio_begin_def Let_def)
  then show ?thesis unfolding heap calls carried_append c by (simp add: t)
qed

theorem mute_reaches_registered_witness:
  "carried (ms_heap (SetMuteAudio (\<lambda>_. True) True (mw_mesh meshrun_joined)) 0)
     (ms_calls (SetMuteAudio (\<lambda>_. True) True (mw_mesh meshrun_joined))) None = Some 5"
proof -
  have "mesh_peer mesh_id (mw_mesh meshrun_joined) = Some 0" "rp_AudioSender (ms_heap (mw_mesh meshrun_joined) 0) = Some 8"
    "ms_silentAudioTrack (mw_mesh meshrun_joined) = 5"
    by code_simp+
  then show ?thesis using mute_reaches_registered [of mesh_id "mw_mesh meshrun_joined" 0 8 "\<lambda>_. True" True] by simp
qed

text \<open>A mute that happens between the creation of a connection and its registration does not reach
  it: \<open>createPeerConnection\<close> reads the mute flag before the new peer is visible to \<open>SetMuteAudio\<close>.\<close>

definition unmuted_world :: mesh_world where
  "unmuted_world = world_do (SetMuteAudio (\<lambda>_. True) False) (world_do (SetLocalAudioTrack (Some 6)) meshrun_world)"

definition unmuted_created :: mesh_world where
  "unmuted_created = unmuted_world\<lparr>mw_mesh := snd (handlePeerJoined_create no_tables meshrun_lib meshrun_message (mw_mesh unmuted_world)), mw_pc := Created 0\<rparr>"

definition muted_late :: mesh_world where
  "muted_late = world_do (SetMuteAudio (\<lambda>_. True) True) unmuted_created"

definition muted_joined :: mesh_world where
  "muted_joined = muted_late\<lparr>mw_mesh := snd (handlePeerJoined_offer meshrun_lib 0 (handlePeerJoined_announce 0 (snd (handlePeerJoined_register 0 (mw_mesh muted_late))))), mw_pc := Idle\<rparr>"

lemma muted_joined_run: "(mesh_step no_tables)\<^sup>*\<^sup>* meshrun_world muted_joined"
proof -
  have u: "mw_pc unmuted_world = Idle" by code_simp
  have "fst (handlePeerJoined_create no_tables meshrun_lib meshrun_message (mw_mesh unmuted_world)) = Some 0" by code_simp
  then have c: "handlePeerJoined_create no_tables meshrun_lib meshrun_message (mw_mesh unmuted_world) =
      (Some 0, snd (handlePeerJoined_create no_tables meshrun_lib meshrun_message (mw_mesh unmuted_world)))" by (simp add: prod_eq_iff)
  have create: "mesh_step no_tables unmuted_world unmuted_created"
    using step_create [OF u c] by (simp add: unmuted_created_def)
  have pc: "mw_pc muted_late = Created 0" by code_simp
  have "fst (handlePeerJoined_register 0 (mw_mesh muted_late)) = True" by code_simp
  then have reg: "handlePeerJoined_register 0 (mw_mesh muted_late) = (True, snd (handlePeerJoined_register 0 (mw_mesh muted_late)))"
    by (simp add: prod_eq_iff)
  have "fst (handlePeerJoined_offer meshrun_lib 0 (handlePeerJoined_announce 0 (snd (handlePeerJoined_register 0 (mw_mesh muted_late))))) = False"
    by code_simp
  then have offer: "handlePeerJoined_offer meshrun_lib 0 (handlePeerJoined_announce 0 (snd (handlePeerJoined_register 0 (mw_mesh muted_late)))) =
      (False, snd (handlePeerJoined_offer meshrun_lib 0 (handlePeerJoined_announce 0 (snd (handlePeerJoined_register 0 (mw_mesh muted_late))))))"
    by (simp add: prod_eq_iff)
  have commit: "(mesh_step no_tables)\<^sup>*\<^sup>* muted_late muted_joined"
    using commit_steps [OF pc reg offer, of no_tables] by (simp add: muted_joined_def)
  have mute: "(mesh_step no_tables)\<^sup>*\<^sup>* unmuted_created muted_late" unfolding muted_late_def by (rule SetMuteAudio_steps)
  have audio: "mesh_step no_tables meshrun_world (world_do (SetLocalAudioTrack (Some 6)) meshrun_world)" by (rule step_audio)
  have unmute: "(mesh_step no_tables)\<^sup>*\<^sup>* (world_do (SetLocalAudioTrack (Some 6)) meshrun_world) unmuted_world"
    unfolding unmuted_world_def by (rule SetMuteAudio_steps)
  show ?thesis
    by (rule converse_rtranclp_into_rtranclp [of "mesh_step no_tables", OF audio],
        rule rtranclp_trans [of "mesh_step no_tables", OF unmute],
        rule converse_rtranclp_into_rtranclp [of "mesh_step no_tables", OF create],
        rule rtranclp_trans [of "mesh_step no_tables", OF mute], rule commit)
qed

text \<open>C22: Muting has a gap: in a possible interleaving the mesh is muted, nothing is under way and
  a peer is registered whose sender still carries the microphone's track, because it was created
  before the mute and registered after it.\<close>

theorem mute_race:
  "(mesh_step no_tables)\<^sup>*\<^sup>* meshrun_world muted_joined \<and> mw_pc muted_joined = Idle \<and> mw_muting muted_joined = [] \<and> ms_isMuted (mw_mesh muted_joined) \<and>
   mesh_peer mesh_id (mw_mesh muted_joined) = Some 0 \<and> ms_silentAudioTrack (mw_mesh muted_joined) = 5 \<and>
   ms_localAudioTrack (mw_mesh muted_joined) = Some 6 \<and>
   carried (ms_heap (mw_mesh muted_joined) 0) (ms_calls (mw_mesh muted_joined)) None = Some 6"
proof (intro conjI)
  show "(mesh_step no_tables)\<^sup>*\<^sup>* meshrun_world muted_joined" by (rule muted_joined_run)
  show "mw_pc muted_joined = Idle" "mw_muting muted_joined = []" "ms_isMuted (mw_mesh muted_joined)" "mesh_peer mesh_id (mw_mesh muted_joined) = Some 0"
    "ms_silentAudioTrack (mw_mesh muted_joined) = 5" "ms_localAudioTrack (mw_mesh muted_joined) = Some 6"
    "carried (ms_heap (mw_mesh muted_joined) 0) (ms_calls (mw_mesh muted_joined)) None = Some 6"
    by code_simp+
qed

end
