(* ===== verification/Client_Main.thy ===== *)
theory Client_Main
  imports View_Facts Config Mesh_Facts
begin

text \<open>
  The client program (\<^verbatim>\<open>src/cmd/termcall/main.go\<close>): flags, the choice between the join form and a direct
  call, the event loop and what is released on the way out. The event loop belongs to the terminal
  library: how it ends, and the devices and the mesh as it leaves them, are arguments. \<^verbatim>\<open>os.Exit\<close> ends the
  program without its deferred calls.
\<close>

section \<open>Flags\<close>

record clientFlags =
  cf_username :: string
  cf_room :: string
  cf_server :: string
  cf_allowInsecureWS :: bool
  cf_allowPrivateICE :: bool
  cf_debugLog :: string

definition defaultFlags :: clientFlags where
  "defaultFlags = \<lparr>cf_username = [], cf_room = [], cf_server = [], cf_allowInsecureWS = False, cf_allowPrivateICE = False, cf_debugLog = []\<rparr>"

definition clientFlagTable :: "clientFlags flag list" where
  "clientFlagTable =
     [(''username'', False, \<lambda>s f. Some (f\<lparr>cf_username := s\<rparr>)),
      (''room'', False, \<lambda>s f. Some (f\<lparr>cf_room := s\<rparr>)),
      (''server'', False, \<lambda>s f. Some (f\<lparr>cf_server := s\<rparr>)),
      (''allow-insecure-ws'', True, \<lambda>s f. map_option (\<lambda>b. f\<lparr>cf_allowInsecureWS := b\<rparr>) (ParseBool s)),
      (''allow-private-ice'', True, \<lambda>s f. map_option (\<lambda>b. f\<lparr>cf_allowPrivateICE := b\<rparr>) (ParseBool s)),
      (''debug-log'', False, \<lambda>s f. Some (f\<lparr>cf_debugLog := s\<rparr>))]"

section \<open>The program\<close>

type_synonym session = "camera \<times> microphone \<times> MeshManager"

text \<open>\<open>start\<close> is the outcome of \<open>startCall\<close> with the two permissions; \<open>ended\<close> are the devices and the mesh
  of the call, if one was started, when the event loop ends. The result is the exit code, and
  the devices and the mesh at exit.\<close>

definition client_main ::
  "(bool \<Rightarrow> bool \<Rightarrow> JoinResult \<Rightarrow> (call_start_error, CallModel \<times> MeshManager) res) \<Rightarrow> bool \<Rightarrow> session option \<Rightarrow> bool \<Rightarrow> string list
    \<Rightarrow> nat \<times> session option" where
  "client_main start logOpens ended runOK args =
     (case parseFlags clientFlagTable args defaultFlags of
        Inl e \<Rightarrow> (if e = FlagHelp then 0 else 2, None)
      | Inr (f, _) \<Rightarrow>
          if cf_debugLog f \<noteq> [] \<and> \<not> logOpens then (1, None)
          else (case invocationMode (cf_username f) (cf_room f) (cf_server f) of
              Inl _ \<Rightarrow> (2, None)
            | Inr (skipForm, effectiveServer) \<Rightarrow>
                let direct = start (cf_allowInsecureWS f) (cf_allowPrivateICE f)
                      \<lparr>jr_RoomID = cf_room f, jr_Username = cf_username f, jr_ServerURL = effectiveServer\<rparr>
                in if skipForm \<and> isl direct then (1, None)
                   else if runOK then (0, map_option cleanup ended) else (1, ended)))"

text \<open>A program that ends well has released the call; one that is told to stop by a failing terminal has
  not.\<close>

lemma exit_zero_cleans:
  "client_main start logOpens ended runOK args = (0, Some s) \<Longrightarrow> \<exists>e. ended = Some e \<and> s = cleanup e"
  by (auto simp: client_main_def Let_def split: sum.splits prod.splits if_splits option.splits)

lemma failed_run_keeps_devices:
  "client_main start logOpens (Some e) False args = (code, Some s) \<Longrightarrow> code = 1 \<and> s = e"
  by (auto simp: client_main_def Let_def split: sum.splits prod.splits if_splits)

text \<open>The exit code 2 means that nothing was started: the flags could not be parsed or do not fit together.\<close>

lemma exit_two_starts_nothing:
  "fst (client_main start logOpens ended runOK args) = 2 \<Longrightarrow>
     client_main start logOpens ended runOK args = (2, None) \<and>
     (\<forall>f rest. parseFlags clientFlagTable args defaultFlags = Inr (f, rest) \<longrightarrow>
        (cf_username f = [] \<or> cf_room f = []) \<and> (cf_username f \<noteq> [] \<or> cf_room f \<noteq> [] \<or> cf_server f \<noteq> []))"
  by (auto simp: client_main_def invocationMode_def Let_def split: sum.splits prod.splits if_splits option.splits)

section \<open>Releasing the devices\<close>

lemma closeCamera_steps: "camera_step\<^sup>*\<^sup>* c (closeCamera c)"
proof (cases "ca_session c")
  case None
  then show ?thesis using cam_close [of c] by (simp add: closeCamera_def Let_def r_into_rtranclp)
next
  case (Some t)
  have "ca_closing (camera_Close c) = [] @ t # tl (ca_closing (camera_Close c))" using Some by (simp add: camera_Close_def)
  from cam_close [of c] cam_closing [OF this] show ?thesis
    using Some by (simp add: closeCamera_def Let_def)
qed

lemma closeMicrophone_steps: "mic_step\<^sup>*\<^sup>* m (closeMicrophone m)"
proof (cases "mi_track m")
  case None
  then show ?thesis using mic_step_close [of m] by (simp add: closeMicrophone_def Let_def r_into_rtranclp)
next
  case (Some t)
  have "mi_closing (mic_Close m) = [] @ t # tl (mi_closing (mic_Close m))" using Some by (simp add: mic_Close_def)
  from mic_step_close [of m] mic_step_closing [OF this] show ?thesis
    using Some by (simp add: closeMicrophone_def Let_def)
qed

lemma close_devices_idle:
  "ca_session (closeCamera c) = None" "ca_starting (closeCamera c) = ca_starting c" "ca_closing (closeCamera c) = ca_closing c"
  "mi_track (closeMicrophone m) = None" "mi_starting (closeMicrophone m) = mi_starting m" "mi_closing (closeMicrophone m) = mi_closing m"
  by (simp_all add: closeCamera_def camera_Close_def session_close_def closeMicrophone_def mic_Close_def track_close_def Let_def split: option.split)

lemma close_all_calls: "set (ms_calls m) \<subseteq> set (ms_calls (close_all as m))"
proof (induction as arbitrary: m)
  case (Cons a as)
  with close_remote_calls [of m a] show ?case by fastforce
qed simp

lemma Stop_closes_signaler: "\<not> ms_stopped m \<Longrightarrow> SignalerClose \<in> set (ms_calls (Stop m)) \<and> ms_stopped (Stop m)"
proof -
  have keep: "ms_stopped (close_all as m) = ms_stopped m" for as m
    by (induction as arbitrary: m) (simp_all add: close_remote_def log_calls_def set_remote_def split: prod.split)
  assume "\<not> ms_stopped m"
  then show ?thesis
    using close_all_calls [of "snd (Stop_take (Stop_cancel m))" "fst (Stop_take (Stop_cancel m))"]
    by (auto simp: Stop_def Stop_take_def Stop_cancel_def log_calls_def keep)
qed

end
