(* ===== verification/Audio_Player.thy ===== *)
theory Audio_Player
  imports Prelude Float64 "HOL-Library.Word"
begin

text \<open>
  The audio player of \<^verbatim>\<open>src/internal/playback/player_cgo.go\<close>: decoded frames go through a bounded
  channel to the callback that fills the device's buffer. The Opus decoder and the device library
  are arguments. A write outside the
  buffer would panic: the callback then has no result. The callback and the receiver run
  concurrently: \<open>feed\<close> holds what the receiver does to the channel before each turn of the callback's
  loop, one selection at a time. A receiver that delivered empty frames for ever would keep the
  callback busy for ever; \<open>feed\<close> is finite.
\<close>

section \<open>State\<close>

type_synonym pcm = "16 word list"

datatype player_call = CtxFree | DeviceUninit

datatype player_error = DecoderError | ContextError | DeviceError | StartError

record Player =
  pl_pcmChan :: "pcm list"
  pl_leftover :: pcm
  pl_closed :: bool
  pl_lastRMS :: go_float

definition pcmBufferFrames :: nat where
  "pcmBufferFrames = 8"

text \<open>\<open>NewPlayer\<close> with the outcome of each step that can fail, and the calls that release resources.\<close>

definition NewPlayer :: "bool \<Rightarrow> bool \<Rightarrow> bool \<Rightarrow> bool \<Rightarrow> (player_error, Player) res \<times> player_call list" where
  "NewPlayer decoderOK contextOK deviceOK startOK =
     (if \<not> decoderOK then (Inl DecoderError, [])
      else if \<not> contextOK then (Inl ContextError, [])
      else if \<not> deviceOK then (Inl DeviceError, [CtxFree])
      else if \<not> startOK then (Inl StartError, [DeviceUninit, CtxFree])
      else (Inr \<lparr>pl_pcmChan = [], pl_leftover = [], pl_closed = False, pl_lastRMS = Fin 0\<rparr>, []))"

text \<open>The selections with which a frame is queued: offer it; if the channel is full, discard the oldest
  frame, if there still is one, and offer it again.\<close>

definition offerFrame :: "pcm \<Rightarrow> Player \<Rightarrow> bool \<times> Player" where
  "offerFrame frame p =
     (if length (pl_pcmChan p) < pcmBufferFrames then (True, p\<lparr>pl_pcmChan := pl_pcmChan p @ [frame]\<rparr>) else (False, p))"

definition discardOldest :: "Player \<Rightarrow> Player" where
  "discardOldest p = p\<lparr>pl_pcmChan := tl (pl_pcmChan p)\<rparr>"

definition pushFrame :: "pcm \<Rightarrow> Player \<Rightarrow> Player" where
  "pushFrame frame p =
     (case offerFrame frame p of
        (True, p1) \<Rightarrow> p1
      | (False, p1) \<Rightarrow> snd (offerFrame frame (discardOldest p1)))"

lemma pushFrame_eq:
  "pushFrame frame p =
     (if length (pl_pcmChan p) < pcmBufferFrames then p\<lparr>pl_pcmChan := pl_pcmChan p @ [frame]\<rparr>
      else if length (pl_pcmChan p) = pcmBufferFrames then p\<lparr>pl_pcmChan := tl (pl_pcmChan p) @ [frame]\<rparr>
      else discardOldest p)"
  by (auto simp: pushFrame_def offerFrame_def discardOldest_def pcmBufferFrames_def)

text \<open>The loudness: the root of the mean of the squares, scaled to the range from 0 to 1.\<close>

definition sumSquares :: "pcm \<Rightarrow> rat" where
  "sumSquares samples = foldl (\<lambda>sum s. fl (sum + fl (float64 (sint s) * float64 (sint s)))) 0 samples"

definition loudness :: "pcm \<Rightarrow> go_float" where
  "loudness samples =
     (let rms = (if samples = [] then 0 else go_sqrt (fl (sumSquares samples / float64 (int (length samples)))))
      in Fin (fl (rms / 32768)))"

definition WriteOpus :: "(string \<Rightarrow> pcm option) \<Rightarrow> string \<Rightarrow> Player \<Rightarrow> bool \<times> Player" where
  "WriteOpus decode data p =
     (if pl_closed p then (True, p)
      else (case decode data of
          None \<Rightarrow> (False, p)
        | Some samples \<Rightarrow> (True, pushFrame samples (p\<lparr>pl_lastRMS := loudness samples\<rparr>))))"

definition player_Close :: "Player \<Rightarrow> player_call list \<times> Player" where
  "player_Close p = (if pl_closed p then ([], p) else ([DeviceUninit, CtxFree], p\<lparr>pl_closed := True\<rparr>))"

section \<open>The callback\<close>

type_synonym byte = "8 word"

definition low_byte :: "16 word \<Rightarrow> byte" where
  "low_byte sample = ucast sample"

definition high_byte16 :: "16 word \<Rightarrow> byte" where
  "high_byte16 sample = ucast (signed_drop_bit 8 sample)"

fun writeSamples :: "nat \<Rightarrow> pcm \<Rightarrow> byte list \<Rightarrow> byte list option" where
  "writeSamples outIdx [] out = Some out"
| "writeSamples outIdx (sample # samples) out =
     (if outIdx * 2 + 1 < length out
      then writeSamples (Suc outIdx) samples (out[outIdx * 2 := low_byte sample, outIdx * 2 + 1 := high_byte16 sample])
      else None)"

definition fillSilence :: "nat \<Rightarrow> byte list \<Rightarrow> byte list" where
  "fillSilence outIdx out = take (outIdx * 2) out @ replicate (length out - outIdx * 2) 0"

datatype feed_op = Offer pcm | Discard

fun feedPlayer :: "feed_op \<Rightarrow> Player \<Rightarrow> Player" where
  "feedPlayer (Offer frame) p = snd (offerFrame frame p)"
| "feedPlayer Discard p = discardOldest p"

definition nextFeed :: "feed_op list list \<Rightarrow> Player \<Rightarrow> Player \<times> feed_op list list" where
  "nextFeed feed p = (case feed of [] \<Rightarrow> (p, []) | ops # rest \<Rightarrow> (fold feedPlayer ops p, rest))"

text \<open>Receiving from the channel when nothing is left over; \<open>None\<close> is an underrun.\<close>

definition refill :: "Player \<Rightarrow> Player option" where
  "refill p =
     (if pl_leftover p \<noteq> [] then Some p
      else (case pl_pcmChan p of [] \<Rightarrow> None | pcm # rest \<Rightarrow> Some (p\<lparr>pl_leftover := pcm, pl_pcmChan := rest\<rparr>)))"

lemma feed_length: "length (pl_pcmChan (fold feedPlayer ops p)) \<le> length (pl_pcmChan p) + length ops"
proof (induction ops arbitrary: p)
  case (Cons op ops)
  have "length (pl_pcmChan (feedPlayer op p)) \<le> Suc (length (pl_pcmChan p))"
    by (cases op) (auto simp: offerFrame_def discardOldest_def)
  with Cons.IH [of "feedPlayer op p"] show ?case by simp
qed simp

lemma nextFeed_length:
  "nextFeed feed p = (q, rest) \<Longrightarrow>
   length (pl_pcmChan q) + length (concat rest) \<le> length (pl_pcmChan p) + length (concat feed)"
  using feed_length [of _ p] by (force simp: nextFeed_def split: list.splits)

function audioLoop :: "nat \<Rightarrow> nat \<Rightarrow> feed_op list list \<Rightarrow> byte list \<Rightarrow> Player \<Rightarrow> (byte list \<times> Player) option" where
  "audioLoop needed outIdx feed out p =
     (if outIdx < needed then
        (case nextFeed feed p of (p1, feed1) \<Rightarrow>
           (case refill p1 of
              None \<Rightarrow> Some (fillSilence outIdx out, p1)
            | Some p2 \<Rightarrow>
                let n = min (needed - outIdx) (length (pl_leftover p2))
                in (case writeSamples outIdx (take n (pl_leftover p2)) out of
                      None \<Rightarrow> None
                    | Some out1 \<Rightarrow> audioLoop needed (outIdx + n) feed1 out1 (p2\<lparr>pl_leftover := drop n (pl_leftover p2)\<rparr>))))
      else Some (out, p))"
  by pat_completeness auto

termination
proof (relation "measure (\<lambda>(needed, outIdx, feed, out, p). (needed - outIdx) + length (pl_pcmChan p) + length (concat feed))",
    goal_cases)
  case (2 needed outIdx feed out p p1 feed1 p2 n out1)
  then have feed: "length (pl_pcmChan p1) + length (concat feed1) \<le> length (pl_pcmChan p) + length (concat feed)"
    using nextFeed_length [of feed p p1 feed1] by simp
  show ?case
  proof (cases "pl_leftover p1 = []")
    case True
    then have "length (pl_pcmChan p2) < length (pl_pcmChan p1)" using 2 by (auto simp: refill_def split: list.splits)
    with feed show ?thesis by simp
  next
    case False
    then have "p2 = p1" "0 < n" using 2 by (auto simp: refill_def)
    with feed 2(1) show ?thesis by simp
  qed
qed simp

declare audioLoop.simps [simp del]

definition onAudioRequest :: "nat \<Rightarrow> feed_op list list \<Rightarrow> byte list \<Rightarrow> Player \<Rightarrow> (byte list \<times> Player) option" where
  "onAudioRequest framecount feed out p = audioLoop framecount 0 feed out p"

section \<open>The buffer as samples\<close>

text \<open>What the device plays: signed 16-bit samples, least significant byte first.\<close>

unbundle bit_operations_syntax

fun played :: "byte list \<Rightarrow> pcm" where
  "played (l # h # bs) = (push_bit 8 (ucast h) OR ucast l) # played bs"
| "played _ = []"

definition bytes_of :: "pcm \<Rightarrow> byte list" where
  "bytes_of samples = concat (map (\<lambda>s. [low_byte s, high_byte16 s]) samples)"

definition pending :: "Player \<Rightarrow> pcm" where
  "pending p = pl_leftover p @ concat (pl_pcmChan p)"

lemma sample_bytes: "push_bit 8 (ucast (high_byte16 s)) OR ucast (low_byte s) = s"
proof (rule bit_word_eqI)
  fix n
  assume "n < LENGTH(16)"
  then show "bit (push_bit 8 (ucast (high_byte16 s)) OR ucast (low_byte s) :: 16 word) n = bit s n"
    by (auto simp: bit_simps low_byte_def high_byte16_def not_less)
qed

lemma bytes_of_simps [simp]:
  "bytes_of [] = []" "bytes_of (s # ss) = low_byte s # high_byte16 s # bytes_of ss" "bytes_of (ss @ ts) = bytes_of ss @ bytes_of ts"
  "length (bytes_of ss) = 2 * length ss"
  by (simp_all add: bytes_of_def) (induction ss, simp_all)

lemma played_bytes: "played (bytes_of ss @ bs) = ss @ played bs"
  by (induction ss) (simp_all add: sample_bytes)

lemma played_silence: "played (replicate (2 * n) 0) = replicate n 0"
  by (induction n) simp_all

lemma writeSamples_eq:
  "2 * (outIdx + length samples) \<le> length out \<Longrightarrow>
   writeSamples outIdx samples out = Some (take (2 * outIdx) out @ bytes_of samples @ drop (2 * (outIdx + length samples)) out)"
proof (induction samples arbitrary: outIdx out)
  case (Cons sample samples)
  let ?out = "out[outIdx * 2 := low_byte sample, outIdx * 2 + 1 := high_byte16 sample]"
  have len: "2 * (Suc outIdx + length samples) \<le> length ?out" using Cons.prems by simp
  have "take (2 * Suc outIdx) ?out = take (2 * outIdx) out @ [low_byte sample, high_byte16 sample]"
  proof (rule nth_equalityI)
    show "length (take (2 * Suc outIdx) ?out) = length (take (2 * outIdx) out @ [low_byte sample, high_byte16 sample])"
      using Cons.prems by simp
    show "take (2 * Suc outIdx) ?out ! i = (take (2 * outIdx) out @ [low_byte sample, high_byte16 sample]) ! i"
      if "i < length (take (2 * Suc outIdx) ?out)" for i
      using that Cons.prems by (auto simp: nth_append nth_list_update nth_Cons mult.commute less_Suc_eq split: nat.splits)
  qed
  then show ?case using Cons.IH [OF len] Cons.prems by simp
qed simp

section \<open>What the callback does\<close>

lemma fill_played:
  assumes "length out = 2 * needed" "outIdx \<le> needed"
  shows "fillSilence outIdx out = take (2 * outIdx) out @ replicate (2 * (needed - outIdx)) 0"
  using assms by (simp add: fillSilence_def mult.commute right_diff_distrib')

lemma refill_pending: "refill p = Some q \<Longrightarrow> pending q = pending p \<and> pl_closed q = pl_closed p \<and> pl_lastRMS q = pl_lastRMS p"
  by (auto simp: refill_def pending_def split: if_splits list.splits)

lemma refill_None: "refill p = None \<Longrightarrow> pending p = []"
  by (auto simp: refill_def pending_def split: if_splits list.splits)

lemma pending_drop:
  "n \<le> length (pl_leftover q) \<Longrightarrow> pending (q\<lparr>pl_leftover := drop n (pl_leftover q)\<rparr>) = drop n (pending q)"
  by (simp add: pending_def)

text \<open>One turn of the loop, without its case distinctions.\<close>

lemma audioLoop_turn:
  assumes "outIdx < needed" "nextFeed feed p = (p1, feed1)" "refill p1 = Some p2" "length out = 2 * needed"
  obtains n out1 where "n \<le> needed - outIdx" "n \<le> length (pl_leftover p2)"
    "out1 = take (2 * outIdx) out @ bytes_of (take n (pl_leftover p2)) @ drop (2 * (outIdx + n)) out"
    "length out1 = length out"
    "audioLoop needed outIdx feed out p = audioLoop needed (outIdx + n) feed1 out1 (p2\<lparr>pl_leftover := drop n (pl_leftover p2)\<rparr>)"
    "n = min (needed - outIdx) (length (pl_leftover p2))"
proof -
  let ?n = "min (needed - outIdx) (length (pl_leftover p2))"
  let ?out = "take (2 * outIdx) out @ bytes_of (take ?n (pl_leftover p2)) @ drop (2 * (outIdx + ?n)) out"
  have fits: "2 * (outIdx + ?n) \<le> length out" using assms(1,4) by simp
  have len: "length ?out = length out" using assms(1,4) by simp
  have "writeSamples outIdx (take ?n (pl_leftover p2)) out = Some ?out"
    using writeSamples_eq [of outIdx "take ?n (pl_leftover p2)" out] fits by simp
  then have "audioLoop needed outIdx feed out p = audioLoop needed (outIdx + ?n) feed1 ?out (p2\<lparr>pl_leftover := drop ?n (pl_leftover p2)\<rparr>)"
    using assms by (subst audioLoop.simps) (simp add: Let_def)
  with len show thesis by (intro that [of ?n ?out]) simp_all
qed

lemma audioLoop_returns:
  "length out = 2 * needed \<Longrightarrow> \<exists>out' p'. audioLoop needed outIdx feed out p = Some (out', p') \<and> length out' = length out"
proof (induction needed outIdx feed out p rule: audioLoop.induct)
  case (1 needed outIdx feed out p)
  obtain p1 feed1 where feed: "nextFeed feed p = (p1, feed1)" by fastforce
  consider "\<not> outIdx < needed" | "outIdx < needed" "refill p1 = None" | p2 where "outIdx < needed" "refill p1 = Some p2" by fastforce
  then show ?case
  proof cases
    case 1
    then show ?thesis by (subst audioLoop.simps) simp
  next
    case 2
    then show ?thesis using feed "1.prems" by (subst audioLoop.simps) (simp add: fillSilence_def)
  next
    case 3
    from audioLoop_turn [OF 3(1) feed 3(2) "1.prems"] obtain n out1 where t:
      "n = min (needed - outIdx) (length (pl_leftover p2))" "length out1 = length out"
      "out1 = take (2 * outIdx) out @ bytes_of (take n (pl_leftover p2)) @ drop (2 * (outIdx + n)) out"
      "audioLoop needed outIdx feed out p = audioLoop needed (outIdx + n) feed1 out1 (p2\<lparr>pl_leftover := drop n (pl_leftover p2)\<rparr>)"
      by metis
    have "writeSamples outIdx (take n (pl_leftover p2)) out = Some out1"
      using writeSamples_eq [of outIdx "take n (pl_leftover p2)" out] 3(1) "1.prems" t(1,3) by simp
    from "1.IH" [OF 3(1) feed [symmetric] 3(2) t(1) this] t(2,4) "1.prems" show ?thesis by simp
  qed
qed

lemma audioLoop_fifo:
  "length out = 2 * needed \<Longrightarrow> outIdx \<le> needed \<Longrightarrow>
   \<exists>p'. audioLoop needed outIdx [] out p =
     Some (take (2 * outIdx) out @ bytes_of (take (needed - outIdx) (pending p)) @ replicate (2 * (needed - outIdx - length (pending p))) 0, p') \<and>
     pending p' = drop (needed - outIdx) (pending p)"
proof (induction needed outIdx "[] :: feed_op list list" out p rule: audioLoop.induct)
  case (1 needed outIdx out p)
  have feed: "nextFeed [] p = (p, [])" by (simp add: nextFeed_def)
  consider "\<not> outIdx < needed" | "outIdx < needed" "refill p = None" | p2 where "outIdx < needed" "refill p = Some p2" by fastforce
  then show ?case
  proof cases
    case 1
    with "1.prems" show ?thesis by (subst audioLoop.simps) simp
  next
    case 2
    then show ?thesis using feed "1.prems" refill_None [OF 2(2)] by (subst audioLoop.simps) (simp add: fill_played)
  next
    case 3
    from audioLoop_turn [OF 3(1) feed 3(2) "1.prems"(1)] obtain n out1 where t:
      "n = min (needed - outIdx) (length (pl_leftover p2))" "length out1 = length out"
      "out1 = take (2 * outIdx) out @ bytes_of (take n (pl_leftover p2)) @ drop (2 * (outIdx + n)) out"
      "audioLoop needed outIdx [] out p = audioLoop needed (outIdx + n) [] out1 (p2\<lparr>pl_leftover := drop n (pl_leftover p2)\<rparr>)"
      by metis
    let ?q = "p2\<lparr>pl_leftover := drop n (pl_leftover p2)\<rparr>"
    have w: "writeSamples outIdx (take n (pl_leftover p2)) out = Some out1"
      using writeSamples_eq [of outIdx "take n (pl_leftover p2)" out] 3(1) "1.prems" t(1,3) by simp
    have n: "n \<le> length (pl_leftover p2)" "outIdx + n \<le> needed" using t(1) 3(1) by simp_all
    have pq: "pending ?q = drop n (pending p)" using pending_drop [OF n(1)] refill_pending [OF 3(2)] by simp
    have "take n (pl_leftover p2) = take n (pending p2)" "n \<le> length (pending p2)" using n(1) by (simp_all add: pending_def)
    then have head: "take n (pl_leftover p2) = take n (pending p)" and np: "n \<le> length (pending p)"
      using refill_pending [OF 3(2)] by simp_all
    have split: "take (needed - outIdx) (pending p) = take n (pending p) @ take (needed - (outIdx + n)) (drop n (pending p))"
      using n(2) by (simp add: take_add [symmetric])
    have pre: "take (2 * (outIdx + n)) out1 = take (2 * outIdx) out @ bytes_of (take n (pending p))"
      using "1.prems" n np by (simp add: t(3) head)
    from "1.hyps" [OF 3(1) feed [symmetric] 3(2) t(1) w] t(2) "1.prems" n(2) obtain p' where
      "audioLoop needed (outIdx + n) [] out1 ?q =
         Some (take (2 * (outIdx + n)) out1 @ bytes_of (take (needed - (outIdx + n)) (pending ?q)) @
           replicate (2 * (needed - (outIdx + n) - length (pending ?q))) 0, p')"
      "pending p' = drop (needed - (outIdx + n)) (pending ?q)" by auto
    then show ?thesis using n np unfolding t(4) pre pq split by (auto simp: add.commute)
  qed
qed

section \<open>Properties\<close>

text \<open>C19: The audio callback always returns. However full the channel is, whatever finitely many
  frames arrive while it runs (empty ones included, which do not advance it), one selection of
  the receiver at a time, and whatever is left over, the
  callback ends without writing outside a buffer of the requested size and returns
  a buffer of that size.\<close>

theorem audio_callback_terminates:
  assumes "length out = 2 * framecount"
  shows "\<exists>out' p'. onAudioRequest framecount feed out p = Some (out', p') \<and> length out' = length out"
  unfolding onAudioRequest_def by (rule audioLoop_returns [OF assms])

theorem audio_callback_terminates_witness:
  "\<exists>out' p'. onAudioRequest 2 [[Offer [], Offer [7]], [Discard]] [1, 1, 1, 1]
      \<lparr>pl_pcmChan = [[]], pl_leftover = [], pl_closed = False, pl_lastRMS = Fin 0\<rparr> = Some (out', p') \<and> length out' = length [1, 1, 1, 1 :: byte]"
  by (rule audio_callback_terminates) simp

text \<open>C18: The player is a queue of samples: a callback during which nothing arrives plays exactly
  the oldest samples that were received and not yet played, in order and bit for bit, then silence if
  there are not enough, and keeps exactly the rest.\<close>

theorem audio_plays_in_order:
  assumes "length out = 2 * framecount"
  shows "\<exists>out' p'. onAudioRequest framecount [] out p = Some (out', p') \<and>
    played out' = take framecount (pending p) @ replicate (framecount - length (pending p)) 0 \<and>
    pending p' = drop framecount (pending p)"
proof -
  from audioLoop_fifo [OF assms, of 0 p] obtain p' where
    "audioLoop framecount 0 [] out p = Some (bytes_of (take framecount (pending p)) @ replicate (2 * (framecount - length (pending p))) 0, p')"
    "pending p' = drop framecount (pending p)" by auto
  then show ?thesis by (auto simp: onAudioRequest_def played_bytes played_silence)
qed

theorem audio_plays_in_order_witness:
  "\<exists>out' p'. onAudioRequest 3 [] [0, 0, 0, 0, 0, 0] \<lparr>pl_pcmChan = [[258]], pl_leftover = [65535], pl_closed = False, pl_lastRMS = Fin 0\<rparr> =
      Some (out', p') \<and> played out' = [65535, 258, 0] \<and> pending p' = []"
  using audio_plays_in_order [of "[0, 0, 0, 0, 0, 0]" 3 "\<lparr>pl_pcmChan = [[258]], pl_leftover = [65535], pl_closed = False, pl_lastRMS = Fin 0\<rparr>"]
  by (simp add: pending_def numeral_3_eq_3)

lemma push_all: "length (pl_pcmChan p) \<le> 8 \<Longrightarrow>
  pl_pcmChan (fold pushFrame frames p) = drop (length (pl_pcmChan p) + length frames - 8) (pl_pcmChan p @ frames)"
proof (induction frames arbitrary: p)
  case (Cons f fs)
  show ?case
  proof (cases "length (pl_pcmChan p) < 8")
    case True
    then have "pl_pcmChan (pushFrame f p) = pl_pcmChan p @ [f]" by (simp add: pushFrame_eq pcmBufferFrames_def)
    with Cons.IH [of "pushFrame f p"] True show ?thesis by simp
  next
    case False
    with Cons.prems have full: "length (pl_pcmChan p) = 8" by simp
    then have push: "pl_pcmChan (pushFrame f p) = tl (pl_pcmChan p) @ [f]" by (simp add: pushFrame_eq pcmBufferFrames_def)
    then have "length (pl_pcmChan (pushFrame f p)) = 8" using full by simp
    with Cons.IH [of "pushFrame f p"] full push show ?thesis by (cases "pl_pcmChan p") simp_all
  qed
qed simp

text \<open>Current audio is preferred: with no callback in between, the channel holds the last eight
  frames, oldest first.\<close>

lemma last_eight_frames: "pl_pcmChan p = [] \<Longrightarrow> pl_pcmChan (fold pushFrame frames p) = drop (length frames - 8) frames"
  using push_all [of p frames] by simp

text \<open>Resources: a failed \<open>NewPlayer\<close> releases what it took, and closing twice releases once.\<close>

lemma new_player_releases:
  "NewPlayer dec ctx dev start = (Inl e, calls) \<Longrightarrow> dec \<and> ctx \<Longrightarrow> CtxFree \<in> set calls \<and> (dev \<longrightarrow> DeviceUninit \<in> set calls)"
  by (auto simp: NewPlayer_def split: if_splits)

lemma player_Close_once: "player_Close p = (calls, q) \<Longrightarrow> player_Close q = ([], q)"
  by (auto simp: player_Close_def split: if_splits)

section \<open>Builds without cgo\<close>

text \<open>The player is a stub without state: it can always be made and drops what it is given.\<close>

definition stub_NewPlayer :: "player_error + unit" where
  "stub_NewPlayer = Inr ()"

definition stub_WriteOpus :: "string \<Rightarrow> unit \<Rightarrow> bool \<times> unit" where
  "stub_WriteOpus data p = (True, p)"

definition stub_LastRMS :: "unit \<Rightarrow> go_float" where
  "stub_LastRMS p = Fin 0"

section \<open>Loudness\<close>

text \<open>A packet has at most 2880 samples, so the sum of the squares is exact.\<close>

lemma square_bound: "0 \<le> sint s * sint s \<and> sint s * sint s \<le> 2 ^ 30" for s :: "16 word"
proof -
  have "\<bar>sint s\<bar> \<le> 2 ^ 15" using sint_greater_eq [of s] sint_less [of s] by simp
  then have "\<bar>sint s\<bar> * \<bar>sint s\<bar> \<le> 2 ^ 15 * 2 ^ 15" by (intro mult_mono) simp_all
  then show ?thesis by (simp add: abs_mult [symmetric])
qed

lemma square_exact:
  assumes "0 \<le> k * k" "k * k \<le> 2 ^ 30" "0 \<le> acc" "acc + 2 ^ 30 < 2 ^ 53" "\<bar>k\<bar> < 2 ^ 53"
  shows "fl (of_int acc + fl (float64 k * float64 k)) = of_int (acc + k * k)"
proof -
  have "fl (of_int (k * k)) = of_int (k * k)" "fl (of_int (acc + k * k)) = of_int (acc + k * k)"
    using float64_exact [of "k * k"] float64_exact [of "acc + k * k"] assms by (simp_all add: float64_def)
  then show ?thesis using assms(5) by (simp add: float64_exact_abs)
qed

lemma sumSquares_exact:
  fixes xs :: pcm
  assumes "0 \<le> acc" "acc + 2 ^ 30 * int (length xs) < 2 ^ 53"
  shows "foldl (\<lambda>sum s. fl (sum + fl (float64 (sint s) * float64 (sint s)))) (of_int acc) xs =
    of_int (acc + sum_list (map (\<lambda>s. sint s * sint s) xs))"
  using assms
proof (induction xs arbitrary: acc)
  case (Cons x xs)
  note sq = square_bound [of x]
  have "\<bar>sint x\<bar> < 2 ^ 53" using sint_greater_eq [of x] sint_less [of x] by simp
  then have "fl (of_int acc + fl (float64 (sint x) * float64 (sint x))) = of_int (acc + sint x * sint x)"
    using sq Cons.prems by (intro square_exact) simp_all
  then show ?case
    using Cons.IH [of "acc + sint x * sint x"] sq Cons.prems by (simp only: foldl_Cons list.map sum_list.Cons) (simp add: algebra_simps)
qed simp

lemma loudness_range:
  assumes "length samples \<le> 2880"
  shows "\<exists>r. loudness samples = Fin r \<and> 0 \<le> r \<and> r \<le> 1"
proof -
  let ?n = "int (length samples)" and ?S = "sum_list (map (\<lambda>s. sint s * sint s) samples)"
  define rms where "rms = (if samples = [] then 0 else go_sqrt (fl (sumSquares samples / float64 ?n)))"
  have S: "?S \<le> 2 ^ 30 * ?n"
  proof (induction samples)
    case (Cons x xs)
    with square_bound [of x] show ?case by (simp add: algebra_simps)
  qed simp
  have "rms \<le> two_pow 15"
  proof (cases "samples = []")
    case False
    have "sumSquares samples = of_int ?S" using sumSquares_exact [of 0 samples] assms by (simp add: sumSquares_def)
    moreover have "float64 ?n = of_int ?n" using assms by (intro float64_exact) simp_all
    moreover have "(of_int ?S :: rat) \<le> of_int (2 ^ 30 * ?n)" using S by (simp only: of_int_le_iff)
    ultimately have "sumSquares samples / float64 ?n \<le> two_pow 30" using False by (simp add: two_pow_def pos_divide_le_eq)
    then show ?thesis using go_sqrt_le_two_pow [of "fl (sumSquares samples / float64 ?n)" 15] fl_le_two_pow False by (simp add: rms_def)
  qed (simp add: rms_def two_pow_def)
  then have "rms / 32768 \<le> two_pow 0" by (simp add: two_pow_def)
  then have "fl (rms / 32768) \<le> 1" using fl_le_two_pow [of _ 0] by (simp add: two_pow_def)
  moreover have "0 \<le> fl (rms / 32768)" by (intro fl_nonneg) (simp add: rms_def go_sqrt_nonneg)
  ultimately show ?thesis by (simp add: loudness_def Let_def rms_def)
qed

text \<open>So the loudness a player reports stays in that range.\<close>

lemma WriteOpus_loudness:
  assumes "\<And>d xs. decode d = Some xs \<Longrightarrow> length xs \<le> 2880" and "\<exists>r. pl_lastRMS p = Fin r \<and> 0 \<le> r \<and> r \<le> 1"
  shows "\<exists>r. pl_lastRMS (snd (WriteOpus decode data p)) = Fin r \<and> 0 \<le> r \<and> r \<le> 1"
  using assms(2) loudness_range [OF assms(1) [of data]]
  by (auto simp: WriteOpus_def pushFrame_eq discardOldest_def split: option.split)

end
