(* ===== verification/Config_Facts.thy ===== *)
theory Config_Facts
  imports Config
begin

text \<open>
  Properties of the server's configuration: the public address check agrees with the relay's own
  filter, every accepted configuration is within the documented limits, and a generated
  \<^verbatim>\<open>.env\<close> file is read back exactly.
\<close>

section \<open>The public address\<close>

lemma peerAllowed_v4:
  assumes "To4 ip = Some b"
  shows "peerAllowed ip False = isPublicIPv4 ip"
proof -
  from To4_length [OF assms] have b: "length b = 4" "AddrFromSlice b = Some b" by (simp_all add: AddrFromSlice_def)
  have "ip \<noteq> []" using assms by (auto simp: To4_def v4_in_6_def)
  moreover have "list_ex (\<lambda>p. prefix_contains p b) deniedPeerPrefixes =
      list_ex (\<lambda>p. prefix_contains p b) deniedPublicIPv4Prefixes"
    using b(1) by (simp add: deniedPeerPrefixes_def deniedPublicIPv4Prefixes_def prefix_contains_def)
  ultimately show ?thesis
    using assms b To4_Unmap [OF assms] by (auto simp: peerAllowed_def isPublicIPv4_def)
qed

text \<open>The address that the configuration accepts as public is exactly an IPv4 address, in
  either of its two representations, that the relay's own peer filter lets through, although the two
  packages keep separate lists of denied networks.\<close>

theorem isPublicIPv4_peerAllowed:
  "isPublicIPv4 ip \<longleftrightarrow> To4 ip \<noteq> None \<and> peerAllowed ip False"
proof (cases "To4 ip")
  case None
  then show ?thesis by (simp add: isPublicIPv4_def)
next
  case (Some b)
  with peerAllowed_v4 [OF Some] show ?thesis by simp
qed

section \<open>Accepted configurations\<close>

lemma validPort: "validatePort n p = None \<longleftrightarrow> 1 \<le> p \<and> p \<le> 65535"
  by (auto simp: validatePort_def)

lemma public_To4: "isPublicIPv4 ip \<Longrightarrow> \<exists>b. To4 ip = Some b \<and> isPublicIPv4 b"
proof -
  assume pub: "isPublicIPv4 ip"
  then obtain b where b: "To4 ip = Some b" by (auto simp: isPublicIPv4_def split: if_splits option.splits)
  have "b \<noteq> []" using To4_length [OF b] by auto
  with pub b To4_idem [OF b] show ?thesis by (auto simp: isPublicIPv4_def split: if_splits option.splits)
qed

definition rate_ok :: "go_float \<Rightarrow> bool" where
  "rate_ok r \<longleftrightarrow> r = NaN \<or> (\<exists>x. r = Fin x \<and> 1 \<le> x \<and> x \<le> 1000)"

lemma rate_ok_iff: "rate_ok r \<longleftrightarrow> \<not> float_less r (Fin 1) \<and> \<not> float_less (Fin 1000) r"
  by (cases r) (auto simp: rate_ok_def)

definition config_ok :: "config_Server \<Rightarrow> bool" where
  "config_ok c \<longleftrightarrow>
     length (cs_PublicIP c) = 4 \<and> isPublicIPv4 (cs_PublicIP c) \<and>
     1 \<le> cs_TURNPort c \<and> cs_TURNPort c \<le> 65535 \<and>
     1 \<le> cs_RelayPortMin c \<and> cs_RelayPortMin c \<le> cs_RelayPortMax c \<and> cs_RelayPortMax c \<le> 65535 \<and>
     2 \<le> cs_MaxRoomSize c \<and> cs_MaxRoomSize c \<le> 16 \<and>
     validTURNSecret (cs_TURNSharedSecret c) \<and>
     minute \<le> cs_TURNCredentialTTL c \<and> cs_TURNCredentialTTL c \<le> hour \<and>
     1 \<le> cs_TURNPerUserQuota c \<and> cs_TURNPerUserQuota c \<le> 10 \<and>
     cs_TURNPerUserQuota c \<le> cs_TURNTotalQuota c \<and> cs_TURNTotalQuota c \<le> 10000 \<and>
     1 \<le> cs_MaxConnectionsPerIP c \<and> cs_MaxConnectionsPerIP c \<le> 1000 \<and>
     cs_MaxConnectionsPerIP c \<le> cs_MaxConnections c \<and> cs_MaxConnections c \<le> 10000 \<and>
     1 \<le> cs_MaxRooms c \<and> cs_MaxRooms c \<le> cs_MaxConnections c \<and>
     rate_ok (cs_MessageRate c) \<and> 1 \<le> cs_MessageBurst c \<and> cs_MessageBurst c \<le> 2000 \<and>
     ''*'' \<notin> set (cs_AllowedOrigins c) \<and> [] \<notin> set (cs_AllowedOrigins c)"

lemma origins_ok:
  assumes "validateOriginList L v = Inr os"
  shows "''*'' \<notin> set os" "[] \<notin> set os"
proof -
  from assms have os: "os = splitCommaList v" and good: "\<forall>x \<in> set os. \<not> bad_origin L x"
    by (auto simp: validateOriginList_def Let_def find_None_iff split: option.splits)
  have "bad_origin L ''*''" by (simp add: bad_origin_def)
  with good show "''*'' \<notin> set os" by blast
  show "[] \<notin> set os" by (simp add: os splitCommaList_def)
qed

definition checked :: "serverInput \<Rightarrow> bool" where
  "checked i \<longleftrightarrow>
     validatePort ''HTTP port'' (in_wsPort i) = None \<and> validatePort ''TURN port'' (in_turnPort i) = None \<and>
     validatePort ''relay minimum'' (in_relayMin i) = None \<and> validatePort ''relay maximum'' (in_relayMax i) = None \<and>
     in_relayMin i \<le> in_relayMax i \<and> 2 \<le> in_maxRoomSize i \<and> in_maxRoomSize i \<le> 16 \<and>
     validTURNSecret (in_turnSecret i) \<and> minute \<le> in_credentialTTL i \<and> in_credentialTTL i \<le> hour \<and>
     1 \<le> in_perUserQuota i \<and> in_perUserQuota i \<le> 10 \<and>
     in_perUserQuota i \<le> in_totalQuota i \<and> in_totalQuota i \<le> 10000 \<and>
     1 \<le> in_maxConnections i \<and> in_maxConnections i \<le> 1000 \<and>
     in_maxConnections i \<le> in_maxTotalConnections i \<and> in_maxTotalConnections i \<le> 10000 \<and>
     1 \<le> in_maxRooms i \<and> in_maxRooms i \<le> in_maxTotalConnections i \<and>
     rate_ok (in_messageRate i) \<and> 1 \<le> in_messageBurst i \<and> in_messageBurst i \<le> 2000"

definition settings :: "IP \<Rightarrow> string list \<Rightarrow> serverInput \<Rightarrow> config_Server" where
  "settings b os i = \<lparr>cs_HTTPAddress = JoinHostPort (in_wsBind i) (go_itoa (in_wsPort i)), cs_PublicIP = b,
     cs_TURNPort = in_turnPort i mod 65536, cs_RelayPortMin = in_relayMin i mod 65536,
     cs_RelayPortMax = in_relayMax i mod 65536, cs_MaxRoomSize = in_maxRoomSize i,
     cs_TURNSharedSecret = in_turnSecret i, cs_TURNCredentialTTL = in_credentialTTL i,
     cs_TURNPerUserQuota = in_perUserQuota i, cs_TURNTotalQuota = in_totalQuota i,
     cs_AllowPrivatePeers = in_allowPrivatePeers i, cs_AllowedOrigins = os, cs_MaxRooms = in_maxRooms i,
     cs_MaxConnections = in_maxTotalConnections i, cs_MaxConnectionsPerIP = in_maxConnections i,
     cs_MessageRate = in_messageRate i, cs_MessageBurst = in_messageBurst i\<rparr>"

lemma validateServer_accepts:
  assumes "std_ParseIP L (in_wsBind i) \<noteq> []" "isPublicIPv4 (std_ParseIP L (in_publicIP i))"
    "To4 (std_ParseIP L (in_publicIP i)) = Some b" "checked i" "validateOriginList L (in_allowedOrigins i) = Inr os"
  shows "validateServer L i = Inr (settings b os i)"
proof -
  from assms(4) have r: "\<not> float_less (in_messageRate i) (Fin 1)" "\<not> float_less (Fin 1000) (in_messageRate i)"
    using rate_ok_iff by (auto simp: checked_def)
  show ?thesis
    unfolding validateServer_def Let_def settings_def
    using assms(4) [unfolded checked_def] by (simp only: assms r) simp
qed

lemma validateServer_accepted:
  assumes "validateServer L i = Inr c"
  obtains b os where "std_ParseIP L (in_wsBind i) \<noteq> []" "isPublicIPv4 (std_ParseIP L (in_publicIP i))"
    "To4 (std_ParseIP L (in_publicIP i)) = Some b" "checked i"
    "validateOriginList L (in_allowedOrigins i) = Inr os" "c = settings b os i"
proof -
  obtain b where b: "To4 (std_ParseIP L (in_publicIP i)) = Some b"
    using assms public_To4 by (auto simp: validateServer_def Let_def split: if_splits)
  obtain os where os: "validateOriginList L (in_allowedOrigins i) = Inr os"
    using assms by (auto simp: validateServer_def Let_def split: if_splits sum.splits)
  have "std_ParseIP L (in_wsBind i) \<noteq> []" "isPublicIPv4 (std_ParseIP L (in_publicIP i))" "checked i"
    using assms by (auto simp: validateServer_def Let_def checked_def rate_ok_iff split: if_splits)
  with that [of b os] b os validateServer_accepts [OF _ _ b _ os] assms show thesis by auto
qed

lemma validateServer_ok:
  assumes "validateServer L i = Inr c"
  shows "config_ok c"
  using assms
proof (rule validateServer_accepted)
  fix b os
  assume pub: "isPublicIPv4 (std_ParseIP L (in_publicIP i))" and b: "To4 (std_ParseIP L (in_publicIP i)) = Some b"
    and ok: "checked i" and os: "validateOriginList L (in_allowedOrigins i) = Inr os" and c: "c = settings b os i"
  from public_To4 [OF pub] b have "isPublicIPv4 b" "length b = 4" by (auto intro: To4_length)
  moreover have "in_turnPort i mod 65536 = in_turnPort i" "in_relayMin i mod 65536 = in_relayMin i"
    "in_relayMax i mod 65536 = in_relayMax i" using ok by (simp_all add: checked_def validPort)
  ultimately show ?thesis using ok origins_ok [OF os] unfolding config_ok_def c settings_def
    by (simp add: checked_def validPort)
qed

definition sample_std :: std where
  "sample_std = \<lparr>std_ParseIP = (\<lambda>s. if s = ''127.0.0.1'' then [127, 0, 0, 1] else if s = ''8.8.8.8'' then [8, 8, 8, 8] else []),
     std_ParseFloat = (\<lambda>s. if s = ''NaN'' then Some NaN else None), std_ParseDuration = (\<lambda>s. None),
     std_ParseInt0 = go_atoi, std_ParseURL = (\<lambda>s. None), std_PathMatch = (\<lambda>p s. Some False),
     std_Unquote = (\<lambda>s. None), std_tables = no_tables\<rparr>"

definition sample_lookup :: lookup where
  "sample_lookup key =
     (if key = ''TERMCALL_PUBLIC_IP'' then Some ''8.8.8.8''
      else if key = ''TERMCALL_TURN_SECRET'' then Some ''0123456789abcdef0123456789abcdef'' else None)"

lemma LoadServer_validated: "LoadServer L osEnv args file = Inr c \<Longrightarrow> \<exists>i. validateServer L i = Inr c"
  by (auto simp: LoadServer_def ParseServer_def split: sum.splits prod.splits if_splits)

text \<open>C31: Whatever the file, the environment and the command line hold, a configuration that
  loads is within its limits: a public IPv4 address, ports and port ranges that fit sixteen bits
  and are not empty, rooms of two to sixteen peers, a strong secret, a credential lifetime of a
  minute to an hour, quotas and connection limits that are positive and consistent with each other,
  and no wildcard origin.\<close>

theorem LoadServer_within_limits:
  assumes "LoadServer L osEnv args file = Inr c"
  shows "config_ok c"
  using LoadServer_validated [OF assms] validateServer_ok by blast

theorem LoadServer_within_limits_witness:
  "\<exists>c. LoadServer sample_std sample_lookup [''-max-rooms=7''] NotExist = Inr c \<and> config_ok c \<and> cs_MaxRooms c = 7"
proof -
  let ?r = "LoadServer sample_std sample_lookup [''-max-rooms=7''] NotExist"
  have "case ?r of Inl e \<Rightarrow> False | Inr c \<Rightarrow> cs_MaxRooms c = 7" by code_simp
  then obtain c where c: "?r = Inr c" "cs_MaxRooms c = 7" by (cases ?r) auto
  with LoadServer_within_limits [OF c(1)] show ?thesis by blast
qed

text \<open>The check that the message rate is between 1 and 1000 has a hole: every accepted
  configuration stays accepted when its rate is replaced by NaN, which the number parser yields for
  the text \<^verbatim>\<open>NaN\<close>.\<close>

theorem NaN_rate_accepted:
  assumes "validateServer L i = Inr c"
  shows "validateServer L (i\<lparr>in_messageRate := NaN\<rparr>) = Inr (c\<lparr>cs_MessageRate := NaN\<rparr>)"
  using assms
proof (rule validateServer_accepted)
  let ?i = "i\<lparr>in_messageRate := NaN\<rparr>"
  fix b os
  assume a: "std_ParseIP L (in_wsBind i) \<noteq> []" "isPublicIPv4 (std_ParseIP L (in_publicIP i))"
    "To4 (std_ParseIP L (in_publicIP i)) = Some b" "checked i"
    "validateOriginList L (in_allowedOrigins i) = Inr os" "c = settings b os i"
  have "checked ?i" using a(4) by (simp add: checked_def rate_ok_def)
  with a validateServer_accepts [of L ?i b os] show ?thesis by (simp add: settings_def)
qed

theorem NaN_rate_accepted_witness:
  "\<exists>i c. envInput sample_std sample_lookup = Inr i \<and> validateServer sample_std (i\<lparr>in_messageRate := NaN\<rparr>) = Inr c"
proof -
  have "case envInput sample_std sample_lookup of Inl e \<Rightarrow> False
      | Inr i \<Rightarrow> (case validateServer sample_std i of Inl e \<Rightarrow> False | Inr c \<Rightarrow> True)" by code_simp
  then obtain i c where i: "envInput sample_std sample_lookup = Inr i" "validateServer sample_std i = Inr c"
    by (auto split: sum.splits)
  from NaN_rate_accepted [OF i(2)] i(1) show ?thesis by blast
qed

section \<open>The .env file\<close>

definition name_char :: "char \<Rightarrow> bool" where
  "name_char c \<longleftrightarrow> c = CHR ''_'' \<or> 65 \<le> byte_val c \<and> byte_val c \<le> 90 \<or> 97 \<le> byte_val c \<and> byte_val c \<le> 122"

definition env_name :: "string \<Rightarrow> bool" where
  "env_name k \<longleftrightarrow> k \<noteq> [] \<and> name_char (hd k) \<and> list_all (\<lambda>c. name_char c \<or> is_digit c) k"

definition env_line :: "string \<times> string \<Rightarrow> string" where
  "env_line p = fst p @ CHR ''='' # CHR 0x27 # snd p @ [CHR 0x27]"

definition env_entry :: "string \<times> string \<Rightarrow> bool" where
  "env_entry p \<longleftrightarrow>
     env_name (fst p) \<and> CHR 0x27 \<notin> set (snd p) \<and> CHR 0x0A \<notin> set (snd p) \<and> length (env_line p) < 65536"

definition env_file :: "(string \<times> string) list \<Rightarrow> string" where
  "env_file ps = concat (map (\<lambda>p. env_line p @ [CHR 0x0A]) ps)"

lemma name_char_byte:
  assumes "name_char c \<or> is_digit c"
  shows "48 \<le> byte_val c" "byte_val c < 123" "c \<noteq> CHR ''=''" "c \<noteq> CHR 0x0A" "\<not> is_space (byte_val c)"
proof -
  have u: "byte_val (CHR ''_'') = 95" "byte_val (CHR ''='') = 61" "byte_val (CHR 0x0A) = 10" by (simp_all add: byte_val_def)
  have d: "48 \<le> byte_val c \<and> byte_val c \<le> 57" if "is_digit c"
    using that by (auto simp: is_digit_def in_range_def)
  show b: "48 \<le> byte_val c" "byte_val c < 123" using assms d u by (auto simp: name_char_def)
  show "c \<noteq> CHR ''=''" "c \<noteq> CHR 0x0A" using assms d u by (auto simp: name_char_def)
  show "\<not> is_space (byte_val c)" using b by (auto simp: is_space_def)
qed

lemma envKeyLoop_name:
  "list_all (\<lambda>c. name_char c \<or> is_digit c) k \<Longrightarrow> 0 < n \<Longrightarrow> envKeyLoop U n (runes k)"
proof (induction k arbitrary: n)
  case (Cons c k)
  then have c: "name_char c \<or> is_digit c" by simp
  have "byte_val c = 95 \<or> is_letter U (byte_val c) \<or> is_unicode_digit U (byte_val c)"
    using c name_char_byte(1,2) [OF c]
    by (auto simp: name_char_def is_letter_def is_unicode_digit_def is_digit_def in_range_def byte_val_def)
  with Cons name_char_byte(2) [OF c] show ?case by (simp add: Let_def)
qed simp

lemma env_name_valid:
  assumes "env_name k"
  shows "validEnvKey U k"
proof -
  from assms obtain c cs where k: "k = c # cs" by (cases k) (simp_all add: env_name_def)
  with assms have c: "name_char c" and cs: "list_all (\<lambda>c. name_char c \<or> is_digit c) cs" by (simp_all add: env_name_def)
  have "byte_val c = 95 \<or> is_letter U (byte_val c)"
    using c by (auto simp: name_char_def is_letter_def byte_val_def)
  with k cs c name_char_byte(2) [of c] envKeyLoop_name [OF cs, of "Suc 0" U] show ?thesis
    by (simp add: validEnvKey_def Let_def)
qed

lemma trim_plain:
  assumes "list_all (\<lambda>c. byte_val c < 128 \<and> \<not> is_space (byte_val c)) k"
  shows "go_trim_space k = k"
proof -
  have "ascii k" using assms by (auto simp: ascii_def list_all_iff)
  then have r: "runes k = map (\<lambda>c. (byte_val c, [c])) k" by (rule runes_ascii)
  have keep: "dropWhile P xs = xs" if "\<forall>x \<in> set xs. \<not> P x" for P and xs :: "(nat \<times> string) list"
    using that by (cases xs) simp_all
  have "dropWhile (\<lambda>p. is_space (fst p)) (runes k) = runes k"
    "dropWhile (\<lambda>p. is_space (fst p)) (rev (runes k)) = rev (runes k)"
    using assms unfolding r by (intro keep; auto simp: list_all_iff)+
  then show ?thesis by (simp add: go_trim_space_def drop_while_end_def runes_concat)
qed

lemma quote_byte [simp]: "byte_val (CHR 0x27) = 39" "\<not> is_space 39"
  by (simp_all add: byte_val_def is_space_def)

lemma parseEnvLine_entry:
  assumes "env_entry (k, v)"
  shows "parseEnvLine L n (drop_cr (env_line (k, v))) = Inr (Some (k, v))"
proof -
  let ?q = "CHR 0x27 # v @ [CHR 0x27]"
  from assms have name: "env_name k" and q: "CHR 0x27 \<notin> set v" by (simp_all add: env_entry_def)
  then obtain c cs where k: "k = c # cs" by (cases k) (simp_all add: env_name_def)
  have chars: "\<And>x. x \<in> set k \<Longrightarrow> name_char x \<or> is_digit x" using name by (auto simp: env_name_def list_all_iff)
  have line: "env_line (k, v) = c # (cs @ CHR ''='' # CHR 0x27 # v) @ [CHR 0x27]" by (simp add: env_line_def k)
  have c: "byte_val c < 128" "\<not> is_space (byte_val c)" "c \<noteq> CHR ''#''"
    using name_char_byte [OF chars, of c] k by (auto simp: byte_val_def)
  have t: "go_trim_space (drop_cr (env_line (k, v))) = env_line (k, v)"
    using trim_space_id [OF c(1,2), of "CHR 0x27" "cs @ CHR ''='' # CHR 0x27 # v"] unfolding line by (simp add: drop_cr_def)
  have "CHR ''='' \<notin> set k" using name_char_byte(3) [OF chars] by blast
  then have cut: "cut_equals (env_line (k, v)) = Some (k, ?q)"
    using index_byte_append [of "CHR ''=''" k ?q] by (simp add: cut_equals_def env_line_def)
  have tk: "go_trim_space k = k"
  proof (rule trim_plain)
    show "list_all (\<lambda>c. byte_val c < 128 \<and> \<not> is_space (byte_val c)) k"
      using name_char_byte [OF chars] by (fastforce simp: list_all_iff)
  qed
  have tq: "go_trim_space ?q = ?q" by (rule trim_space_id) simp_all
  have head: "env_line (k, v) \<noteq> []" "hd (env_line (k, v)) = c" by (simp_all add: line)
  have un: "unquoteEnvValue L ?q = Some v" using q by (simp add: unquoteEnvValue_def)
  show ?thesis
    unfolding parseEnvLine_def Let_def t using head c(3) by (simp add: cut tk tq un env_name_valid [OF name])
qed

lemma env_line_newline: "env_entry p \<Longrightarrow> CHR 0x0A \<notin> set (env_line p)"
  using name_char_byte(4) by (fastforce simp: env_entry_def env_name_def env_line_def list_all_iff)

lemma split_env_file: "list_all env_entry ps \<Longrightarrow> split_on (CHR 0x0A) (env_file ps) = map env_line ps @ [[]]"
proof (induction ps)
  case (Cons p ps)
  then show ?case
    using split_on_append [OF env_line_newline, of p "env_file ps"] by (simp add: env_file_def)
qed (simp add: env_file_def)

lemma parseEnvLines_entries:
  "list_all env_entry ps \<Longrightarrow>
   parseEnvLines L n (map env_line ps) m = Inr (foldl (\<lambda>m p. gm_set (fst p) (snd p) m) m ps)"
proof (induction ps arbitrary: n m)
  case (Cons p ps)
  obtain k v where p: "p = (k, v)" by (cases p)
  with Cons parseEnvLine_entry [of k v L n] show ?case by (simp add: env_entry_def)
qed simp

text \<open>C32: A \<^verbatim>\<open>.env\<close> file of single-quoted assignments is read back exactly: for non-empty names of
  ASCII letters, digits and underscores that do not begin with a digit and any values, blank, invalid
  UTF-8 or with hash and equals signs, that have no single quote and no line feed, with lines shorter
  than 64 KiB, parsing yields the assignments in order, the last one of a name winning.\<close>

theorem env_file_roundtrip:
  assumes "list_all env_entry ps"
  shows "parseEnv L (env_file ps) = Inr (foldl (\<lambda>m p. gm_set (fst p) (snd p) m) gm_empty ps)"
  using split_env_file [OF assms] parseEnvLines_entries [OF assms]
  by (simp add: parseEnv_def scan_lines_def Let_def)

theorem env_file_roundtrip_witness:
  "parseEnv sample_std (env_file [(''A_1'', ''x # = ''), (''B'', []), (''A_1'', ''y'')]) = Inr [(''A_1'', ''y''), (''B'', [])]"
proof -
  let ?ps = "[(''A_1'', ''x # = ''), (''B'', []), (''A_1'', ''y'')]"
  have "list_all env_entry ?ps" by code_simp
  from env_file_roundtrip [OF this, of sample_std] show ?thesis by (simp add: gm_set_def gm_delete_def gm_empty_def)
qed

end
