(* ===== verification/Server_Messages.thy ===== *)
theory Server_Messages
  imports Signaling_Client Config_Facts
begin

text \<open>
  What the server sends is what its clients accept. An invariant of the interleaved server says that
  every queued message, apart from the last words before a fatal disconnect, passes the client's
  validation or is an admission; admissions are written to JSON and read back, and the client's
  \<open>Dial\<close> accepts them with the credentials the relay issues.
\<close>

section \<open>Sizes of JSON texts\<close>

lemma length_escape_rune: "p \<in> set (runes s) \<Longrightarrow> length (escape_rune p) \<le> 6 * length (snd p)"
proof -
  assume "p \<in> set (runes s)"
  then have "snd p \<noteq> []" by (induction s rule: runes.induct) (auto simp: runes.simps(2) split: prod.splits)
  then show ?thesis by (cases p; cases "snd p") (auto simp: escape_rune_def Let_def hex_digits_def)
qed

lemma length_json_string: "length (json_string s) \<le> 6 * length s + 2"
proof -
  have "length (concat (map escape_rune ps)) \<le> 6 * length (concat (map snd ps))" if "set ps \<subseteq> set (runes s)" for ps
    using that by (induction ps) (auto dest!: length_escape_rune)
  from this [of "runes s"] show ?thesis by (simp add: json_string_def runes_concat)
qed

lemma length_join_parts: "length (join_on c ws) \<le> sum_list (map length ws) + length ws"
  by (induction c ws rule: join_on.induct) auto

lemma length_json_array:
  assumes "\<forall>x \<in> set xs. length (f x) \<le> n"
  shows "length (json_array (map f xs)) \<le> 2 + length xs * (n + 1)"
proof -
  have "sum_list (map length (map f xs)) \<le> length xs * n" using assms by (induction xs) auto
  with length_join_parts [of "CHR '',''" "map f xs"] show ?thesis by (simp add: json_array_def algebra_simps)
qed

lemma length_json_object:
  "length (json_object ms) \<le> 2 + sum_list (map (\<lambda>p. 6 * length (fst p) + 4 + length (snd p)) ms)"
proof -
  have "sum_list (map length (map json_member ms)) + length ms \<le> sum_list (map (\<lambda>p. 6 * length (fst p) + 4 + length (snd p)) ms)"
  proof (induction ms)
    case (Cons p ms)
    then show ?case using length_json_string [of "fst p"] by (simp add: json_member_def)
  qed simp
  with length_join_parts [of "CHR '',''" "map json_member ms"] show ?thesis by (simp add: json_object_def)
qed

section \<open>Error replies are valid\<close>

definition plain_text :: "string \<Rightarrow> bool" where
  "plain_text s \<longleftrightarrow> s \<noteq> [] \<and> length s \<le> 100 \<and> list_all (\<lambda>c. 32 \<le> byte_val c \<and> byte_val c < 127) s"

lemma plain_ascii: "plain_text s \<Longrightarrow> ascii s"
  by (auto simp: plain_text_def ascii_def list_all_iff)

lemma plain_no_control: "plain_text s \<Longrightarrow> \<not> hasControl s"
  using runes_ascii [OF plain_ascii, of s]
  by (auto simp: hasControl_def rune_values_def list_ex_iff plain_text_def list_all_iff is_control_def)

lemma errorMessage_valid:
  assumes "plain_text code" "validErrorCode code" "plain_text message"
  obtains m where "errorMessage code message = Inr m" "ValidateServerMessage U m = None"
proof -
  let ?e = "\<lparr>ep_Code = code, ep_Message = message\<rparr>"
  let ?tx = "marshal_error ?e"
  have good: "good_error ?e" using assms ascii_utf8 plain_ascii by (simp add: good_error_def)
  have "length ?tx \<le> 2000"
    using assms length_json_object [of "[(''code'', json_string code), (''message'', json_string message)]"]
      length_json_string [of code] length_json_string [of message]
    by (simp add: marshal_error_def plain_text_def)
  then have len: "length ?tx \<le> MaxPayloadBytes" by (simp add: MaxPayloadBytes_def)
  let ?m = "(NewMessage MsgError)\<lparr>m_Payload := ?tx\<rparr>"
  have m: "errorMessage code message = Inr ?m" using len by (simp add: errorMessage_def MarshalPayload_def)
  have "ValidateServerMessage U ?m = None"
    using assms len error_roundtrip [OF good len] plain_no_control [OF assms(3)]
    by (simp add: ValidateServerMessage_def NewMessage_def plain_text_def MaxErrorMessageBytes_def
        MsgError_def MsgPeerJoined_def MsgPeerLeft_def MsgOffer_def MsgAnswer_def MsgICECandidate_def)
  with m show thesis by (rule that)
qed

section \<open>Queues hold acceptable messages\<close>

definition peers_ok :: "unicode_tables \<Rightarrow> string \<Rightarrow> PeerInfo list \<Rightarrow> bool" where
  "peers_ok U pid peers \<longleftrightarrow>
     list_all (\<lambda>p. uuid_shape (pi_PeerID p) \<and> NormalizeUsername U (pi_Username p) = Inr (pi_Username p)) peers \<and>
     distinct (map pi_PeerID peers) \<and> pid \<notin> set (map pi_PeerID peers)"

definition admission_message ::
  "unicode_tables \<Rightarrow> ServerConfig \<Rightarrow> JoinAcceptedPayload \<Rightarrow> SignalingMessage \<Rightarrow> bool" where
  "admission_message U config a m \<longleftrightarrow>
     m = (NewMessage MsgJoinAccepted)\<lparr>m_RoomID := ja_RoomID a, m_PeerID := ja_PeerID a, m_Payload := marshal_accepted a\<rparr> \<and>
     uuid_shape (ja_RoomID a) \<and> uuid_shape (ja_PeerID a) \<and> peers_ok U (ja_PeerID a) (ja_Peers a) \<and>
     int (length (ja_Peers a)) < sc_MaxRoomSize config \<and> length (ja_ICEServers a) = 1"

definition sent_ok :: "unicode_tables \<Rightarrow> ServerConfig \<Rightarrow> SignalingMessage \<Rightarrow> bool" where
  "sent_ok U config m \<longleftrightarrow> ValidateServerMessage U m = None \<or> (\<exists>a. admission_message U config a m)"

definition queues_ok :: "(SignalingMessage \<Rightarrow> bool) \<Rightarrow> world \<Rightarrow> bool" where
  "queues_ok P w \<longleftrightarrow> (\<forall>a. list_all (\<lambda>x. o_result x \<or> P (o_message x)) (p_Send (w_peer w a)))"

text \<open>Steps that keep the queues acceptable and the peers' names.\<close>

definition keeps :: "(SignalingMessage \<Rightarrow> bool) \<Rightarrow> world \<Rightarrow> world \<Rightarrow> bool" where
  "keeps P w w' \<longleftrightarrow> (queues_ok P w \<longrightarrow> queues_ok P w') \<and>
     (\<forall>a. p_ID (w_peer w' a) = p_ID (w_peer w a) \<and> p_Username (w_peer w' a) = p_Username (w_peer w a))"

lemma keeps_refl [simp]: "keeps P w w"
  by (simp add: keeps_def)

lemma keeps_trans: "keeps P u v \<Longrightarrow> keeps P v w \<Longrightarrow> keeps P u w"
  by (simp add: keeps_def)

lemma keeps_peers: "w_peer w' = w_peer w \<Longrightarrow> keeps P w w'"
  by (simp add: keeps_def queues_ok_def)

lemma keeps_Cancel: "keeps P w (peer_Cancel a w)"
  by (simp add: keeps_def queues_ok_def peer_Cancel_def set_peer_def)

lemma keeps_enqueue: "P m \<Longrightarrow> keeps P w (snd (enqueue a m w))"
  by (simp add: keeps_def queues_ok_def enqueue_def Let_def peer_Cancel_def set_peer_def)

lemma keeps_wait: "keeps P w (snd (enqueueAndWait_queue b a m w))"
  by (simp add: keeps_def queues_ok_def enqueueAndWait_queue_def Let_def peer_Cancel_def set_peer_def)

lemma keeps_sendError:
  assumes "plain_text code" "validErrorCode code" "plain_text message"
    and P: "\<And>m. ValidateServerMessage U m = None \<Longrightarrow> P m"
  shows "keeps P w (sendError i code message w)"
proof -
  obtain m where m: "errorMessage code message = Inr m" "ValidateServerMessage U m = None"
    using errorMessage_valid [OF assms(1-3)] by blast
  from keeps_enqueue [of P m, OF P [OF m(2)]] m(1) show ?thesis by (simp add: sendError_def)
qed

lemma keeps_sendFatal: "keeps P w (sendFatalError b i code message w)"
  by (simp add: sendFatalError_def keeps_Cancel keeps_wait split: sum.split)

lemma keeps_write:
  "p_Send (w_peer w i) = x # rest \<Longrightarrow> keeps P w (set_peer i ((w_peer w i)\<lparr>p_Send := rest\<rparr>) w)"
  by (auto simp: keeps_def queues_ok_def set_peer_def dest: spec [of _ i])

text \<open>The codes and texts that the handler sends.\<close>

definition handler_replies :: "(string \<times> string) list" where
  "handler_replies =
     [(''already_joined'', ''leave the current room before joining another''),
      (''invalid_username'', ''username must contain printable characters''),
      (''turn_unavailable'', ''relay credentials are unavailable''),
      (''room_full'', ''room is full''),
      (''server_busy'', ''the server has reached its room limit''),
      (''room_not_found'', ''room does not exist''),
      (''join_failed'', ''could not join room''),
      (''not_joined'', ''join a room before signaling a peer''),
      (''peer_unavailable'', ''target peer is unavailable'')]"

lemma handler_replies_plain:
  assumes "(code, t) \<in> set handler_replies"
  shows "plain_text code" "validErrorCode code" "plain_text t"
proof -
  have "list_all (\<lambda>p. plain_text (fst p) \<and> validErrorCode (fst p) \<and> plain_text (snd p)) handler_replies" by code_simp
  with assms show "plain_text code" "validErrorCode code" "plain_text t" by (auto simp: list_all_iff)
qed

section \<open>Admissions\<close>

lemma keeps_admitInto:
  assumes "\<And>f. accept = Some f \<Longrightarrow> keeps P w (snd (f (r_ID (w_room w room)) (peerInfoSnapshot rng (w_peer w) (r_peers (w_room w room)) []) w))"
  shows "keeps P w (snd (admitInto rng room peer accept w))"
proof (cases "r_MaxPeers (w_room w room) \<le> gm_len (r_peers (w_room w room))")
  case False
  let ?ex = "peerInfoSnapshot rng (w_peer w) (r_peers (w_room w room)) []"
  obtain err w1 where acc: "(case accept of None \<Rightarrow> (None, w) | Some f \<Rightarrow> f (r_ID (w_room w room)) ?ex w) = (err, w1)"
    by fastforce
  have k: "keeps P w w1"
  proof (cases accept)
    case (Some f)
    with assms [OF Some] acc show ?thesis by simp
  qed (use acc in simp)
  have "w_peer (snd (admitInto rng room peer accept w)) = w_peer w1"
    using acc False by (simp add: admitInto_def Let_def set_rooms_def set_room_def split: option.splits)
  from keeps_trans [OF k keeps_peers [OF this]] show ?thesis .
qed (simp add: admitInto_def)

lemma keeps_Admit:
  assumes new: "\<And>w0. w0 = with_new_room newID maxPeers w \<Longrightarrow>
      keeps P w0 (snd (f newID [] w0))"
    and old: "\<And>room. gm_get (rooms w) req = Some room \<Longrightarrow> gm_len (r_peers (w_room w room)) < r_MaxPeers (w_room w room) \<Longrightarrow>
      keeps P w (snd (f (r_ID (w_room w room)) (peerInfoSnapshot rng (w_peer w) (r_peers (w_room w room)) []) w))"
    and rng: "rng [] = []"
  shows "keeps P w (snd (Admit rng newID req maxPeers peer (Some f) w))"
proof (cases "req = ''new''")
  case True
  let ?w0 = "with_new_room newID maxPeers w"
  have room: "w_room ?w0 (w_next w) = \<lparr>r_ID = newID, r_MaxPeers = maxPeers, r_peers = gm_empty\<rparr>"
    by (simp add: with_new_room_def set_rooms_def set_room_def)
  have "keeps P ?w0 (snd (admitInto rng (w_next w) peer (Some f) ?w0))"
    using new [OF refl] rng by (intro keeps_admitInto) (simp add: room peerInfoSnapshot_def gm_empty_def)
  moreover have "keeps P w ?w0" by (rule keeps_peers) (simp add: with_new_room_def set_rooms_def set_room_def)
  ultimately have "keeps P w (snd (admitInto rng (w_next w) peer (Some f) ?w0))" by (rule keeps_trans [rotated])
  with True show ?thesis by (simp add: Admit_def Let_def with_new_room_def)
next
  case False
  show ?thesis
  proof (cases "gm_get (rooms w) req")
    case (Some room)
    have "keeps P w (snd (admitInto rng room peer (Some f) w))"
    proof (cases "gm_len (r_peers (w_room w room)) < r_MaxPeers (w_room w room)")
      case True
      with old [OF Some] show ?thesis by (intro keeps_admitInto) simp
    qed (simp add: admitInto_def)
    with False Some show ?thesis by (simp add: Admit_def)
  qed (use False in \<open>simp add: Admit_def\<close>)
qed

lemma Admit_room_ids:
  assumes "Admit rng newID req maxPeers peer accept w = (res, w')" and quiet: "quiet_acceptor accept"
    and "\<forall>a < w_next w. Q (r_ID (w_room w a))" and "Q newID"
  shows "\<forall>a < w_next w'. Q (r_ID (w_room w' a))"
proof -
  have into: "w_next w2 = w_next w1 \<and> (\<forall>a. r_ID (w_room w2 a) = r_ID (w_room w1 a))"
    if "admitInto rng room peer accept w1 = (r, w2)" for room r w1 w2
  proof (cases r)
    case (Inl e)
    from admitInto_effect(2) [OF quiet that [unfolded Inl]] show ?thesis
      by (auto simp: same_rooms_def set_rooms_def)
  next
    case (Inr x)
    from admitInto_effect(1) [OF quiet that [unfolded Inr]] show ?thesis
      by (auto simp: same_rooms_def set_room_def)
  qed
  have nw: "w_next (with_new_room newID maxPeers w) = Suc (w_next w)"
    "r_ID (w_room (with_new_room newID maxPeers w) a) = (if a = w_next w then newID else r_ID (w_room w a))" for a
    by (simp_all add: with_new_room_def set_rooms_def set_room_def)
  from assms(1) consider "w' = w"
    | "admitInto rng (w_next w) peer accept (with_new_room newID maxPeers w) = (res, w')"
    | room where "admitInto rng room peer accept w = (res, w')"
    by (auto simp: Admit_def Let_def with_new_room_def split: if_splits option.splits)
  then show ?thesis
  proof cases
    case 2
    with into [OF 2] nw assms(3,4) show ?thesis by (auto simp: less_Suc_eq)
  next
    case 3
    with into [OF 3] assms(3) show ?thesis by simp
  qed (use assms in simp)
qed

lemma snapshot_ok:
  assumes inv: "inv_rooms config w rs" and rng: "iteration_order rng"
    and cur: "gm_get (rooms w) req = Some room"
    and small: "gm_len (r_peers (w_room w room)) < r_MaxPeers (w_room w room)"
    and ids: "\<forall>j < length rs. uuid_shape (p_ID (w_peer w j))"
    and names: "\<forall>j < length rs. rs ! j \<noteq> None \<longrightarrow> NormalizeUsername U (p_Username (w_peer w j)) = Inr (p_Username (w_peer w j))"
    and i: "i < length rs" "rs ! i = None"
    and snap: "ps = peerInfoSnapshot rng (w_peer w) (r_peers (w_room w room)) []"
  shows "peers_ok U (p_ID (w_peer w i)) ps \<and> int (length ps) < sc_MaxRoomSize config"
proof -
  let ?m = "r_peers (w_room w room)"
  note wf = inv_wf [OF inv]
  from wf_rooms_ref [OF wf cur] have curr: "current room w" by blast
  have wfr: "wf_room w req room" using wf cur by (simp add: wf_rooms_def)
  have mem: "p_ID (w_peer w p) = k \<and> p < length rs \<and> rs ! p = Some room" if "(k, p) \<in> set (rng ?m)" for k p
  proof -
    have "gm_get ?m k = Some p" using that rng_set [OF rng] gm_mem_get wfr by (metis wf_room_def)
    with inv_member [OF inv curr this] wfr show ?thesis by (simp add: wf_room_def)
  qed
  let ?f = "\<lambda>p. \<lparr>pi_PeerID = p_ID (w_peer w (snd p)), pi_Username = p_Username (w_peer w (snd p))\<rparr>"
  let ?l = "filter (\<lambda>p. fst p \<noteq> []) (rng ?m)"
  have ps: "ps = map ?f ?l" by (simp add: snap peerInfoSnapshot_def)
  have "distinct (map fst (rng ?m))" using wfr by (intro rng_distinct [OF rng]) (simp add: wf_room_def gm_wf_def)
  then have "distinct (map fst ?l)" by (simp add: distinct_map_filter)
  moreover have ids': "map pi_PeerID ps = map fst ?l" unfolding ps using mem by (auto simp: comp_def)
  ultimately have "distinct (map pi_PeerID ps)" by simp
  moreover have "p_ID (w_peer w i) \<notin> set (map pi_PeerID ps)"
  proof
    assume "p_ID (w_peer w i) \<in> set (map pi_PeerID ps)"
    then obtain k p where kp: "(k, p) \<in> set (rng ?m)" "k = p_ID (w_peer w i)" unfolding ids' by auto
    note here = mem [OF kp(1)]
    then have "p = i" using inv_ids [OF inv, of p i] i kp(2) by simp
    with here i show False by simp
  qed
  moreover have "list_all (\<lambda>p. uuid_shape (pi_PeerID p) \<and> NormalizeUsername U (pi_Username p) = Inr (pi_Username p)) ps"
    unfolding ps list_all_iff
  proof
    fix x assume "x \<in> set (map ?f ?l)"
    then obtain k p where kp: "(k, p) \<in> set (rng ?m)" "x = ?f (k, p)" by auto
    from mem [OF kp(1)] ids [rule_format, of p] names [rule_format, of p] kp(2)
    show "uuid_shape (pi_PeerID x) \<and> NormalizeUsername U (pi_Username x) = Inr (pi_Username x)" by simp
  qed
  moreover have "length ps \<le> length (rng ?m)" unfolding ps by (simp add: length_filter_le)
  moreover have "length (rng ?m) = length ?m" using rng unfolding iteration_order_def by (metis size_mset)
  moreover have "room < w_next w" using wfr by (simp add: wf_room_def)
  ultimately show ?thesis using small inv_size [OF inv, of room] by (simp add: peers_ok_def gm_len_def)
qed

lemma acceptJoin_keeps:
  assumes "uuid_shape roomID" "uuid_shape (p_ID (w_peer w i))" "peers_ok U (p_ID (w_peer w i)) ps"
    "int (length ps) < sc_MaxRoomSize config"
  shows "keeps (sent_ok U config) w (snd (acceptJoin i ice roomID ps w))"
proof -
  let ?a = "\<lparr>ja_RoomID = roomID, ja_PeerID = p_ID (w_peer w i), ja_Peers = ps, ja_ICEServers = [ice]\<rparr>"
  let ?m = "(NewMessage MsgJoinAccepted)\<lparr>m_RoomID := roomID, m_PeerID := p_ID (w_peer w i), m_Payload := marshal_accepted ?a\<rparr>"
  have "admission_message U config ?a ?m" using assms by (simp add: admission_message_def)
  then have "sent_ok U config ?m" unfolding sent_ok_def by blast
  then show ?thesis
    using keeps_enqueue [of "sent_ok U config" ?m w i] by (simp add: acceptJoin_def MarshalPayload_def)
qed

lemma peers_ok_Nil [simp]: "peers_ok U pid []"
  by (simp add: peers_ok_def)

section \<open>The invariant\<close>

definition named :: "unicode_tables \<Rightarrow> Peer \<Rightarrow> bool" where
  "named U p \<longleftrightarrow> NormalizeUsername U (p_Username p) = Inr (p_Username p)"

definition phase_msg :: "unicode_tables \<Rightarrow> phase \<Rightarrow> bool" where
  "phase_msg U ph \<longleftrightarrow>
     (case ph of
        Delivering _ m _ \<Rightarrow> ValidateServerMessage U m = None
      | Routing _ m \<Rightarrow> ValidateServerMessage U m = None
      | _ \<Rightarrow> True)"

definition msg_inv :: "unicode_tables \<Rightarrow> ServerConfig \<Rightarrow> world \<Rightarrow> conn list \<Rightarrow> bool" where
  "msg_inv U config w cs \<longleftrightarrow>
     queues_ok (sent_ok U config) w \<and>
     (\<forall>i < length cs. uuid_shape (p_ID (w_peer w i))) \<and>
     (\<forall>a < w_next w. uuid_shape (r_ID (w_room w a))) \<and>
     (\<forall>i < length cs. c_room (cs ! i) \<noteq> None \<longrightarrow> named U (w_peer w i)) \<and>
     list_all (\<lambda>c. phase_msg U (c_phase c)) cs"

lemma valid_sent: "ValidateServerMessage U m = None \<Longrightarrow> sent_ok U config m"
  by (simp add: sent_ok_def)

text \<open>A step that keeps the queues and the rooms' identifiers and moves one handler.\<close>

lemma msg_inv_move:
  assumes "msg_inv U config w cs" "keeps (sent_ok U config) w w'"
    and "\<forall>a < w_next w'. uuid_shape (r_ID (w_room w' a))"
    and "c_room c \<noteq> None \<Longrightarrow> i < length cs \<Longrightarrow> named U (w_peer w' i)" and "phase_msg U (c_phase c)"
  shows "msg_inv U config w' (cs[i := c])"
proof -
  have "named U (w_peer w' j)" if "j < length cs" "c_room (cs[i := c] ! j) \<noteq> None" for j
  proof (cases "j = i")
    case True
    with that assms(4) show ?thesis by simp
  next
    case False
    with that assms(1) have "named U (w_peer w j)" by (simp add: msg_inv_def)
    with assms(2) show ?thesis by (simp add: keeps_def named_def)
  qed
  moreover have "list_all (\<lambda>c. phase_msg U (c_phase c)) (cs[i := c])"
    using assms(1,5) by (intro list_all_update) (simp_all add: msg_inv_def)
  ultimately show ?thesis using assms(1-3) by (simp add: msg_inv_def keeps_def)
qed

lemma msg_inv_at: "msg_inv U config w cs \<Longrightarrow> i < length cs \<Longrightarrow> phase_msg U (c_phase (cs ! i))"
  using list_all_nth [of "\<lambda>c. phase_msg U (c_phase c)" cs i] by (simp add: msg_inv_def)

lemma msg_inv_same:
  assumes "msg_inv U config w cs" "keeps (sent_ok U config) w w'" "same_rooms w w'"
  shows "msg_inv U config w' cs"
  using assms by (simp add: msg_inv_def keeps_def same_rooms_def named_def)

lemma msg_inv_phase:
  assumes "msg_inv U config w cs" "keeps (sent_ok U config) w w'" "same_rooms w w'" "i < length cs"
    and "c_room c = None \<or> c_room c = c_room (cs ! i)" "phase_msg U (c_phase c)"
  shows "msg_inv U config w' (cs[i := c])"
proof (rule msg_inv_move [OF assms(1,2)])
  show "\<forall>a < w_next w'. uuid_shape (r_ID (w_room w' a))" using assms(1,3) by (simp add: msg_inv_def same_rooms_def)
  show "named U (w_peer w' i)" if "c_room c \<noteq> None"
    using that assms(1,2,4,5) by (auto simp: msg_inv_def keeps_def named_def)
qed (rule assms(6))

lemma msg_inv_rename:
  assumes "msg_inv U config w cs" "c_room (cs ! i) = None"
  shows "msg_inv U config (set_peer i ((w_peer w i)\<lparr>p_Username := n\<rparr>) w) cs"
  using assms by (auto simp: msg_inv_def queues_ok_def set_peer_def)

lemma msg_inv_keep:
  assumes "msg_inv U config w cs" "keeps (sent_ok U config) w w'" "\<forall>a < w_next w'. uuid_shape (r_ID (w_room w' a))"
  shows "msg_inv U config w' cs"
  using assms by (simp add: msg_inv_def keeps_def named_def)

lemma msg_inv_Admit:
  assumes inv: "inv_rooms config w (map c_room cs)" and msg: "msg_inv U config w cs" and rng: "iteration_order rng"
    and i: "i < length cs" "c_room (cs ! i) = None" and u: "uuid_shape u" and pos: "1 \<le> sc_MaxRoomSize config"
    and adm: "Admit rng u req (sc_MaxRoomSize config) i (Some (acceptJoin i ice)) w = (res, w')"
  shows "keeps (sent_ok U config) w w'" "\<forall>a < w_next w'. uuid_shape (r_ID (w_room w' a))"
proof -
  from msg i have ids: "\<forall>j < length (map c_room cs). uuid_shape (p_ID (w_peer w j))"
    and pid: "uuid_shape (p_ID (w_peer w i))" and rooms: "\<forall>a < w_next w. uuid_shape (r_ID (w_room w a))"
    and names: "\<forall>j < length (map c_room cs). map c_room cs ! j \<noteq> None \<longrightarrow>
      NormalizeUsername U (p_Username (w_peer w j)) = Inr (p_Username (w_peer w j))"
    by (simp_all add: msg_inv_def named_def)
  have empty: "rng [] = []" using rng_set [OF rng, of "[]"] by simp
  have "keeps (sent_ok U config) w (snd (Admit rng u req (sc_MaxRoomSize config) i (Some (acceptJoin i ice)) w))"
  proof (rule keeps_Admit)
    fix w0 assume "w0 = with_new_room u (sc_MaxRoomSize config) w"
    then have "w_peer w0 = w_peer w" by (simp add: with_new_room_def set_rooms_def set_room_def)
    then show "keeps (sent_ok U config) w0 (snd (acceptJoin i ice u [] w0))"
      using pid u pos by (intro acceptJoin_keeps) simp_all
  next
    fix room assume room: "gm_get (Rooms.rooms w) req = Some room" "gm_len (r_peers (w_room w room)) < r_MaxPeers (w_room w room)"
    have "room < w_next w" using inv_wf [OF inv] room(1) by (simp add: wf_rooms_def wf_room_def)
    with rooms have "uuid_shape (r_ID (w_room w room))" by blast
    with snapshot_ok [OF inv rng room ids names, of i] pid i
    show "keeps (sent_ok U config) w (snd (acceptJoin i ice (r_ID (w_room w room))
        (peerInfoSnapshot rng (w_peer w) (r_peers (w_room w room)) []) w))"
      by (intro acceptJoin_keeps) simp_all
  qed (rule empty)
  with adm show "keeps (sent_ok U config) w w'" by simp
  show "\<forall>a < w_next w'. uuid_shape (r_ID (w_room w' a))"
    by (rule Admit_room_ids [OF adm quiet_acceptJoin rooms u])
qed

lemma handler_replies_mem [simp]:
  "(''already_joined'', ''leave the current room before joining another'') \<in> set handler_replies"
  "(''invalid_username'', ''username must contain printable characters'') \<in> set handler_replies"
  "(''turn_unavailable'', ''relay credentials are unavailable'') \<in> set handler_replies"
  "(''room_full'', ''room is full'') \<in> set handler_replies"
  "(''server_busy'', ''the server has reached its room limit'') \<in> set handler_replies"
  "(''room_not_found'', ''room does not exist'') \<in> set handler_replies"
  "(''join_failed'', ''could not join room'') \<in> set handler_replies"
  "(''not_joined'', ''join a room before signaling a peer'') \<in> set handler_replies"
  "(''peer_unavailable'', ''target peer is unavailable'') \<in> set handler_replies"
  by code_simp+

lemma keeps_reply: "(code, t) \<in> set handler_replies \<Longrightarrow> keeps (sent_ok U config) w (sendError i code t w)"
  by (rule keeps_sendError [OF handler_replies_plain valid_sent])

lemma msg_inv_reply:
  "msg_inv U config w cs \<Longrightarrow> (code, t) \<in> set handler_replies \<Longrightarrow> msg_inv U config (sendError i code t w) cs"
  by (rule msg_inv_same [OF _ keeps_reply same_rooms_sendError])

lemma msg_inv_join:
  assumes inv: "inv_rooms config w (map c_room cs)" and msg: "msg_inv (v_tables E) config w cs"
    and rng: "iteration_order (v_rng E)" and i: "i < length cs" and u: "uuid_shape u"
    and pos: "1 \<le> sc_MaxRoomSize config"
    and h: "handleJoin E config u issued i (c_room (cs ! i)) m w = (res, w')"
  shows "case res of
      None \<Rightarrow> msg_inv (v_tables E) config w' cs
    | Some room \<Rightarrow> msg_inv (v_tables E) config w' (cs[i := (cs ! i)\<lparr>c_room := Some room, c_phase := Announcing room\<rparr>])"
proof (cases "\<exists>n ice. c_room (cs ! i) = None \<and> NormalizeUsername (v_tables E) (m_Username m) = Inr n \<and> issued = Inr ice")
  case False
  show ?thesis
  proof (cases "c_room (cs ! i)")
    case (Some r)
    with h have "res = None" "w' = sendError i ''already_joined'' ''leave the current room before joining another'' w"
      by (simp_all add: handleJoin_def)
    then show ?thesis by (simp add: msg_inv_reply [OF msg])
  next
    case None
    show ?thesis
    proof (cases "NormalizeUsername (v_tables E) (m_Username m)")
      case (Inl e)
      with h None have "res = None" "w' = sendError i ''invalid_username'' ''username must contain printable characters'' w"
        by (simp_all add: handleJoin_def)
      then show ?thesis by (simp add: msg_inv_reply [OF msg])
    next
      case (Inr n)
      with None False obtain e where "issued = Inl e" by (cases issued) auto
      with h None Inr have "res = None" "w' = sendError i ''turn_unavailable'' ''relay credentials are unavailable''
          (set_peer i ((w_peer w i)\<lparr>p_Username := n\<rparr>) w)" by (simp_all add: handleJoin_def Let_def)
      then show ?thesis by (simp add: msg_inv_reply [OF msg_inv_rename [OF msg None]])
    qed
  qed
next
  case True
  then obtain n ice where n: "c_room (cs ! i) = None" "NormalizeUsername (v_tables E) (m_Username m) = Inr n" "issued = Inr ice"
    by blast
  let ?w1 = "set_peer i ((w_peer w i)\<lparr>p_Username := n\<rparr>) w"
  obtain r w2 where adm: "Admit (v_rng E) u (m_RoomID m) (sc_MaxRoomSize config) i (Some (acceptJoin i ice)) ?w1 = (r, w2)"
    by fastforce
  note msg1 = msg_inv_rename [OF msg n(1), of n]
  have inv1: "inv_rooms config ?w1 (map c_room cs)" by (rule inv_rooms_same [OF same_rooms_set_peer inv]) simp
  note k = msg_inv_Admit [OF inv1 msg1 rng i n(1) u pos adm]
  note msg2 = msg_inv_keep [OF msg1 k]
  show ?thesis
  proof (cases r)
    case (Inl e)
    with h n adm have "res = None" and w': "w' =
       (if e = ErrRoomFull then sendError i ''room_full'' ''room is full'' w2
        else if e = ErrRoomLimit then sendError i ''server_busy'' ''the server has reached its room limit'' w2
        else if e = ErrRoomNotFound then sendError i ''room_not_found'' ''room does not exist'' w2
        else sendError i ''join_failed'' ''could not join room'' w2)"
      by (simp_all add: handleJoin_def)
    moreover have "msg_inv (v_tables E) config w' cs" unfolding w' by (simp add: msg_inv_reply [OF msg2])
    ultimately show ?thesis by simp
  next
    case (Inr room)
    with h n adm have res: "res = Some room" "w' = w2" by (auto simp: handleJoin_def)
    have "named (v_tables E) (w_peer ?w1 i)"
      using NormalizeUsername_idem [OF n(2)] by (simp add: named_def set_peer_def)
    then have "named (v_tables E) (w_peer w2 i)" using k(1) by (simp add: keeps_def named_def)
    with msg_inv_move [OF msg1 k, of "(cs ! i)\<lparr>c_room := Some room, c_phase := Announcing room\<rparr>" i] res
    show ?thesis by (simp add: phase_msg_def)
  qed
qed

section \<open>Every step keeps the invariant\<close>

lemma forwarded_valid:
  assumes "ValidateClientMessage U m = None" "m_Type m = MsgOffer \<or> m_Type m = MsgAnswer \<or> m_Type m = MsgICECandidate"
    and "uuid_shape pid"
  shows "ValidateServerMessage U (forwarded pid m) = None"
proof -
  have "m_Type m \<noteq> MsgJoinRoom" "m_Type m \<noteq> MsgLeaveRoom" "m_Type m \<noteq> MsgPeerJoined" "m_Type m \<noteq> MsgPeerLeft"
    using assms(2) by (auto simp: MsgJoinRoom_def MsgLeaveRoom_def MsgPeerJoined_def MsgPeerLeft_def MsgOffer_def
        MsgAnswer_def MsgICECandidate_def)
  with assms uuid_shape_ValidatePeerID [OF assms(3), of U] show ?thesis
    by (auto simp: ValidateClientMessage_def ValidateServerMessage_def forwarded_def split: if_splits option.splits)
qed

lemma announcement_valid:
  "uuid_shape pid \<Longrightarrow> ValidateServerMessage U ((NewMessage MsgPeerLeft)\<lparr>m_PeerID := pid\<rparr>) = None"
  "uuid_shape (p_ID p) \<Longrightarrow> named U p \<Longrightarrow>
     ValidateServerMessage U ((NewMessage MsgPeerJoined)\<lparr>m_PeerID := p_ID p, m_Username := p_Username p\<rparr>) = None"
  by (simp_all add: ValidateServerMessage_def NewMessage_def MsgPeerLeft_def MsgPeerJoined_def MaxPayloadBytes_def
      uuid_shape_ValidatePeerID named_def normalizeError_def)

abbreviation smsg_inv :: "env \<Rightarrow> ServerConfig \<Rightarrow> sys \<Rightarrow> bool" where
  "smsg_inv E config y \<equiv> msg_inv (v_tables E) config (wld y) (y_conns y)"

lemma smsg_set_world: "y_conns (set_world w y) = y_conns y" "wld (set_conn i c (set_world w y)) = w"
  by simp_all

lemma Leave_peers: "w_peer (snd (Leave rng room pid w)) = w_peer w"
  by (simp add: Leave_def Let_def set_rooms_def set_room_def split: option.split)

lemma Leave_ids:
  "w_next (snd (Leave rng room pid w)) = w_next w" "r_ID (w_room (snd (Leave rng room pid w)) a) = r_ID (w_room w a)"
  by (simp_all add: Leave_def Let_def set_rooms_def set_room_def split: option.split)

lemma msg_inv_leave:
  assumes msg: "smsg_inv E config y" and i: "i < length (y_conns y)"
    and l: "Leave rng (Some room) (p_ID (w_peer (wld y) i)) (wld y) = (remaining, w1)"
  shows "smsg_inv E config (set_conn i ((y_conns y ! i)\<lparr>c_room := None, c_phase := Delivering remaining
      ((NewMessage MsgPeerLeft)\<lparr>m_PeerID := p_ID (w_peer (wld y) i)\<rparr>) k\<rparr>) (set_world w1 y))"
proof -
  note eq = Leave_peers [of rng "Some room" "p_ID (w_peer (wld y) i)" "wld y", unfolded l]
    Leave_ids [of rng "Some room" "p_ID (w_peer (wld y) i)" "wld y", unfolded l]
  have "keeps (sent_ok (v_tables E) config) (wld y) w1" using eq(1) by (intro keeps_peers) simp
  moreover have "\<forall>a < w_next w1. uuid_shape (r_ID (w_room w1 a))" using eq msg by (simp add: msg_inv_def)
  moreover have "uuid_shape (p_ID (w_peer (wld y) i))" using msg i by (simp add: msg_inv_def)
  ultimately show ?thesis
    unfolding sys_proj by (intro msg_inv_move [OF msg]) (simp_all add: phase_msg_def announcement_valid)
qed

lemma msg_inv_dispatch:
  assumes inv: "sys_inv config y" and msg: "smsg_inv E config y" and rng: "iteration_order (v_rng E)"
    and i: "i < length (y_conns y)" and fresh: "fresh_id u y" and pos: "1 \<le> sc_MaxRoomSize config"
    and valid: "ValidateClientMessage (v_tables E) m = None"
  shows "smsg_inv E config (dispatch E u issued i m y)"
proof -
  let ?c = "y_conns y ! i"
  from inv have cfg: "cfg y = config" and rooms: "inv_rooms config (wld y) (map c_room (y_conns y))"
    by (simp_all add: sys_inv_def)
  have u: "uuid_shape u" using fresh by (simp add: fresh_id_def)
  have pid: "uuid_shape (p_ID (w_peer (wld y) i))" using msg i by (simp add: msg_inv_def)
  consider "m_Type m = MsgJoinRoom"
    | "m_Type m \<noteq> MsgJoinRoom" "m_Type m = MsgOffer \<or> m_Type m = MsgAnswer \<or> m_Type m = MsgICECandidate"
    | "m_Type m \<noteq> MsgJoinRoom" "\<not> (m_Type m = MsgOffer \<or> m_Type m = MsgAnswer \<or> m_Type m = MsgICECandidate)"
    by blast
  then show ?thesis
  proof cases
    case 1
    obtain res w1 where h: "handleJoin E config u issued i (c_room ?c) m (wld y) = (res, w1)" by fastforce
    with msg_inv_join [OF rooms msg rng i u pos h] 1 cfg show ?thesis
      by (cases res) (simp_all add: dispatch_def Let_def)
  next
    case 2
    have r: "msg_inv (v_tables E) config (sendError i ''not_joined'' ''join a room before signaling a peer'' (wld y)) (y_conns y)"
      by (rule msg_inv_reply [OF msg]) simp
    have "msg_inv (v_tables E) config (wld y) ((y_conns y)[i := ?c\<lparr>c_phase := Routing t (forwarded (p_ID (w_peer (wld y) i)) m)\<rparr>])" for t
      by (rule msg_inv_phase [OF msg keeps_refl same_rooms_refl i])
        (simp_all add: phase_msg_def forwarded_valid [OF valid 2(2) pid])
    with 2 r show ?thesis by (auto simp: dispatch_def Let_def split: option.splits)
  next
    case 3
    show ?thesis
    proof (cases "m_Type m = MsgLeaveRoom \<and> c_room ?c \<noteq> None")
      case True
      then obtain room where r: "c_room ?c = Some room" by blast
      obtain remaining w1 where l: "Leave (v_rng E) (Some room) (p_ID (w_peer (wld y) i)) (wld y) = (remaining, w1)"
        by fastforce
      from msg_inv_leave [OF msg i l, of Reading] 3 True r l show ?thesis by (simp add: dispatch_def Let_def)
    qed (use msg 3 in \<open>auto simp: dispatch_def Let_def split: option.splits\<close>)
  qed
qed

lemma msg_inv_step:
  assumes "sys_step E y y'" "sys_inv config y" "smsg_inv E config y"
    and rng: "iteration_order (v_rng E)" and pos: "1 \<le> sc_MaxRoomSize config"
  shows "smsg_inv E config y'"
  using assms(1-3)
proof (induction rule: sys_step.induct)
  case (step_connect u y addr hs)
  show ?case
  proof (cases "acquireConnection addr (y_server y)")
    case (Pair ok s)
    have s: "sv_world s = wld y" using Pair by (auto simp: acquireConnection_def split: if_splits)
    show ?thesis
    proof (cases ok)
      case True
      have "msg_inv (v_tables E) config (set_peer (length (y_conns y)) \<lparr>p_ID = u, p_Username = [], p_Send = [], p_cancelled = False\<rparr> (wld y))
        (y_conns y @ [\<lparr>c_addr = addr, c_room = None, c_phase = (if hs then Reading else Closing)\<rparr>])"
        using step_connect by (auto simp: msg_inv_def queues_ok_def set_peer_def nth_append less_Suc_eq phase_msg_def fresh_id_def)
      with True Pair s show ?thesis by (simp add: connect_def Let_def)
    qed (use Pair step_connect in \<open>simp add: connect_def\<close>)
  qed
next
  case (step_read i y u rateOK tookDone issued inc)
  have f: "smsg_inv E config (fatal tookDone i code t y)" for code t
    unfolding fatal_def sys_proj
    by (rule msg_inv_phase [OF step_read(5) keeps_sendFatal same_rooms_sendFatal step_read(1)]) (simp_all add: phase_msg_def)
  have e: "smsg_inv E config (set_conn i ((y_conns y ! i)\<lparr>c_phase := Exiting\<rparr>) y)"
    unfolding sys_proj
    by (rule msg_inv_phase [OF step_read(5) keeps_refl same_rooms_refl step_read(1)]) (simp_all add: phase_msg_def)
  note d = msg_inv_dispatch [OF step_read(4,5) rng step_read(1,3) pos]
  show ?case
  proof (cases inc)
    case (Text data)
    show ?thesis
    proof (cases "DecodeMessage data")
      case (Inr m)
      show ?thesis
      proof (cases "ValidateClientMessage (v_tables E) m")
        case None
        from d [OF this] f Inr Text None show ?thesis by (simp add: readLoop_def)
      qed (use f Inr Text in \<open>simp add: readLoop_def\<close>)
    qed (use f Text in \<open>simp add: readLoop_def\<close>)
  qed (use e f in \<open>simp_all add: readLoop_def\<close>)
next
  case (step_announce i y room)
  have "phase_ok (y_conns y ! i)" by (rule sys_inv_conn [OF step_announce(3,1)])
  with step_announce(2) have "c_room (y_conns y ! i) \<noteq> None" by (simp add: phase_ok_def)
  with step_announce(1,4) have "uuid_shape (p_ID (w_peer (wld y) i))" "named (v_tables E) (w_peer (wld y) i)"
    by (simp_all add: msg_inv_def)
  then show ?case
    unfolding announce_def Let_def sys_proj
    by (intro msg_inv_phase [OF step_announce(4) keeps_refl same_rooms_refl step_announce(1)])
      (simp_all add: phase_msg_def announcement_valid)
next
  case (step_deliver i y a as m k)
  with msg_inv_at [OF step_deliver(4,1)] step_deliver(2) have m: "ValidateServerMessage (v_tables E) m = None" by (simp add: phase_msg_def)
  show ?case
    unfolding deliverNext_def sys_proj
    by (rule msg_inv_phase [OF step_deliver(4) keeps_enqueue same_rooms_enqueue step_deliver(1)])
      (simp_all add: phase_msg_def m valid_sent)
next
  case (step_delivered i y m k)
  have "phase_ok (y_conns y ! i)" by (rule sys_inv_conn [OF step_delivered(3,1)])
  with step_delivered(2) have "k = Reading \<or> k = Closing" by (auto simp: phase_ok_def)
  then show ?case
    unfolding sys_proj
    by (intro msg_inv_phase [OF step_delivered(4) keeps_refl same_rooms_refl step_delivered(1)]) (auto simp: phase_msg_def)
next
  case (step_route i y target m)
  with msg_inv_at [OF step_route(4,1)] step_route(2) have m: "sent_ok (v_tables E) config m" by (simp add: phase_msg_def valid_sent)
  obtain err w1 where r: "(case target of None \<Rightarrow> (Some ErrPeerNotFound, wld y) | Some a \<Rightarrow> enqueue a m (wld y)) = (err, w1)"
    by fastforce
  have w1: "keeps (sent_ok (v_tables E) config) (wld y) w1 \<and> same_rooms (wld y) w1"
  proof (cases target)
    case (Some a)
    with r keeps_enqueue [of "sent_ok (v_tables E) config" m, OF m, of "wld y" a] same_rooms_enqueue [of "wld y" a m] show ?thesis by simp
  qed (use r in simp)
  let ?w2 = "if err \<noteq> None then sendError i ''peer_unavailable'' ''target peer is unavailable'' w1 else w1"
  have "keeps (sent_ok (v_tables E) config) (wld y) ?w2" "same_rooms (wld y) ?w2"
    using w1 by (simp_all add: keeps_trans [OF _ keeps_reply] same_rooms_trans [OF _ same_rooms_sendError])
  then show ?case
    unfolding routeNext_def Let_def r prod.case sys_proj
    by (intro msg_inv_phase [OF step_route(4) _ _ step_route(1)]) (simp_all add: phase_msg_def)
next
  case (step_waited i y)
  show ?case
    unfolding sys_proj
    by (rule msg_inv_phase [OF step_waited(4) keeps_refl same_rooms_refl step_waited(1)]) (simp_all add: phase_msg_def)
next
  case (step_exit i y)
  show ?case
  proof (cases "c_room (y_conns y ! i)")
    case None
    have "smsg_inv E config (set_conn i ((y_conns y ! i)\<lparr>c_phase := Closing\<rparr>) y)"
      unfolding sys_proj
      by (rule msg_inv_phase [OF step_exit(4) keeps_refl same_rooms_refl step_exit(1)]) (simp_all add: phase_msg_def)
    with None show ?thesis by (simp add: exitLeave_def)
  next
    case (Some room)
    obtain remaining w1 where l: "Leave (v_rng E) (Some room) (p_ID (w_peer (wld y) i)) (wld y) = (remaining, w1)"
      by fastforce
    from msg_inv_leave [OF step_exit(4,1) l, of Closing] Some l show ?thesis by (simp add: exitLeave_def)
  qed
next
  case (step_close i y)
  have "msg_inv (v_tables E) config (peer_Cancel i (wld y)) ((y_conns y)[i := (y_conns y ! i)\<lparr>c_phase := Gone\<rparr>])"
    by (rule msg_inv_phase [OF step_close(4) keeps_Cancel same_rooms_Cancel step_close(1)]) (simp_all add: phase_msg_def)
  then show ?case by (simp add: closeConn_def Let_def releaseConnection_def)
next
  case (step_write i y written)
  show ?case
  proof (cases "p_Send (w_peer (wld y) i)")
    case Nil
    with step_write show ?thesis by (simp add: writePump_def)
  next
    case (Cons x rest)
    let ?w1 = "set_peer i ((w_peer (wld y) i)\<lparr>p_Send := rest\<rparr>) (wld y)"
    have 1: "keeps (sent_ok (v_tables E) config) (wld y) ?w1" "same_rooms (wld y) ?w1"
      using Cons by (simp_all add: keeps_write same_rooms_set_peer)
    note 2 = keeps_trans [OF 1(1) keeps_Cancel] same_rooms_trans [OF 1(2) same_rooms_Cancel]
    from msg_inv_same [OF step_write(3) 1] msg_inv_same [OF step_write(3) 2] Cons show ?thesis
      by (simp add: writePump_def Let_def)
  qed
next
  case (step_heartbeat i y alive)
  from msg_inv_same [OF step_heartbeat(3) keeps_Cancel same_rooms_Cancel] step_heartbeat(3) show ?case
    by (simp add: heartbeat_def)
qed

lemma reachable_msg_inv:
  assumes rng: "iteration_order (v_rng E)" and "reachable E config y"
  shows "smsg_inv E config y"
  using assms(2)
proof (induction rule: reachable.induct)
  case (reach_start s)
  then show ?case by (auto simp: NewServer_def msg_inv_def queues_ok_def empty_world_def split: if_splits)
next
  case (reach_step y y')
  from reachable_inv [OF reach_step(1)] msg_inv_step [OF reach_step(2) _ reach_step(3) rng] show ?case by simp
qed

section \<open>What clients read\<close>

text \<open>C2: In every interleaving, every message that waits in a peer's queue, apart from the last
  words before a fatal disconnect, is one that the client's read pump accepts, or an admission that
  names the room and the peer by their UUIDs and lists fewer peers than the room can hold, with
  distinct identifiers, clean names and without the peer itself.\<close>

theorem server_messages_valid:
  assumes "iteration_order (v_rng E)" and "reachable E config y"
    and "x \<in> set (p_Send (w_peer (wld y) i))" and "\<not> o_result x"
  shows "ValidateServerMessage (v_tables E) (o_message x) = None \<or>
    (\<exists>a. admission_message (v_tables E) config a (o_message x))"
  using reachable_msg_inv [OF assms(1,2)] assms(3,4)
  by (auto simp: msg_inv_def queues_ok_def list_all_iff sent_ok_def)

definition sample_join :: SignalingMessage where
  "sample_join = (NewMessage MsgJoinRoom)\<lparr>m_RoomID := ''new'', m_Username := ''al''\<rparr>"

definition sample_wire :: string where
  "sample_wire = the (marshal_message sample_join) @ [CHR 0x0A]"

lemma sample_decoded: "DecodeMessage sample_wire = Inr sample_join"
proof -
  have "utf8 ''join_room''" "utf8 ''new''" "utf8 ''al''" by (rule ascii_utf8; simp add: byte_val_def)+
  then have good: "good_message sample_join"
    by (simp add: good_message_def sample_join_def NewMessage_def Version_def int64_min_def int64_max_def MsgJoinRoom_def)
  have "case marshal_message sample_join of None \<Rightarrow> False | Some tx \<Rightarrow> length tx < 200" by code_simp
  then obtain tx where tx: "marshal_message sample_join = Some tx" "length tx < 200" by (auto split: option.splits)
  then have "length tx < MaxSignalMessageBytes" by (simp add: MaxSignalMessageBytes_def)
  from DecodeMessage_marshal [OF good tx(1) this] tx(1) show ?thesis by (simp add: sample_wire_def)
qed

definition sample_room :: string where
  "sample_room = ''223e4567-e89b-42d3-a456-426614174000''"

definition sample_joined :: sys where
  "sample_joined = readLoop sample_env True False sample_room (Inl IssuerUnavailable) 0 (Text sample_wire) sample_connected"

lemma sample_joined_reachable: "reachable sample_env sample_config sample_joined"
  unfolding sample_joined_def
proof (rule reach_step [OF sample_reachable], rule step_read)
  have "uuid_shape sample_room" "w_next (wld sample_connected) = 0" "p_ID (w_peer (wld sample_connected) 0) \<noteq> sample_room"
    by code_simp+
  then show "fresh_id sample_room sample_connected" by (simp add: fresh_id_def sample_conns)
  show "c_phase (y_conns sample_connected ! 0) = Reading" by code_simp
qed (simp add: sample_conns)

theorem server_messages_valid_witness:
  "\<exists>x. p_Send (w_peer (wld sample_joined) 0) = [x] \<and>
     (ValidateServerMessage no_tables (o_message x) = None \<or> (\<exists>a. admission_message no_tables sample_config a (o_message x)))"
proof -
  have v: "ValidateClientMessage (v_tables sample_env) sample_join = None"
    "NormalizeUsername (v_tables sample_env) (m_Username sample_join) = Inr ''al''"
    "c_room (y_conns sample_connected ! 0) = None" "p_Send (w_peer (wld sample_connected) 0) = []"
    "m_Type sample_join = MsgJoinRoom" by code_simp+
  let ?w = "set_peer 0 ((w_peer (wld sample_connected) 0)\<lparr>p_Username := ''al''\<rparr>) (wld sample_connected)"
  have j: "wld sample_joined = sendError 0 ''turn_unavailable'' ''relay credentials are unavailable'' ?w"
    using v(1-3,5) by (simp add: sample_joined_def readLoop_def sample_decoded dispatch_def handleJoin_def Let_def)
  obtain m where "errorMessage ''turn_unavailable'' ''relay credentials are unavailable'' = Inr m"
    using errorMessage_valid [OF handler_replies_plain [OF handler_replies_mem(3)]] by blast
  then obtain x where x: "p_Send (w_peer (wld sample_joined) 0) = [x]" "\<not> o_result x"
    unfolding j using v(4) by (simp add: sendError_def enqueue_def set_peer_def peerQueueSize_def)
  have E: "v_rng sample_env = (\<lambda>xs. xs)" "v_tables sample_env = no_tables" by (simp_all add: sample_env_def)
  from server_messages_valid [of sample_env sample_config sample_joined x 0] x sample_joined_reachable sample_order
  show ?thesis by (simp add: E)
qed

end
