(* ===== verification/Server_Main.thy ===== *)
theory Server_Main
  imports Signaling_Server Config_Facts
begin

text \<open>
  The server program (\<^verbatim>\<open>cmd/termcall-server/main.go\<close>): it loads the configuration, starts
  the relay and the signaling server from it and serves until it is told to stop. What the
  operating system and the HTTP library do (opening sockets, serving, shutting down) is given.
\<close>

section \<open>Configurations of the two servers\<close>

definition turnConfig :: "config_Server \<Rightarrow> turn_Config" where
  "turnConfig c =
     \<lparr>tc_PublicIP = cs_PublicIP c, tc_Port = cs_TURNPort c, tc_Realm = ''termcall'',
      tc_SharedSecret = cs_TURNSharedSecret c, tc_CredentialTTL = cs_TURNCredentialTTL c,
      tc_MinRelayPort = cs_RelayPortMin c, tc_MaxRelayPort = cs_RelayPortMax c,
      tc_PerUserQuota = cs_TURNPerUserQuota c, tc_TotalQuota = cs_TURNTotalQuota c,
      tc_AllowPrivatePeers = cs_AllowPrivatePeers c\<rparr>"

definition signalingConfig :: "config_Server \<Rightarrow> ServerConfig" where
  "signalingConfig c =
     \<lparr>sc_MaxRoomSize = cs_MaxRoomSize c, sc_MaxRooms = cs_MaxRooms c, sc_MaxConnections = cs_MaxConnections c,
      sc_AllowedOrigins = cs_AllowedOrigins c, sc_MaxConnectionsPerIP = cs_MaxConnectionsPerIP c,
      sc_MessageRate = cs_MessageRate c, sc_MessageBurst = cs_MessageBurst c\<rparr>"

section \<open>The program\<close>

datatype run_error =
    LoadFailed config_error
  | TurnFailed start_error
  | SignalingFailed server_error
  | ShutdownFailed
  | ServeFailed

text \<open>How serving ends: a signal, after which shutting down works or not, or the end of the HTTP
  server, closed or failed.\<close>

datatype serve_end = Interrupted bool | ServerClosed | ServeError

record surroundings =
  so_std :: std
  so_env :: lookup
  so_file :: open_result
  so_v6 :: "IP \<Rightarrow> string"
  so_opens :: "socket \<Rightarrow> bool"
  so_library :: "turn_Config \<Rightarrow> bool"

text \<open>The servers that run, with the HTTP address, and the relay sockets that are open.\<close>

definition startup ::
  "surroundings \<Rightarrow> string list \<Rightarrow> (run_error, turn_Server \<times> Server \<times> string) res \<times> socket list" where
  "startup S args =
     (case LoadServer (so_std S) (so_env S) args (so_file S) of
        Inl e \<Rightarrow> (Inl (LoadFailed e), [])
      | Inr serverConfig \<Rightarrow>
          (case turn_NewServer (so_v6 S) (so_opens S) (so_library S) (turnConfig serverConfig) of
             (Inl e, open0) \<Rightarrow> (Inl (TurnFailed e), open0)
           | (Inr turnServer, open0) \<Rightarrow>
               (case NewServer True (signalingConfig serverConfig) of
                  Inl e \<Rightarrow> (Inl (SignalingFailed e), [])
                | Inr signalingServer \<Rightarrow> (Inr (turnServer, signalingServer, cs_HTTPAddress serverConfig), open0))))"

definition run :: "surroundings \<Rightarrow> string list \<Rightarrow> serve_end \<Rightarrow> run_error option" where
  "run S args ending =
     (case fst (startup S args) of
        Inl e \<Rightarrow> Some e
      | Inr _ \<Rightarrow>
          (case ending of
             Interrupted ok \<Rightarrow> if ok then None else Some ShutdownFailed
           | ServerClosed \<Rightarrow> None
           | ServeError \<Rightarrow> Some ServeFailed))"

definition healthHandler :: "string \<Rightarrow> nat \<times> (string \<times> string) list \<times> string" where
  "healthHandler method =
     (if method \<noteq> ''GET'' \<and> method \<noteq> ''HEAD'' then (405, [(''Allow'', ''GET, HEAD'')], ''method not allowed'' @ [CHR 0x0A])
      else (200, [(''Content-Type'', ''text/plain; charset=utf-8''), (''Cache-Control'', ''no-store'')],
            if method = ''GET'' then ''ok'' @ [CHR 0x0A] else []))"

section \<open>Composition\<close>

lemma secrets_agree: "validTURNSecret s = validSharedSecret s"
  by (simp add: validTURNSecret_def validSharedSecret_def minimumTURNSecretBytes_def)

lemma config_ok_turn:
  assumes "config_ok c"
  shows "validateConfig (turnConfig c) = None"
proof -
  let ?ip = "cs_PublicIP c"
  from assms have ip: "length ?ip = 4" "isPublicIPv4 ?ip" by (simp_all add: config_ok_def)
  then have v4: "To4 ?ip = Some ?ip" "?ip \<noteq> []" by (auto simp: To4_def)
  with peerAllowed_v4 [OF v4(1)] ip(2) have "peerAllowed ?ip False" by simp
  with v4 assms show ?thesis
    by (simp add: validateConfig_def turnConfig_def config_ok_def secrets_agree)
qed

lemma config_ok_signaling:
  assumes "config_ok c"
  shows "\<exists>s. NewServer True (signalingConfig c) = Inr s"
proof -
  have "\<not> float_le (cs_MessageRate c) (Fin 0)"
    using assms by (auto simp: config_ok_def rate_ok_def float_le_def)
  with assms show ?thesis by (simp add: NewServer_def signalingConfig_def config_ok_def)
qed

text \<open>C30: The three layers of validation agree. A configuration that loads is accepted by the
  relay and by the signaling server, so the program stops at start only because the configuration
  did not load, a socket did not open or the relay library refused, and it leaves no relay socket
  open when it does not start.\<close>

theorem startup_fails_only_outside:
  assumes "startup S args = (Inl e, sockets)"
  shows "sockets = [] \<and>
    ((\<exists>x. e = LoadFailed x) \<or> e = TurnFailed ListenUDP \<or> e = TurnFailed ListenTCP \<or> e = TurnFailed CreateServer)"
proof (cases "LoadServer (so_std S) (so_env S) args (so_file S)")
  case (Inl x)
  with assms show ?thesis by (auto simp: startup_def)
next
  case (Inr c)
  then have ok: "config_ok c" using LoadServer_validated validateServer_ok by blast
  note turn = config_ok_turn [OF ok]
  obtain s where s: "NewServer True (signalingConfig c) = Inr s" using config_ok_signaling [OF ok] by blast
  from assms Inr s turn show ?thesis
    by (auto simp: startup_def turn_NewServer_def Let_def split: if_splits)
qed

definition sample_surroundings :: surroundings where
  "sample_surroundings = \<lparr>so_std = sample_std, so_env = sample_lookup, so_file = NotExist, so_v6 = (\<lambda>_. []),
     so_opens = (\<lambda>s. case s of UDP4 _ \<Rightarrow> True | TCP4 _ \<Rightarrow> False), so_library = (\<lambda>_. True)\<rparr>"

theorem startup_fails_only_outside_witness:
  "fst (startup sample_surroundings []) = Inl (TurnFailed ListenTCP) \<and> snd (startup sample_surroundings []) = []"
proof -
  have "run sample_surroundings [] ServerClosed = Some (TurnFailed ListenTCP)" by code_simp
  then have f: "fst (startup sample_surroundings []) = Inl (TurnFailed ListenTCP)"
    by (simp add: run_def split: sum.splits)
  then have "startup sample_surroundings [] = (Inl (TurnFailed ListenTCP), snd (startup sample_surroundings []))"
    by (metis prod.collapse)
  from startup_fails_only_outside [OF this] f show ?thesis by simp
qed

end
