(* ===== verification/Join_Protocol.thy ===== *)
theory Join_Protocol
  imports Server_Messages Server_Main
begin

text \<open>
  The join handshake from end to end: an admission that the server queues, with credentials issued
  by the relay that was started from a valid configuration, goes over the wire and is accepted by the
  client's \<open>Dial\<close>; afterwards the read pump, beside any consumer, delivers exactly the valid messages it reads.
\<close>

section \<open>Credentials\<close>

definition printable :: "string \<Rightarrow> bool" where
  "printable s \<longleftrightarrow> list_all (\<lambda>c. 33 \<le> byte_val c \<and> byte_val c < 127) s"

lemma printable_simps [simp]:
  "printable []" "printable (c # s) \<longleftrightarrow> 33 \<le> byte_val c \<and> byte_val c < 127 \<and> printable s"
  "printable (s @ t) \<longleftrightarrow> printable s \<and> printable t"
  by (simp_all add: printable_def)

lemma printable_utf8: "printable s \<Longrightarrow> utf8 s"
  by (rule ascii_utf8) (auto simp: printable_def ascii_def list_all_iff)

lemma num_char_printable: "num_char c \<Longrightarrow> 33 \<le> byte_val c \<and> byte_val c < 127"
  using num_char_byte by fastforce

lemma printable_itoa [simp]: "printable (go_itoa n)"
  using go_itoa_chars [of n] num_char_printable by (auto simp: printable_def list_all_iff)

lemma printable_digits [simp]: "printable (nat_digits n)"
  using nat_digits_all [of n] by (auto simp: printable_def list_all_iff is_digit_def in_range_def)

lemma printable_join: "list_all printable ws \<Longrightarrow> 33 \<le> byte_val c \<Longrightarrow> byte_val c < 127 \<Longrightarrow> printable (join_on c ws)"
  by (induction c ws rule: join_on.induct) auto

lemma printable_uuid: "uuid_shape s \<Longrightarrow> printable s"
  using uuid_shape_bytes [of s] by (fastforce simp: printable_def list_all_iff lower_hex_def byte_val_def)

lemma printable_url:
  assumes "printable u" "length u \<le> 512" "has_prefix ''stun:'' u \<or> has_prefix ''turn:'' u"
  shows "validICEURL u"
proof -
  have "c \<notin> {CHR 0x0D, CHR 0x0A, CHR 0x00}" if "c \<in> set u" for c
    using assms(1) that by (auto simp: printable_def list_all_iff byte_val_def)
  with assms show ?thesis by (auto simp: validICEURL_def list_ex_iff)
qed

lemma turnURLs_valid:
  assumes "To4 ip = Some b" "ip_bytes b" "0 \<le> port" "port < 65536"
  shows "list_all (\<lambda>u. validICEURL u \<and> printable u \<and> length u \<le> 50) (turnURLs v6 ip port)" "length (turnURLs v6 ip port) = 3"
proof -
  have h: "printable (ip_string v6 ip)" "length (ip_string v6 ip) \<le> 15"
    using assms ip_string_length [OF assms(1,2), of v6]
    by (auto simp: ip_string_def list_all_iff byte_val_def intro!: printable_join)
  have p: "length (go_itoa port) \<le> 5" using go_itoa_length [of port 5] assms(3,4) by simp
  show "list_all (\<lambda>u. validICEURL u \<and> printable u \<and> length u \<le> 50) (turnURLs v6 ip port)"
    using h p by (auto simp: turnURLs_def Let_def byte_val_def has_prefix_def intro!: printable_url)
  show "length (turnURLs v6 ip port) = 3" by (simp add: turnURLs_def Let_def)
qed

text \<open>What is assumed of the keyed hash: HMAC-SHA1 in base 64 is 28 printable characters.\<close>

definition base64_hash :: "(string \<Rightarrow> string \<Rightarrow> string) \<Rightarrow> bool" where
  "base64_hash sign \<longleftrightarrow> (\<forall>k u. length (sign k u) = 28 \<and> printable (sign k u))"

definition ice_sized :: "ICEServer \<Rightarrow> bool" where
  "ice_sized s \<longleftrightarrow> length (ice_URLs s) = 3 \<and> list_all (\<lambda>u. validICEURL u \<and> printable u \<and> length u \<le> 50) (ice_URLs s) \<and>
     printable (ice_Username s) \<and> ice_Username s \<noteq> [] \<and> length (ice_Username s) \<le> 60 \<and>
     printable (ice_Credential s) \<and> length (ice_Credential s) = 28 \<and>
     0 \<le> ice_ExpiresAt s \<and> ice_ExpiresAt s < 10 ^ 11"

lemma issued_ok:
  assumes "turn_NewServer v6 opens lib config = (Inr server, sockets)"
    and "ip_bytes (tc_PublicIP config)" "0 \<le> tc_Port config" "tc_Port config < 65536"
    and "base64_hash sign" "0 \<le> t" "t \<le> int64_max" "uuid_shape pid"
    and "issuer_Issue U sign (ts_issuer server) t pid = Inr ice"
  shows "ice_sized ice" "t div second + 60 \<le> ice_ExpiresAt ice" "ice_ExpiresAt ice \<le> t div second + 3601"
proof -
  from assms(1) have v: "validateConfig config = None"
    and s: "ts_issuer server = NewCredentialIssuer (tc_SharedSecret config) (tc_CredentialTTL config) (turnURLs v6 (tc_PublicIP config) (tc_Port config))"
    by (auto simp: turn_NewServer_def Let_def split: option.splits if_splits)
  from v obtain b where b: "To4 (tc_PublicIP config) = Some b" by (auto simp: validateConfig_def split: if_splits)
  have bytes: "ip_bytes b" using b assms(2) by (auto simp: To4_def ip_bytes_def list_all_iff split: if_splits dest: in_set_dropD)
  have ttl: "minute \<le> tc_CredentialTTL config" "tc_CredentialTTL config \<le> hour"
    using v by (auto simp: validateConfig_def split: if_splits)
  define e where "e = (t + tc_CredentialTTL config) div second"
  have e: "t div second + 60 \<le> e" "e \<le> t div second + 3601"
    using ttl unfolding e_def second_def minute_def hour_def by linarith+
  have "t div second \<le> int64_max div second" using assms(7) by (intro zdiv_mono1) (simp_all add: second_def)
  then have big: "e < 10 ^ 11" "0 \<le> e" using e assms(6)
    by (simp_all add: int64_max_def second_def)
  from assms(9) s have ice: "ice = \<lparr>ice_URLs = turnURLs v6 (tc_PublicIP config) (tc_Port config),
      ice_Username = go_itoa e @ '':'' @ pid, ice_Credential = sign (tc_SharedSecret config) (go_itoa e @ '':'' @ pid), ice_ExpiresAt = e\<rparr>"
    by (auto simp: issuer_Issue_def NewCredentialIssuer_def Let_def e_def split: option.splits)
  have "length (go_itoa e) \<le> 11" using go_itoa_length [of e 11] big by simp
  moreover have "length pid = 36" using assms(8) by (simp add: uuid_shape_def)
  ultimately show "ice_sized ice"
    using turnURLs_valid [OF b bytes assms(3,4)] big assms(5) printable_uuid [OF assms(8)]
    by (simp add: ice_sized_def ice base64_hash_def byte_val_def)
  show "t div second + 60 \<le> ice_ExpiresAt ice" "ice_ExpiresAt ice \<le> t div second + 3601" using e by (simp_all add: ice)
qed

section \<open>The admission on the wire\<close>

lemma named_length:
  assumes "NormalizeUsername U n = Inr n"
  shows "length n \<le> 128" "utf8 n"
proof -
  note res = NormalizeUsername_result [OF assms]
  have four: "length (encode_rune r) \<le> 4" for r by (simp add: encode_rune_def Let_def)
  have "length (concat (map encode_rune rs)) \<le> 4 * length rs" for rs
  proof (induction rs)
    case (Cons r rs)
    with four [of r] show ?case by simp
  qed simp
  then have "length n \<le> 4 * length (username_runes U n)" using res(1) by metis
  with username_runes_props(3) [of U n] show "length n \<le> 128" by (simp add: MaxUsernameRunes_def)
  show "utf8 n" by (rule res(4))
qed

lemma uuid_utf8: "uuid_shape s \<Longrightarrow> utf8 s"
  using ascii_utf8 uuid_shape_ascii by blast

lemma marshal_peer_length:
  assumes "uuid_shape (pi_PeerID p)" "NormalizeUsername U (pi_Username p) = Inr (pi_Username p)"
  shows "length (marshal_peer p) \<le> 1088"
proof -
  have "length (pi_PeerID p) = 36" using assms(1) by (simp add: uuid_shape_def)
  then show ?thesis
    using length_json_object [of "[(''peer_id'', json_string (pi_PeerID p)), (''username'', json_string (pi_Username p))]"]
      length_json_string [of "pi_PeerID p"] length_json_string [of "pi_Username p"] named_length(1) [OF assms(2)]
    by (simp add: marshal_peer_def)
qed

lemma omitempty_length:
  "sum_list (map (\<lambda>p. 6 * length (fst p) + 4 + length (snd p)) (omitempty n s)) \<le> 6 * length n + 6 + 6 * length s"
  using length_json_string [of s] by (simp add: omitempty_def)

lemma marshal_ice_length:
  assumes "ice_sized s"
  shows "length (marshal_ice s) \<le> 4000"
proof -
  have "length (json_string u) \<le> 302" if "u \<in> set (ice_URLs s)" for u
    using assms that length_json_string [of u] by (fastforce simp: ice_sized_def list_all_iff)
  then have "length (json_array (map json_string (ice_URLs s))) \<le> 2 + 3 * 303"
    using length_json_array [of "ice_URLs s" json_string 302] assms by (simp add: ice_sized_def)
  moreover have "length (go_itoa (ice_ExpiresAt s)) \<le> 11" using go_itoa_length [of "ice_ExpiresAt s" 11] assms by (simp add: ice_sized_def)
  ultimately show ?thesis
    using length_json_object [of "[(''urls'', json_array (map json_string (ice_URLs s)))] @ omitempty ''username'' (ice_Username s)
        @ omitempty ''credential'' (ice_Credential s)
        @ (if ice_ExpiresAt s = 0 then [] else [(''expires_at'', go_itoa (ice_ExpiresAt s))])"]
      omitempty_length [of "''username''" "ice_Username s"] omitempty_length [of "''credential''" "ice_Credential s"] assms
    by (simp add: marshal_ice_def ice_sized_def split: if_splits)
qed

lemma accepted_length:
  assumes "uuid_shape (ja_RoomID a)" "uuid_shape (ja_PeerID a)" "peers_ok U (ja_PeerID a) (ja_Peers a)"
    "length (ja_Peers a) \<le> 16" "ja_ICEServers a = [ice]" "ice_sized ice"
  shows "length (marshal_accepted a) \<le> 23000"
proof -
  have l: "length (ja_RoomID a) = 36" "length (ja_PeerID a) = 36" using assms(1,2) by (simp_all add: uuid_shape_def)
  have "\<forall>p \<in> set (ja_Peers a). length (marshal_peer p) \<le> 1088"
    using assms(3) marshal_peer_length by (auto simp: peers_ok_def list_all_iff)
  then have "length (json_array (map marshal_peer (ja_Peers a))) \<le> 2 + length (ja_Peers a) * 1089"
    using length_json_array [of "ja_Peers a" marshal_peer 1088] by simp
  then have p: "length (json_array (map marshal_peer (ja_Peers a))) \<le> 17426" using assms(4) by linarith
  have i: "length (json_array (map marshal_ice (ja_ICEServers a))) \<le> 4003"
    using length_json_array [of "ja_ICEServers a" marshal_ice 4000] marshal_ice_length [OF assms(6)] assms(5) by simp
  show ?thesis
    using length_json_object [of "[(''room_id'', json_string (ja_RoomID a)), (''peer_id'', json_string (ja_PeerID a)),
       (''peers'', json_array (map marshal_peer (ja_Peers a))), (''ice_servers'', json_array (map marshal_ice (ja_ICEServers a)))]"]
      length_json_string [of "ja_RoomID a"] length_json_string [of "ja_PeerID a"] l p i
    by (simp add: marshal_accepted_def)
qed

lemma admissionPeersLoop_ok:
  assumes "list_all (\<lambda>p. uuid_shape (pi_PeerID p) \<and> NormalizeUsername U (pi_Username p) = Inr (pi_Username p)) ps"
    "distinct (map pi_PeerID ps)" "localID \<notin> set (map pi_PeerID ps)" "set seen \<inter> set (map pi_PeerID ps) = {}"
  shows "admissionPeersLoop U localID seen ps = None"
  using assms
proof (induction ps arbitrary: seen)
  case (Cons p ps)
  then have "admissionPeersLoop U localID (pi_PeerID p # seen) ps = None" by (intro Cons.IH) auto
  with Cons.prems uuid_shape_ValidatePeerID [of "pi_PeerID p" U] show ?case by auto
qed simp

lemma validateAdmission_ok:
  assumes "uuid_shape (ja_RoomID a)" "uuid_shape (ja_PeerID a)" "peers_ok U (ja_PeerID a) (ja_Peers a)"
    "length (ja_Peers a) \<le> 16" "ja_ICEServers a = [ice]" "ice_sized ice"
    "now < ice_ExpiresAt ice" "ice_ExpiresAt ice \<le> now + 7200"
  shows "validateAdmission U now a = None"
proof -
  have "iceServersLoop now (ja_ICEServers a) = None"
    using assms(5-8) by (auto simp: ice_sized_def list_all_iff second_def minute_def hour_def)
  moreover have "admissionPeersLoop U (ja_PeerID a) [] (ja_Peers a) = None"
    using assms(3) by (intro admissionPeersLoop_ok) (auto simp: peers_ok_def)
  ultimately show ?thesis
    using assms(4,5) ValidateRoomID_iff [of "ja_RoomID a"] assms(1) uuid_shape_ValidatePeerID [OF assms(2), of U]
    by (simp add: validateAdmission_def)
qed

lemma admission_good:
  assumes "uuid_shape (ja_RoomID a)" "uuid_shape (ja_PeerID a)" "peers_ok U (ja_PeerID a) (ja_Peers a)"
    "ja_ICEServers a = [ice]" "ice_sized ice"
  shows "good_accepted a"
proof -
  have "list_all utf8 (ice_URLs ice)" using assms(5) printable_utf8 by (auto simp: ice_sized_def list_all_iff)
  then have "good_ice ice"
    using assms(5) printable_utf8 by (auto simp: good_ice_def ice_sized_def int64_min_def int64_max_def)
  moreover have "list_all good_peer (ja_Peers a)"
    using assms(3) uuid_utf8 named_length(2) by (fastforce simp: peers_ok_def list_all_iff good_peer_def)
  ultimately show ?thesis using assms(1,2,4) uuid_utf8 by (simp add: good_accepted_def)
qed

text \<open>C13: An admission that the server sends is accepted by the client. With room sizes as the
  configuration allows them, credentials that the started relay issues for the peer, and clocks
  that differ by less than a minute, the admission message can be marshalled, fits the limits, and
  the client that reads it joins with exactly the room, the identifier, the peers and the
  credentials that the server put in.\<close>

theorem admission_accepted:
  assumes "admission_message U config a m" and "sc_MaxRoomSize config \<le> 16"
    and "turn_NewServer v6 opens lib turn = (Inr server, sockets)"
    and "ip_bytes (tc_PublicIP turn)" and "0 \<le> tc_Port turn" and "tc_Port turn < 65536"
    and "base64_hash sign" and "0 \<le> t" and "t \<le> int64_max"
    and "issuer_Issue U sign (ts_issuer server) t (ja_PeerID a) = Inr ice" and "ja_ICEServers a = [ice]"
    and "\<bar>now - t div second\<bar> < 60"
  shows "\<exists>tx. marshal_message m = Some tx \<and> joinResponse U now (tx @ [CHR 0x0A]) = Inr a"
proof -
  from assms(1,2) have m: "m = (NewMessage MsgJoinAccepted)\<lparr>m_RoomID := ja_RoomID a, m_PeerID := ja_PeerID a, m_Payload := marshal_accepted a\<rparr>"
    and ids: "uuid_shape (ja_RoomID a)" "uuid_shape (ja_PeerID a)" and peers: "peers_ok U (ja_PeerID a) (ja_Peers a)"
    and few: "length (ja_Peers a) \<le> 16" by (simp_all add: admission_message_def)
  note ice = issued_ok [OF assms(3-9) ids(2) assms(10)]
  note good = admission_good [OF ids peers assms(11) ice(1)]
  note len = accepted_length [OF ids peers few assms(11) ice(1)]
  have valid: "validateAdmission U now a = None"
    by (rule validateAdmission_ok [OF ids peers few assms(11) ice(1)]) (use ice(2,3) assms(12) in linarith)+
  have "utf8 MsgJoinAccepted" unfolding MsgJoinAccepted_def by (rule ascii_utf8) (simp add: byte_val_def)
  then have gm: "good_message m"
    using accepted_payload [OF good] uuid_utf8 [OF ids(1)] uuid_utf8 [OF ids(2)]
    by (simp add: m good_message_def NewMessage_def Version_def int64_min_def int64_max_def)
  from marshal_message_reads [OF gm] obtain tx where tx: "marshal_message m = Some tx" by blast
  have ne: "marshal_accepted a \<noteq> []" by (simp add: marshal_accepted_def json_object_def)
  have raw: "json_raw (marshal_accepted a) = Some (marshal_accepted a)"
    using accepted_payload [OF good] json_raw_reads unfolding good_payload_def by blast
  have l: "length (ja_RoomID a) = 36" "length (ja_PeerID a) = 36" using ids by (simp_all add: uuid_shape_def)
  have "length tx \<le> 30000"
    using tx raw ne len l length_json_object [of "[(''version'', go_itoa 1), (''type'', json_string MsgJoinAccepted)]
        @ omitempty ''room_id'' (ja_RoomID a) @ omitempty ''peer_id'' (ja_PeerID a) @ omitempty ''username'' []
        @ [(''payload'', marshal_accepted a)]"]
      omitempty_length [of "''room_id''" "ja_RoomID a"] omitempty_length [of "''peer_id''" "ja_PeerID a"]
      omitempty_length [of "''username''" "[]"] length_json_string [of MsgJoinAccepted] go_itoa_length [of 1 1]
    by (auto simp: m marshal_message_def NewMessage_def Version_def Let_def MsgJoinAccepted_def)
  then have dec: "DecodeMessage (tx @ [CHR 0x0A]) = Inr m"
    by (intro DecodeMessage_marshal [OF gm tx]) (simp add: MaxSignalMessageBytes_def)
  have pay: "DecodePayload accepted_fields zero_accepted (marshal_accepted a) = Inr a"
    using len by (intro accepted_roundtrip [OF good]) (simp add: MaxPayloadBytes_def)
  have "joinResponse U now (tx @ [CHR 0x0A]) = Inr a"
    unfolding joinResponse_def dec using pay valid
    by (simp add: m NewMessage_def MsgJoinAccepted_def MsgError_def)
  with tx show ?thesis by blast
qed

definition sample_turn :: turn_Config where
  "sample_turn = \<lparr>tc_PublicIP = [8, 8, 8, 8], tc_Port = 3478, tc_Realm = ''termcall'',
     tc_SharedSecret = ''0123456789abcdef0123456789abcdef'', tc_CredentialTTL = 600000000000,
     tc_MinRelayPort = 49152, tc_MaxRelayPort = 65535, tc_PerUserQuota = 2, tc_TotalQuota = 100, tc_AllowPrivatePeers = False\<rparr>"

definition sample_sign :: "string \<Rightarrow> string \<Rightarrow> string" where
  "sample_sign k u = replicate 28 (CHR ''A'')"

definition sample_issuer :: CredentialIssuer where
  "sample_issuer = NewCredentialIssuer ''0123456789abcdef0123456789abcdef'' 600000000000 (turnURLs (\<lambda>_. []) [8, 8, 8, 8] 3478)"

definition sample_admission :: JoinAcceptedPayload where
  "sample_admission = \<lparr>ja_RoomID = sample_room, ja_PeerID = sample_uuid, ja_Peers = [],
     ja_ICEServers = [case issuer_Issue no_tables sample_sign sample_issuer 0 sample_uuid of Inr ice \<Rightarrow> ice | Inl _ \<Rightarrow> zero_ice]\<rparr>"

definition sample_admission_message :: SignalingMessage where
  "sample_admission_message = (NewMessage MsgJoinAccepted)\<lparr>m_RoomID := sample_room, m_PeerID := sample_uuid,
     m_Payload := marshal_accepted sample_admission\<rparr>"

theorem admission_accepted_witness:
  "\<exists>tx. marshal_message sample_admission_message = Some tx \<and> joinResponse no_tables 5 (tx @ [CHR 0x0A]) = Inr sample_admission"
proof -
  have u: "uuid_shape sample_room" "uuid_shape sample_uuid" by code_simp+
  have "validateConfig sample_turn = None" by code_simp
  then obtain server sockets where srv: "turn_NewServer (\<lambda>_. []) (\<lambda>_. True) (\<lambda>_. True) sample_turn = (Inr server, sockets)"
    and iss: "ts_issuer server = sample_issuer"
    by (auto simp: turn_NewServer_def Let_def sample_issuer_def) (simp add: sample_turn_def)
  obtain ice where ice: "issuer_Issue no_tables sample_sign sample_issuer 0 sample_uuid = Inr ice"
    using uuid_shape_ValidatePeerID [OF u(2), of no_tables] by (simp add: issuer_Issue_def Let_def)
  then have a: "sample_admission = \<lparr>ja_RoomID = sample_room, ja_PeerID = sample_uuid, ja_Peers = [], ja_ICEServers = [ice]\<rparr>"
    by (simp add: sample_admission_def)
  have adm: "admission_message no_tables sample_config sample_admission sample_admission_message"
    using u by (simp add: admission_message_def sample_admission_message_def a sample_config_def)
  have h: "base64_hash sample_sign" by (simp add: base64_hash_def sample_sign_def printable_def list_all_iff byte_val_def)
  show ?thesis
    by (rule admission_accepted [OF adm _ srv _ _ _ h, of 0])
      (simp_all add: sample_config_def sample_turn_def ip_bytes_def iss ice a int64_max_def second_def)
qed

section \<open>The read pump\<close>

definition frame_message :: "unicode_tables \<Rightarrow> pump_read \<Rightarrow> SignalingMessage option" where
  "frame_message U x =
     (case x of
        Frame data \<Rightarrow>
          (case DecodeMessage data of
             Inr m \<Rightarrow> if ValidateServerMessage U m = None then Some m else None
           | Inl _ \<Rightarrow> None)
      | _ \<Rightarrow> None)"

text \<open>The messages of the longest prefix of reads that are all valid.\<close>

fun valid_prefix :: "unicode_tables \<Rightarrow> pump_read list \<Rightarrow> SignalingMessage list" where
  "valid_prefix U [] = []"
| "valid_prefix U (x # xs) = (case frame_message U x of None \<Rightarrow> [] | Some m \<Rightarrow> m # valid_prefix U xs)"

fun turns :: "pump_event list \<Rightarrow> pump_read list" where
  "turns [] = []"
| "turns (PumpTurn _ x # es) = x # turns es"
| "turns (_ # es) = turns es"

text \<open>A turn of the pump: a message is queued, or the pump returns, for one of three reasons.\<close>

lemma readPump_cases:
  obtains (queued) m where "frame_message U x = Some m" "int (length (cl_recv c)) < peerQueueSize"
      "fst (readPump U tookDone x c) = c\<lparr>cl_recv := cl_recv c @ [m]\<rparr>"
  | (invalid) e where "frame_message U x = None" "fst (readPump U tookDone x c) = pumpExit (case e of None \<Rightarrow> c | Some e \<Rightarrow> reportError e c)"
  | (cancelled) m where "frame_message U x = Some m" "cl_cancelled c" "fst (readPump U tookDone x c) = pumpExit c"
  | (overflow) m where "frame_message U x = Some m" "peerQueueSize \<le> int (length (cl_recv c))" "\<not> cl_cancelled c"
      "fst (readPump U tookDone x c) = pumpExit ((reportError SlowConsumer c)\<lparr>cl_cancelled := True\<rparr>)"
proof (cases "frame_message U x")
  case None
  then have "\<exists>e. fst (readPump U tookDone x c) = pumpExit (case e of None \<Rightarrow> c | Some e \<Rightarrow> reportError e c)"
    by (cases x) (auto simp: readPump_def frame_message_def split: sum.splits option.splits if_splits
        intro: exI [of _ None] exI [of _ "Some _"])
  with None invalid show thesis by blast
next
  case (Some m)
  then have "readPump U tookDone x c =
      (let room = int (length (cl_recv c)) < peerQueueSize
       in if cl_cancelled c \<and> (tookDone \<or> \<not> room) then (pumpExit c, False)
          else if room then (c\<lparr>cl_recv := cl_recv c @ [m]\<rparr>, True)
          else (pumpExit ((reportError SlowConsumer c)\<lparr>cl_cancelled := True\<rparr>), False))"
    by (auto simp: readPump_def frame_message_def split: pump_read.splits sum.splits option.splits if_splits)
  with Some queued cancelled overflow show thesis by (fastforce simp: Let_def split: if_splits)
qed

lemma valid_prefix_snoc:
  "valid_prefix U (xs @ [x]) =
     (if length (valid_prefix U xs) = length xs then valid_prefix U xs @ valid_prefix U [x] else valid_prefix U xs)"
  by (induction xs) (auto split: option.splits)

text \<open>What is known of a run after the reads \<open>xs\<close>, and more if nobody else cancels (\<open>calm\<close>).\<close>

definition pump_inv ::
  "unicode_tables \<Rightarrow> bool \<Rightarrow> pump_read list \<Rightarrow> SignalingMessage list \<Rightarrow> pump_error list \<Rightarrow> Client \<Rightarrow> bool" where
  "pump_inv U calm xs taken errs c \<longleftrightarrow>
     int (length (cl_recv c)) \<le> peerQueueSize \<and> (cl_errors_closed c \<longleftrightarrow> cl_recv_closed c) \<and> length (errs @ cl_errors c) \<le> 1 \<and>
     (\<exists>rest. valid_prefix U xs = (taken @ cl_recv c) @ rest \<and>
       (\<not> cl_recv_closed c \<longrightarrow> errs @ cl_errors c = [] \<and> rest = [] \<and> length (valid_prefix U xs) = length xs) \<and>
       (cl_recv_closed c \<longrightarrow> cl_conn_closed c \<and> cl_cancelled c \<and>
          (rest = [] \<and> length (valid_prefix U xs) < length xs \<or> errs @ cl_errors c = [SlowConsumer] \<or> \<not> calm))) \<and>
     (calm \<longrightarrow> cl_cancelled c \<longrightarrow> cl_recv_closed c)"

lemma pump_inv_returned:
  assumes inv: "pump_inv U calm xs taken errs c" and closed: "cl_recv_closed c"
  shows "pump_inv U calm (xs @ [x]) taken errs c"
proof -
  from inv closed obtain rest where r: "valid_prefix U xs = (taken @ cl_recv c) @ rest"
    "rest = [] \<and> length (valid_prefix U xs) < length xs \<or> errs @ cl_errors c = [SlowConsumer] \<or> \<not> calm"
    unfolding pump_inv_def by blast
  define rest' where "rest' = rest @ (if length (valid_prefix U xs) = length xs then valid_prefix U [x] else [])"
  then have r': "valid_prefix U (xs @ [x]) = (taken @ cl_recv c) @ rest'" "length (valid_prefix U xs) < length xs \<longrightarrow> rest' = rest"
    using r(1) unfolding valid_prefix_snoc by (simp_all split: if_splits)
  have "rest' = [] \<and> length (valid_prefix U (xs @ [x])) < length (xs @ [x]) \<or> errs @ cl_errors c = [SlowConsumer] \<or> \<not> calm"
    using r(2) r'(2) by (auto simp: valid_prefix_snoc)
  with inv closed r'(1) show ?thesis unfolding pump_inv_def by blast
qed

lemma pump_inv_turn:
  assumes inv: "pump_inv U calm xs taken errs c" and running: "\<not> cl_recv_closed c"
  shows "pump_inv U calm (xs @ [x]) taken errs (fst (readPump U tookDone x c))"
proof -
  from inv running have here: "valid_prefix U xs = taken @ cl_recv c" "errs = []" "cl_errors c = []"
    "length (valid_prefix U xs) = length xs" "\<not> cl_errors_closed c" "calm \<longrightarrow> \<not> cl_cancelled c" "int (length (cl_recv c)) \<le> peerQueueSize"
    by (auto simp: pump_inv_def)
  have next_prefix: "valid_prefix U (xs @ [x]) = (taken @ cl_recv c) @ (case frame_message U x of None \<Rightarrow> [] | Some m \<Rightarrow> [m])"
    using here(1,4) by (simp add: valid_prefix_snoc split: option.split)
  show ?thesis
  proof (cases rule: readPump_cases [of U x c tookDone])
    case (queued m)
    with here running next_prefix show ?thesis by (simp add: pump_inv_def)
  next
    case (invalid e)
    with here next_prefix show ?thesis
      by (cases e) (simp_all add: pump_inv_def pumpExit_def reportError_def)
  next
    case (cancelled m)
    with here next_prefix show ?thesis by (simp add: pump_inv_def pumpExit_def)
  next
    case (overflow m)
    with here next_prefix show ?thesis by (simp add: pump_inv_def pumpExit_def reportError_def)
  qed
qed

lemma pumpRun_inv:
  "pump_inv U calm xs taken errs c \<Longrightarrow> calm \<longrightarrow> CancelContext \<notin> set es \<Longrightarrow> pumpRun U es (taken, errs, c) = (taken', errs', c') \<Longrightarrow>
   pump_inv U calm (xs @ turns es) taken' errs' c'"
proof (induction es arbitrary: xs taken errs c)
  case (Cons e es)
  show ?case
  proof (cases e)
    case (PumpTurn tookDone x)
    let ?c = "if cl_recv_closed c then c else fst (readPump U tookDone x c)"
    have "pump_inv U calm (xs @ [x]) taken errs ?c"
      using pump_inv_returned [OF Cons.prems(1), of x] pump_inv_turn [OF Cons.prems(1), of x tookDone] by simp
    from Cons.IH [OF this] Cons.prems(2,3) PumpTurn show ?thesis by simp
  next
    case TakeMessage
    show ?thesis
    proof (cases "cl_recv c")
      case Nil
      with Cons TakeMessage show ?thesis by simp
    next
      case (Cons m ms)
      with Cons.prems(1) have "pump_inv U calm xs (taken @ [m]) errs (c\<lparr>cl_recv := ms\<rparr>)" by (simp add: pump_inv_def)
      from Cons.IH [OF this] Cons.prems(2,3) TakeMessage Cons show ?thesis by simp
    qed
  next
    case TakeError
    show ?thesis
    proof (cases "cl_errors c")
      case Nil
      with Cons TakeError show ?thesis by simp
    next
      case (Cons e es)
      with Cons.prems(1) have "pump_inv U calm xs taken (errs @ [e]) (c\<lparr>cl_errors := es\<rparr>)" by (auto simp: pump_inv_def)
      from Cons.IH [OF this] Cons.prems(2,3) TakeError Cons show ?thesis by simp
    qed
  next
    case CancelContext
    with Cons.prems have "pump_inv U calm xs taken errs (c\<lparr>cl_cancelled := True\<rparr>)" by (auto simp: pump_inv_def)
    from Cons.IH [OF this] Cons.prems(2,3) CancelContext show ?thesis by simp
  qed
qed simp

text \<open>A message of the server that the pump delivers.\<close>

definition pump_message :: SignalingMessage where
  "pump_message = (NewMessage MsgPeerLeft)\<lparr>m_PeerID := ''223e4567-e89b-42d3-a456-426614174000''\<rparr>"

definition pump_wire :: string where
  "pump_wire = the (marshal_message pump_message) @ [CHR 0x0A]"

lemma pump_decoded: "DecodeMessage pump_wire = Inr pump_message"
proof -
  have "utf8 ''peer_left''" "utf8 ''223e4567-e89b-42d3-a456-426614174000''" by (rule ascii_utf8; simp add: byte_val_def)+
  then have good: "good_message pump_message"
    by (simp add: good_message_def pump_message_def NewMessage_def Version_def int64_min_def int64_max_def MsgPeerLeft_def)
  have "case marshal_message pump_message of None \<Rightarrow> False | Some tx \<Rightarrow> length tx < 200" by code_simp
  then obtain tx where tx: "marshal_message pump_message = Some tx" "length tx < 200" by (auto split: option.splits)
  then have "length tx < MaxSignalMessageBytes" by (simp add: MaxSignalMessageBytes_def)
  from DecodeMessage_marshal [OF good tx(1) this] tx(1) show ?thesis by (simp add: pump_wire_def)
qed

lemma pump_frame: "frame_message no_tables (Frame pump_wire) = Some pump_message"
proof -
  have "ValidateServerMessage no_tables pump_message = None" by code_simp
  then show ?thesis by (simp add: frame_message_def pump_decoded)
qed

text \<open>C29: The read pump delivers exactly what the server sent. Beside any consumer, what was taken and
  what is queued are the first messages of the longest valid prefix of what was read, in
  order, each once, and never more than 256 wait. While the pump runs nothing is missing. The
  channel of messages and the channel of errors are closed together, with the connection; that
  happens only after a read that is not a valid server message, when nothing is missing either,
  because the consumer was too slow, which is reported, or after another goroutine cancelled the
  context. At most one error is ever reported.\<close>

theorem pump_delivers:
  assumes "cl_recv c = []" and "\<not> cl_recv_closed c" and "\<not> cl_errors_closed c" and "cl_errors c = []" and "\<not> cl_cancelled c"
    and "pumpRun U es ([], [], c) = (taken, errs, c')"
  shows "\<exists>missing. valid_prefix U (turns es) = taken @ cl_recv c' @ missing \<and> length (cl_recv c') \<le> 256 \<and>
    (\<not> cl_recv_closed c' \<longrightarrow> missing = [] \<and> length (valid_prefix U (turns es)) = length (turns es) \<and> errs @ cl_errors c' = []) \<and>
    (cl_recv_closed c' \<longleftrightarrow> cl_errors_closed c') \<and> (cl_recv_closed c' \<longrightarrow> cl_conn_closed c' \<and> cl_cancelled c') \<and>
    (cl_recv_closed c' \<longrightarrow> missing = [] \<and> length (valid_prefix U (turns es)) < length (turns es) \<or>
       errs @ cl_errors c' = [SlowConsumer] \<or> CancelContext \<in> set es) \<and>
    length (errs @ cl_errors c') \<le> 1"
proof -
  have "pump_inv U (CancelContext \<notin> set es) [] [] [] c" using assms(1-5) by (simp add: pump_inv_def peerQueueSize_def)
  from pumpRun_inv [OF this _ assms(6)] have "pump_inv U (CancelContext \<notin> set es) (turns es) taken errs c'" by simp
  then show ?thesis unfolding pump_inv_def peerQueueSize_def by (elim conjE exE) (rule exI, auto)
qed

theorem pump_delivers_witness:
  "\<exists>taken errs c'. pumpRun no_tables [PumpTurn False (Frame pump_wire), TakeMessage, PumpTurn False (Frame pump_wire), PumpTurn False Binary]
      ([], [], new_client) = (taken, errs, c') \<and> taken @ cl_recv c' = [pump_message, pump_message] \<and> cl_errors_closed c'"
proof -
  let ?es = "[PumpTurn False (Frame pump_wire), TakeMessage, PumpTurn False (Frame pump_wire), PumpTurn False Binary]"
  obtain taken errs c' where run: "pumpRun no_tables ?es ([], [], new_client) = (taken, errs, c')" by (metis surj_pair)
  have p: "valid_prefix no_tables (turns ?es) = [pump_message, pump_message]" "length (turns ?es) = 3"
    by (simp_all add: pump_frame) (simp add: frame_message_def)
  have n: "cl_recv new_client = []" "\<not> cl_recv_closed new_client" "\<not> cl_errors_closed new_client" "cl_errors new_client = []"
    "\<not> cl_cancelled new_client" by (simp_all add: new_client_def)
  have slow: "errs @ cl_errors c' \<noteq> [SlowConsumer]"
    using run pump_frame by (auto simp: new_client_def readPump_def frame_message_def peerQueueSize_def pumpExit_def reportError_def Let_def
      split: sum.splits if_splits)
  from pump_delivers [OF n run] p slow run show ?thesis by auto
qed

end
