(* ===== verification/Spec2Isabelle.thy ===== *)
theory Spec2Isabelle
  imports Client_Main Audio_Player Join_Protocol
begin

text \<open>
  TermCall: video calls between terminals. A participant's program captures its camera, renders it
  as character cells and sends it, with audio, over WebRTC connections to every other participant of a
  room. A server admits participants to rooms, routes their session descriptions and
  issues credentials for a TURN relay. The development models the Go sources under
  \<^verbatim>\<open>src/internal\<close> and \<^verbatim>\<open>src/cmd\<close> and proves what makes the parts and their composition correct.

  \<^bold>\<open>How the code is modelled.\<close> A struct is a \<^verbatim>\<open>record\<close>, a function is a HOL function, a method with a
  pointer receiver takes the receiver and returns it, also on errors, an \<^verbatim>\<open>error\<close> is a value of a sum
  type, a Go map is an association list with unique keys (\<open>gomap\<close>, whose iteration order is an
  argument where the code ranges over it), a channel is a list. Goroutines are step relations: a step is
  one critical section of the code's lock, so that everything another goroutine can do in between
  is covered. What third-party libraries, sockets, devices and the clock answer is an argument of
  the definitions. Go's standard library is modelled as far as the sources use it:

  \<^item> \<open>Prelude\<close>: Go maps with the interface of their laws (locale \<open>go_map\<close>), lists, and the locale
    \<open>transition_invariant\<close> that turns an inductive step relation and an invariant into facts on every
    reachable state; it is interpreted for the server, the mesh, the camera and the microphone.
  \<^item> \<open>Go_Strings\<close>, \<open>Go_Unicode\<close>, \<open>Go_JSON\<close>: bytes and UTF-8, number formatting and parsing, unicode
    predicates (the tables above U+00FF are an argument), \<^verbatim>\<open>encoding/json\<close> with its scanner, its folded
    field names and its string escapes, and the lemmas that reading undoes writing.
  \<^item> \<open>Go_Float\<close>: comparisons with NaN. \<open>Float64\<close>: \<^verbatim>\<open>float64\<close> arithmetic as rounding to 53 bits, with
    its error bound, and the correctly rounded square root. \<open>Net_Address\<close>: IP addresses and prefixes.

  \<^bold>\<open>Video (\<^verbatim>\<open>src/internal/ascii\<close>).\<close>

  \<^item> \<open>Frame_Codec\<close>, \<open>Frame_Stream\<close>: the delta codec of \<^verbatim>\<open>delta.go\<close>. A decoder follows an encoder exactly, whatever
    state it starts in (\<open>stream_roundtrip\<close>); hostile input is rejected without changing the decoder
    and never yields a malformed grid; frames fit the size limit; keyframes recur.
  \<^item> \<open>Noise_Filter\<close>: the filter of \<^verbatim>\<open>stabiliser.go\<close>, which never drifts beyond its threshold.
  \<^item> \<open>Terminal_Output\<close>: the serialisers. What reaches the terminal paints the cells and contains
    no other control sequence.
  \<^item> \<open>Renderer\<close>: \<^verbatim>\<open>renderer.go\<close> and the three samplers. \<open>camera_to_viewer\<close> composes renderer, filter, encoder and
    decoder: the viewer sees the sender's own picture. Rendering reads no point outside the image.

  \<^bold>\<open>Signaling (\<^verbatim>\<open>src/internal/protocol\<close>, \<^verbatim>\<open>signaling\<close>).\<close>

  \<^item> \<open>Protocol\<close>: messages, payloads and validators of \<^verbatim>\<open>messages.go\<close>, with wire round trips.
  \<^item> \<open>Rooms\<close>: the room manager of \<^verbatim>\<open>room.go\<close> over a heap of rooms and peers; admission, leaving and broadcast
    refine operations on the sets of members.
  \<^item> \<open>Signaling_Server\<close>: the handler of \<^verbatim>\<open>handler.go\<close> as a step relation over all connections. The limits hold
    and membership is consistent in every interleaving. \<open>Server_Messages\<close>: every message it queues
    is valid for the client.
  \<^item> \<open>Signaling_Client\<close>, \<open>Join_Protocol\<close>: \<^verbatim>\<open>client.go\<close> and the composition: what the server admits, the
    client accepts; beside any consumer, the read pump delivers in order what arrives and closes both its
    channels together.

  \<^bold>\<open>Relay and configuration.\<close>

  \<^item> \<open>Turn\<close>: credentials, quotas and permissions of \<^verbatim>\<open>turn/server.go\<close>. The quotas hold in
    every run in which an allocation is reported while its reservation is held; stale timers cancel
    reservations early, and then nothing bounds what a user holds (\<open>stale_timer_breaks_quota\<close>).
  \<^item> \<open>Config\<close>, \<open>Config_Facts\<close>, \<open>Server_Main\<close>: \<^verbatim>\<open>config/server.go\<close> and \<^verbatim>\<open>cmd/termcall-server\<close>: an accepted
    configuration is within its limits and starts every part.

  \<^bold>\<open>Calls (\<^verbatim>\<open>src/internal/rtc\<close>).\<close>

  \<^item> \<open>Remote_Peer\<close>: \<^verbatim>\<open>peer.go\<close> and the framing of \<^verbatim>\<open>mesh.go\<close>: frames are shown in order, candidates are kept until
    the description arrives, and the address filter is the relay's.
  \<^item> \<open>Mesh\<close>, \<open>Mesh_Facts\<close>: the connection manager. In every interleaving of the signaling goroutine, the
    connections' callbacks, muting and \<open>Stop\<close>, no connection that the library made leaks and the callbacks add up; one of
    two participants offers; muting reaches the registered peers, but not one that is
    being created (\<open>mute_race\<close>).

  \<^bold>\<open>Devices and screens (\<^verbatim>\<open>src/internal/capture\<close>, \<^verbatim>\<open>playback\<close>, \<^verbatim>\<open>tui\<close>, \<^verbatim>\<open>src/cmd/termcall\<close>).\<close>

  \<^item> \<open>Capture\<close>: camera and microphone with their generation counters; the contract of a device is
    the locale \<open>capture_device\<close>, interpreted for both. \<open>Audio_Player\<close>: the playback queue; its
    callback terminates and plays a queue of samples, and the loudness it shows is between 0 and 1. The stubs
    that are built without cgo are modelled beside the code they replace.
  \<^item> \<open>Grid_Layout\<close>, \<open>Call_Model\<close>, \<open>Call_Facts\<close>: the call screen: the layout is the best one and holds every tile,
    the roster follows the messages, tiles are safe text, and the microphone indicator agrees with the
    mesh that carries out the screen's calls; what the timers read from the mesh is finite.
  \<^item> \<open>App_Model\<close>: the forms and the screens: one call is started.
  \<^item> \<open>Views\<close>, \<open>View_Facts\<close>: every view of \<^verbatim>\<open>tui\<close>, down to the styles and texts handed to the terminal library
    (the record \<open>lipgloss\<close>, whose documented sizes are the hypothesis \<open>lipgloss_laws\<close>). Drawing never
    panics, and the call screen fills the window (\<open>call_screen_fits\<close>).
  \<^item> \<open>Client_Main\<close>: flags, exit codes and what is released on the way out (\<^verbatim>\<open>cmd/termcall\<close>). Below,
    \<open>hangup_releases\<close> composes it with the devices and the mesh: a call that is hung up
    leaves no device on and no connection open.

  \<^bold>\<open>Bounds and fuel.\<close> The only fuel is that of the JSON scanner, whose nesting is bounded by the length
  of its input (\<open>json_fuel\<close>); every other recursion is structural or has a termination proof. Sequence numbers
  and generation counters keep their 64 bits, and the noise filter's differences of colours wrap at 64 bits;
  frame arithmetic is done on integers after the bounds checks that keep Go's from wrapping, and the
  scores of the layout fit 64 bits for every window below \<^verbatim>\<open>2^31\<close> cells a side (\<open>gridScore_fits\<close>).

  \<^bold>\<open>Not modelled.\<close> The WebRTC, WebSocket, Opus, media-device, TURN, form and terminal libraries, sockets,
  clocks and the operating system (arguments of the definitions); log output and usage texts; the
  classification of connection errors that only chooses what is logged (\<open>isDisconnect\<close> in \<^verbatim>\<open>handler.go\<close>);
  getters that return a field under its lock; fused multiply-add, which some targets use for float
  expressions.
\<close>

section \<open>Leaving a call\<close>

text \<open>C12: Hanging up releases everything. Whatever happened in the call, when the program
  ends with code 0 and no opening, closing, joining or leaving is under way, every track
  that the media library opened for the camera and the microphone is closed, no peer is
  registered, every connection that the library ever made has been closed and the signaling connection
  has been closed.\<close>

theorem hangup_releases:
  assumes "camera_step\<^sup>*\<^sup>* NewCamera c" and "\<not> ca_starting c" and "ca_closing c = []"
    and "mic_step\<^sup>*\<^sup>* NewMicrophone m" and "\<not> mi_starting m" and "mi_closing m = []"
    and "mesh_start U admission w0" and "(mesh_step U)\<^sup>*\<^sup>* w0 w" and "mw_pc w = Idle" and "mw_leaving w = []"
    and "\<not> ms_stopped (mw_mesh w)"
    and "client_main start logOpens (Some (c, m, mw_mesh w)) runOK args = (0, Some (c', m', mesh))"
  shows "ca_open c' = [] \<and> mi_open m' = [] \<and> ms_Peers mesh = gm_empty \<and> SignalerClose \<in> set (ms_calls mesh) \<and>
    (\<forall>con. NewConnection con \<in> set (ms_calls mesh) \<longrightarrow> ConnectionClose con \<in> set (ms_calls mesh))"
proof -
  from exit_zero_cleans [OF assms(12)] have s: "c' = closeCamera c" "m' = closeMicrophone m" "mesh = Stop (mw_mesh w)"
    by (simp_all add: cleanup_def)
  have "ca_open c' = []"
    using cam.off_when_closed [OF refl rtranclp_trans [OF assms(1) closeCamera_steps]] assms(2,3) by (simp add: s close_devices_idle)
  moreover have "mi_open m' = []"
    using mic.off_when_closed [OF refl rtranclp_trans [OF assms(4) closeMicrophone_steps]] assms(5,6) by (simp add: s close_devices_idle)
  moreover note Stop_closes_signaler [OF assms(11)]
  moreover from mesh_run.reach_inv [OF assms(7) rtranclp_trans [OF assms(8) Stop_steps [OF assms(11)]]]
  have inv: "mesh_inv mesh Idle []" by (simp add: world_inv_def s assms(9,10))
  moreover have "ms_Peers mesh = gm_empty" using inv_stop [OF inv] Stop_closes_signaler [OF assms(11)] by (simp add: s)
  moreover have "ConnectionClose con \<in> set (ms_calls mesh)" if "NewConnection con \<in> set (ms_calls mesh)" for con
    using inv_connection [OF inv that] calculation(5) by auto
  ultimately show ?thesis by (simp add: s)
qed

text \<open>A call with the camera on and a participant connected.\<close>

definition live_camera :: camera where
  "live_camera = camera_end (camera_commit False 0 0 (camera_open False (MediaTracks 1 (Some 0) True) 0 (camera_begin NewCamera)))"

lemma live_camera_run: "camera_step\<^sup>*\<^sup>* NewCamera live_camera"
proof -
  let ?c1 = "camera_begin NewCamera" let ?c2 = "camera_open False (MediaTracks 1 (Some 0) True) 0 ?c1"
  let ?c3 = "camera_commit False 0 0 ?c2"
  have pcs: "ca_pc ?c1 = Opening 0" "ca_pc ?c2 = Opened 0 0" "ca_pc ?c3 = Ending" by code_simp+
  have "camera_step NewCamera ?c1" by (rule cam_begin)
  moreover have "camera_step ?c1 ?c2" by (rule cam_open [OF pcs(1)]) simp
  moreover have "camera_step ?c2 ?c3" by (rule cam_commit [OF pcs(2)])
  moreover have "camera_step ?c3 live_camera" unfolding live_camera_def by (rule cam_end [OF pcs(3)])
  ultimately show ?thesis by (meson r_into_rtranclp rtranclp.rtrancl_into_rtrancl)
qed

theorem hangup_releases_witness:
  "\<exists>c' m' mesh.
     client_main (\<lambda>_ _ _. Inl (MeshNewError CodecError)) True (Some (live_camera, NewMicrophone, mw_mesh meshrun_joined)) True [] =
       (0, Some (c', m', mesh)) \<and>
     ca_open live_camera = [0] \<and> ca_open c' = [] \<and> ConnectionClose 7 \<in> set (ms_calls mesh)"
proof -
  let ?start = "\<lambda>(_ :: bool) (_ :: bool) (_ :: JoinResult). Inl (MeshNewError CodecError) :: (call_start_error, CallModel \<times> MeshManager) res"
  let ?mesh = "Stop (mw_mesh meshrun_joined)"
  have run: "client_main ?start True (Some (live_camera, NewMicrophone, mw_mesh meshrun_joined)) True [] =
      (0, Some (closeCamera live_camera, closeMicrophone NewMicrophone, ?mesh))"
    by (simp add: client_main_def defaultFlags_def invocationMode_def cleanup_def)
  have idle: "\<not> ca_starting live_camera" "ca_closing live_camera = []" "\<not> mi_starting NewMicrophone" "mi_closing NewMicrophone = []"
    "ca_open live_camera = [0]" by code_simp+
  have mesh: "mw_pc meshrun_joined = Idle" "mw_leaving meshrun_joined = []" "\<not> ms_stopped (mw_mesh meshrun_joined)"
    "NewConnection 7 \<in> set (ms_calls ?mesh)"
    by code_simp+
  from hangup_releases [OF live_camera_run idle(1,2) rtranclp.rtrancl_refl idle(3,4) meshrun_start_ok meshrun_run_joined mesh(1-3) run]
  show ?thesis using run idle(5) mesh(4) by auto
qed

end
